(* ===== verification/Prelude.thy ===== *)
theory Prelude
  imports Main "HOL-Library.Sublist" "HOL-Library.Word"
begin

text \<open>
  Shared vocabulary of the development: the byte and string types, the operations of
  the Rust standard library on \<^verbatim>\<open>str\<close> and \<^verbatim>\<open>[u8]\<close> that the modelled code calls, and the
  generic lemmas about them. A Rust \<^verbatim>\<open>String\<close> is its UTF-8 byte sequence, so it is a
  HOL \<open>string\<close> whose characters are bytes and whose \<open>length\<close> is \<^verbatim>\<open>str::len\<close>; a
  \<^verbatim>\<open>Vec<u8>\<close> of HTTP data has the same type, and packets that are read as numbers (DNS
  messages, Ethernet frames) are lists of \<open>8 word\<close>.
\<close>

type_synonym bytes = "char list"
type_synonym octet = "8 word"
type_synonym ipv4 = "octet \<times> octet \<times> octet \<times> octet"

named_theorems str_simps \<open>evaluation of the string operations\<close>
named_theorems res_inv \<open>inversion of successful results\<close>

subsection \<open>Results and processes that may exit\<close>

text \<open>\<^verbatim>\<open>Result<T, E>\<close> is \<open>'e + 'a\<close> with the error on the left; \<open>bindR\<close> is the \<^verbatim>\<open>?\<close>
  operator. A function that may call \<^verbatim>\<open>std::process::exit\<close> returns an \<open>outcome\<close>.\<close>

definition bindR :: "'e + 'a \<Rightarrow> ('a \<Rightarrow> 'e + 'b) \<Rightarrow> 'e + 'b" where
  "bindR m f = (case m of Inl e \<Rightarrow> Inl e | Inr x \<Rightarrow> f x)"

definition ok_or :: "'a option \<Rightarrow> 'e \<Rightarrow> 'e + 'a" where
  "ok_or m e = (case m of None \<Rightarrow> Inl e | Some x \<Rightarrow> Inr x)"

datatype 'a outcome = Ret 'a | Exit int

lemma bindR_simps [simp]: "bindR (Inl e) f = Inl e" "bindR (Inr x) f = f x"
  by (simp_all add: bindR_def)

lemma bindR_Inr [res_inv]: "bindR m f = Inr y \<longleftrightarrow> (\<exists>x. m = Inr x \<and> f x = Inr y)"
  by (cases m) auto

lemma ok_or_simps [simp]: "ok_or None e = Inl e" "ok_or (Some x) e = Inr x"
  by (simp_all add: ok_or_def)

lemma ok_or_Inr [res_inv]: "ok_or m e = Inr x \<longleftrightarrow> m = Some x"
  by (cases m) auto

subsection \<open>ASCII\<close>

definition char_code :: "char \<Rightarrow> nat" where
  "char_code c = of_char c"

definition is_ascii_digit :: "char \<Rightarrow> bool" where
  "is_ascii_digit c \<longleftrightarrow> 48 \<le> char_code c \<and> char_code c \<le> 57"

definition is_ascii_upper :: "char \<Rightarrow> bool" where
  "is_ascii_upper c \<longleftrightarrow> 65 \<le> char_code c \<and> char_code c \<le> 90"

definition is_ascii_lower :: "char \<Rightarrow> bool" where
  "is_ascii_lower c \<longleftrightarrow> 97 \<le> char_code c \<and> char_code c \<le> 122"

definition is_ascii_alphanumeric :: "char \<Rightarrow> bool" where
  "is_ascii_alphanumeric c \<longleftrightarrow> is_ascii_digit c \<or> is_ascii_upper c \<or> is_ascii_lower c"

definition is_ascii_hexdigit :: "char \<Rightarrow> bool" where
  "is_ascii_hexdigit c \<longleftrightarrow> is_ascii_digit c
     \<or> (65 \<le> char_code c \<and> char_code c \<le> 70) \<or> (97 \<le> char_code c \<and> char_code c \<le> 102)"

definition ascii_lower_char :: "char \<Rightarrow> char" where
  "ascii_lower_char c = (if is_ascii_upper c then char_of (char_code c + 32) else c)"

definition to_ascii_lowercase :: "string \<Rightarrow> string" where
  "to_ascii_lowercase s = map ascii_lower_char s"

definition eq_ignore_ascii_case :: "string \<Rightarrow> string \<Rightarrow> bool" where
  "eq_ignore_ascii_case a b \<longleftrightarrow> to_ascii_lowercase a = to_ascii_lowercase b"

definition is_ascii :: "string \<Rightarrow> bool" where
  "is_ascii s \<longleftrightarrow> list_all (\<lambda>c. char_code c < 128) s"

lemmas ascii_defs = is_ascii_digit_def is_ascii_upper_def is_ascii_lower_def
  is_ascii_alphanumeric_def is_ascii_hexdigit_def

lemma char_code_less [simp]: "char_code c < 256"
  by (simp add: char_code_def)

lemma char_code_char_of [simp]: "n < 256 \<Longrightarrow> char_code (char_of n) = n"
  by (simp add: char_code_def)

lemma char_of_char_code [simp]: "char_of (char_code c) = c"
  by (simp add: char_code_def)

lemma char_code_inj: "char_code c = char_code d \<longleftrightarrow> c = d"
  by (metis char_of_char_code)

lemma ascii_lower_char_idem [simp]: "ascii_lower_char (ascii_lower_char c) = ascii_lower_char c"
  by (auto simp: ascii_lower_char_def is_ascii_upper_def)

lemma ascii_lower_char_eq:
  "\<not> is_ascii_lower d \<Longrightarrow> \<not> is_ascii_upper d \<Longrightarrow> ascii_lower_char c = d \<longleftrightarrow> c = d"
proof -
  have "is_ascii_upper c \<Longrightarrow> is_ascii_lower (ascii_lower_char c)"
    by (simp add: ascii_lower_char_def is_ascii_upper_def is_ascii_lower_def)
  moreover have "\<not> is_ascii_upper c \<Longrightarrow> ascii_lower_char c = c"
    by (simp add: ascii_lower_char_def)
  ultimately show "\<not> is_ascii_lower d \<Longrightarrow> \<not> is_ascii_upper d \<Longrightarrow> ?thesis"
    by (cases "is_ascii_upper c") auto
qed

lemma to_ascii_lowercase_idem [simp]: "to_ascii_lowercase (to_ascii_lowercase s) = to_ascii_lowercase s"
  by (simp add: to_ascii_lowercase_def)

lemma to_ascii_lowercase_append [simp]:
  "to_ascii_lowercase (a @ b) = to_ascii_lowercase a @ to_ascii_lowercase b"
  by (simp add: to_ascii_lowercase_def)

lemma length_to_ascii_lowercase [simp]: "length (to_ascii_lowercase s) = length s"
  by (simp add: to_ascii_lowercase_def)

lemma eq_ignore_ascii_case_refl [simp]: "eq_ignore_ascii_case a a"
  by (simp add: eq_ignore_ascii_case_def)

lemma eq_ignore_ascii_case_sym: "eq_ignore_ascii_case a b \<longleftrightarrow> eq_ignore_ascii_case b a"
  by (auto simp: eq_ignore_ascii_case_def)

lemma eq_ignore_ascii_case_trans:
  "eq_ignore_ascii_case a b \<Longrightarrow> eq_ignore_ascii_case b c \<Longrightarrow> eq_ignore_ascii_case a c"
  by (simp add: eq_ignore_ascii_case_def)

lemma eq_ignore_ascii_case_lower [simp]:
  "eq_ignore_ascii_case (to_ascii_lowercase a) b = eq_ignore_ascii_case a b"
  "eq_ignore_ascii_case a (to_ascii_lowercase b) = eq_ignore_ascii_case a b"
  by (simp_all add: eq_ignore_ascii_case_def)

subsection \<open>Splitting and joining\<close>

fun split_once :: "char \<Rightarrow> string \<Rightarrow> (string \<times> string) option" where
  "split_once c [] = None"
| "split_once c (x # xs) =
     (if x = c then Some ([], xs) else map_option (\<lambda>(a, b). (x # a, b)) (split_once c xs))"

fun rsplit_once :: "char \<Rightarrow> string \<Rightarrow> (string \<times> string) option" where
  "rsplit_once c [] = None"
| "rsplit_once c (x # xs) =
     (case rsplit_once c xs of
        Some (a, b) \<Rightarrow> Some (x # a, b)
      | None \<Rightarrow> if x = c then Some ([], xs) else None)"

fun split_on :: "char \<Rightarrow> string \<Rightarrow> string list" where
  "split_on c [] = [[]]"
| "split_on c (x # xs) =
     (if x = c then [] # split_on c xs
      else (case split_on c xs of [] \<Rightarrow> [[x]] | y # ys \<Rightarrow> (x # y) # ys))"

fun join :: "string \<Rightarrow> string list \<Rightarrow> string" where
  "join sep [] = []"
| "join sep [x] = x"
| "join sep (x # y # ys) = x @ sep @ join sep (y # ys)"

definition strip_prefix :: "string \<Rightarrow> string \<Rightarrow> string option" where
  "strip_prefix p s = (if prefix p s then Some (drop (length p) s) else None)"

definition strip_suffix :: "string \<Rightarrow> string \<Rightarrow> string option" where
  "strip_suffix p s = (if suffix p s then Some (take (length s - length p) s) else None)"

definition trim_start_matches :: "char \<Rightarrow> string \<Rightarrow> string" where
  "trim_start_matches c s = dropWhile (\<lambda>x. x = c) s"

definition trim_end_matches :: "char \<Rightarrow> string \<Rightarrow> string" where
  "trim_end_matches c s = rev (dropWhile (\<lambda>x. x = c) (rev s))"

text \<open>\<^verbatim>\<open>hay.windows(n).position(|w| w == pat)\<close> for a pattern of length \<^verbatim>\<open>n > 0\<close>.\<close>

fun find_sub :: "'a list \<Rightarrow> 'a list \<Rightarrow> nat option" where
  "find_sub pat [] = (if pat = [] then Some 0 else None)"
| "find_sub pat (x # xs) =
     (if prefix pat (x # xs) then Some 0 else map_option Suc (find_sub pat xs))"

definition str_contains :: "string \<Rightarrow> string \<Rightarrow> bool" where
  "str_contains s needle \<longleftrightarrow> find_sub needle s \<noteq> None"

lemma split_once_append: "c \<notin> set a \<Longrightarrow> split_once c (a @ c # b) = Some (a, b)"
  by (induction a) auto

lemma split_once_Some [res_inv]:
  "split_once c s = Some (a, b) \<longleftrightarrow> s = a @ c # b \<and> c \<notin> set a"
proof
  show "split_once c s = Some (a, b) \<Longrightarrow> s = a @ c # b \<and> c \<notin> set a"
    by (induction s arbitrary: a) (auto split: if_splits)
qed (auto simp: split_once_append)

lemma split_once_None: "split_once c s = None \<longleftrightarrow> c \<notin> set s"
  by (induction s) auto

lemma rsplit_once_None: "rsplit_once c s = None \<longleftrightarrow> c \<notin> set s"
  by (induction s) (auto split: option.splits)

lemma rsplit_once_append: "c \<notin> set b \<Longrightarrow> rsplit_once c (a @ c # b) = Some (a, b)"
proof (induction a)
  case Nil
  then have "rsplit_once c b = None" by (simp add: rsplit_once_None)
  then show ?case by simp
qed simp

lemma rsplit_once_Some [res_inv]:
  "rsplit_once c s = Some (a, b) \<longleftrightarrow> s = a @ c # b \<and> c \<notin> set b"
proof
  show "rsplit_once c s = Some (a, b) \<Longrightarrow> s = a @ c # b \<and> c \<notin> set b"
    by (induction s arbitrary: a) (auto simp: rsplit_once_None split: option.splits if_splits)
qed (auto simp: rsplit_once_append)

lemma split_on_not_Nil [simp]: "split_on c s \<noteq> []"
  by (cases s) (auto split: list.splits)

lemma split_on_notin: "c \<notin> set s \<Longrightarrow> split_on c s = [s]"
  by (induction s) auto

lemma split_on_append: "c \<notin> set a \<Longrightarrow> split_on c (a @ c # b) = a # split_on c b"
  by (induction a) auto

lemma hd_split_on: "hd (split_on c s) = takeWhile (\<lambda>x. x \<noteq> c) s"
proof (induction s)
  case (Cons x s)
  then show ?case by (cases "split_on c s") auto
qed simp

lemma split_on_pieces: "p \<in> set (split_on c s) \<Longrightarrow> c \<notin> set p"
  by (induction s arbitrary: p) (auto split: list.splits if_splits)

lemma split_on_subset: "p \<in> set (split_on c s) \<Longrightarrow> set p \<subseteq> set s"
  by (induction s arbitrary: p) (fastforce split: list.splits if_splits)+

lemma split_on_join:
  "xs \<noteq> [] \<Longrightarrow> (\<And>x. x \<in> set xs \<Longrightarrow> c \<notin> set x) \<Longrightarrow> split_on c (join [c] xs) = xs"
proof (induction xs rule: induct_list012)
  case (3 x y ys)
  then show ?case by (simp add: split_on_append)
qed (auto simp: split_on_notin)

lemma set_join: "set (join sep xs) \<subseteq> set sep \<union> (\<Union>x\<in>set xs. set x)"
  by (induction sep xs rule: join.induct) auto

lemma strip_prefix_Some [res_inv]: "strip_prefix p s = Some r \<longleftrightarrow> s = p @ r"
  by (auto simp: strip_prefix_def prefix_def)

lemma strip_prefix_append [simp]: "strip_prefix p (p @ r) = Some r"
  by (simp add: strip_prefix_Some)

lemma strip_suffix_Some [res_inv]: "strip_suffix p s = Some r \<longleftrightarrow> s = r @ p"
  by (auto simp: strip_suffix_def suffix_def)

lemma find_sub_None: "find_sub pat s = None \<longleftrightarrow> \<not> sublist pat s"
  by (induction s) (auto simp: sublist_Cons_right)

lemma find_sub_Some:
  "find_sub pat s = Some i \<Longrightarrow> i + length pat \<le> length s \<and> take (length pat) (drop i s) = pat"
proof (induction s arbitrary: i)
  case (Cons x xs)
  then show ?case
    by (auto split: if_splits simp: prefix_def) (metis Suc_leI le_imp_less_Suc length_Cons
        prefix_def prefix_length_le)
qed (auto split: if_splits)

lemma str_contains_iff: "str_contains s needle \<longleftrightarrow> sublist needle s"
  by (simp add: str_contains_def find_sub_None)

lemma find_sub_append:
  assumes "\<not> sublist pat (butlast (a @ pat))" "pat \<noteq> []"
  shows "find_sub pat (a @ pat @ b) = Some (length a)"
  using assms
proof (induction a)
  case (Cons x a)
  have "\<not> prefix pat (x # a @ pat @ b)"
  proof
    assume "prefix pat (x # a @ pat @ b)"
    moreover have "prefix (butlast (x # a @ pat)) (x # a @ pat @ b)"
      by (metis append.assoc append_Cons butlast_append prefixI prefix_order.trans
          prefixeq_butlast)
    moreover have "length pat \<le> length (butlast (x # a @ pat))" by simp
    ultimately have "prefix pat (butlast (x # a @ pat))"
      using prefix_length_prefix by blast
    with Cons.prems show False by (auto simp del: butlast.simps)
  qed
  moreover have "\<not> sublist pat (butlast (a @ pat))"
    using Cons.prems by (auto simp: sublist_Cons_right split: if_splits)
  ultimately show ?case using Cons by simp
qed (cases "pat", auto)

subsection \<open>Numbers\<close>

text \<open>Decimal formatting (\<^verbatim>\<open>{n}\<close>), lower-case hex bytes (\<^verbatim>\<open>{b:02x}\<close>), and \<^verbatim>\<open>str::parse\<close> for
  the unsigned types: an optional \<^verbatim>\<open>+\<close>, then at least one digit, no overflow of \<open>bound\<close>.\<close>

fun show_nat :: "nat \<Rightarrow> string" where
  "show_nat n = (if n < 10 then [char_of (48 + n)]
                 else show_nat (n div 10) @ [char_of (48 + n mod 10)])"

declare show_nat.simps [simp del]

definition hex_digit :: "nat \<Rightarrow> char" where
  "hex_digit n = (if n < 10 then char_of (48 + n) else char_of (87 + n))"

definition hex_byte :: "char \<Rightarrow> string" where
  "hex_byte b = [hex_digit (char_code b div 16), hex_digit (char_code b mod 16)]"

definition hex_encode :: "bytes \<Rightarrow> string" where
  "hex_encode bs = concat (map hex_byte bs)"

definition digits_value :: "string \<Rightarrow> nat" where
  "digits_value s = foldl (\<lambda>n c. 10 * n + (char_code c - 48)) 0 s"

definition parse_unsigned :: "nat \<Rightarrow> string \<Rightarrow> nat option" where
  "parse_unsigned bound s =
     (let ds = (case s of [] \<Rightarrow> [] | c # cs \<Rightarrow> if c = CHR ''+'' then cs else s)
      in if ds \<noteq> [] \<and> list_all is_ascii_digit ds \<and> digits_value ds \<le> bound
         then Some (digits_value ds) else None)"

definition parse_u16 :: "string \<Rightarrow> 16 word option" where
  "parse_u16 s = map_option of_nat (parse_unsigned 65535 s)"

lemma digits_value_snoc: "digits_value (s @ [c]) = 10 * digits_value s + (char_code c - 48)"
  by (simp add: digits_value_def)

lemma digits_value_show_nat [simp]: "digits_value (show_nat n) = n"
proof (induction n rule: show_nat.induct)
  case (1 n)
  then show ?case
    by (subst show_nat.simps) (auto simp: digits_value_snoc, simp add: digits_value_def)
qed

lemma show_nat_digits: "list_all is_ascii_digit (show_nat n)"
proof (induction n rule: show_nat.induct)
  case (1 n)
  have "k < 10 \<Longrightarrow> is_ascii_digit (char_of (48 + k))" for k :: nat
    by (simp add: is_ascii_digit_def)
  with 1 show ?case by (subst show_nat.simps) simp
qed

lemma show_nat_not_Nil [simp]: "show_nat n \<noteq> []"
  by (subst show_nat.simps) auto

lemma notin_show_nat: "\<not> is_ascii_digit c \<Longrightarrow> c \<notin> set (show_nat n)"
  using show_nat_digits[of n] by (auto simp: list_all_iff)

lemma parse_unsigned_show_nat: "n \<le> bound \<Longrightarrow> parse_unsigned bound (show_nat n) = Some n"
proof -
  assume n: "n \<le> bound"
  have "CHR ''+'' \<notin> set (show_nat n)"
    by (rule notin_show_nat) (simp add: is_ascii_digit_def char_code_def)
  then have "(case show_nat n of [] \<Rightarrow> [] | c # cs \<Rightarrow> if c = CHR ''+'' then cs else show_nat n)
      = show_nat n"
    by (cases "show_nat n") auto
  then show ?thesis
    using n show_nat_digits[of n] by (simp only: parse_unsigned_def Let_def) simp
qed

lemma parse_unsigned_bound: "parse_unsigned bound s = Some n \<Longrightarrow> n \<le> bound"
  by (auto simp: parse_unsigned_def Let_def split: if_splits)

lemma parse_u16_show: "parse_u16 (show_nat (unat p)) = Some p"
proof -
  have "unat p \<le> 65535" for p :: "16 word"
    using unsigned_less[of p, where 'a = nat] by simp
  then show ?thesis by (simp add: parse_u16_def parse_unsigned_show_nat)
qed

lemma parse_unsigned_colon: "CHR '':'' \<in> set s \<Longrightarrow> parse_unsigned bound s = None"
proof -
  assume colon: "CHR '':'' \<in> set s"
  define ds where "ds = (case s of [] \<Rightarrow> [] | c # cs \<Rightarrow> if c = CHR ''+'' then cs else s)"
  have "CHR '':'' \<in> set ds" using colon by (cases s) (auto simp: ds_def)
  moreover have "\<not> is_ascii_digit (CHR '':'')" by (simp add: is_ascii_digit_def char_code_def)
  ultimately have "\<not> list_all is_ascii_digit ds" by (auto simp: list_all_iff)
  then show ?thesis by (simp add: parse_unsigned_def ds_def[symmetric])
qed

lemma length_hex_encode [simp]: "length (hex_encode bs) = 2 * length bs"
  by (induction bs) (auto simp: hex_encode_def hex_byte_def)

lemma hex_digit_hexdigit: "n < 16 \<Longrightarrow> is_ascii_hexdigit (hex_digit n)"
  by (auto simp: hex_digit_def ascii_defs)

lemma hex_encode_hexdigits: "list_all is_ascii_hexdigit (hex_encode bs)"
  by (induction bs) (auto simp: hex_encode_def hex_byte_def intro!: hex_digit_hexdigit
      less_mult_imp_div_less)

end
