(* ===== verification/Ca.thy ===== *)
theory Ca
  imports Prelude "HOL-Library.Finite_Map"
begin

text \<open>
  The certificate cache of the interception CA: \<^verbatim>\<open>src/src/ca.rs\<close>. Minting a leaf
  certificate (rcgen and ring) is the parameter \<open>mint\<close>; a fresh serial number stands for the key
  pair a minting generates, so that two certificates are the same object exactly when their serial
  numbers are equal. The lock of \<^verbatim>\<open>MitmCertResolver\<close> is a flag: a poisoned lock resolves nothing.
\<close>

subsection \<open>Minting\<close>

datatype mint_error = Bad_dns_name | Key_generation | Signing | Signing_key

record leaf_params =
  lp_common_name :: string
  lp_alt_name :: string
  lp_not_before :: nat
  lp_not_after :: nat

record certified_key =
  ck_serial :: nat
  ck_params :: leaf_params

text \<open>The libraries: which names are DNS names, and whether each step for the key with a serial
  number succeeds.\<close>

record mint_env =
  dns_name :: "string \<Rightarrow> bool"
  key_ok :: "nat \<Rightarrow> bool"
  sign_ok :: "nat \<Rightarrow> bool"
  signing_key_ok :: "nat \<Rightarrow> bool"

definition leaf_for :: "string \<Rightarrow> nat \<Rightarrow> leaf_params" where
  "leaf_for hostname now =
     \<lparr>lp_common_name = hostname, lp_alt_name = hostname, lp_not_before = now, lp_not_after = now + 24 * 60 * 60\<rparr>"

definition mint :: "mint_env \<Rightarrow> nat \<Rightarrow> nat \<Rightarrow> string \<Rightarrow> mint_error + certified_key" where
  "mint env now serial hostname =
     (if \<not> dns_name env hostname then Inl Bad_dns_name
      else if \<not> key_ok env serial then Inl Key_generation
      else if \<not> sign_ok env serial then Inl Signing
      else if \<not> signing_key_ok env serial then Inl Signing_key
      else Inr \<lparr>ck_serial = serial, ck_params = leaf_for hostname now\<rparr>)"

subsection \<open>The cache\<close>

definition MAX_CACHE_SIZE :: nat where
  "MAX_CACHE_SIZE = 1024"

record mitm_ca =
  key_cache :: "(string, certified_key) fmap"
  next_serial :: nat

definition generate :: mitm_ca where
  "generate = \<lparr>key_cache = fmempty, next_serial = 0\<rparr>"

definition cache_len :: "mitm_ca \<Rightarrow> nat" where
  "cache_len ca = fcard (fmdom (key_cache ca))"

definition certified_key_for :: "mint_env \<Rightarrow> nat \<Rightarrow> string \<Rightarrow> mitm_ca \<Rightarrow> certified_key option \<times> mitm_ca" where
  "certified_key_for env now hostname ca =
     (case fmlookup (key_cache ca) hostname of
        Some cached \<Rightarrow> (Some cached, ca)
      | None \<Rightarrow>
          (let ca = (if cache_len ca \<ge> MAX_CACHE_SIZE then ca\<lparr>key_cache := fmempty\<rparr> else ca);
               serial = next_serial ca
           in case mint env now serial hostname of
                Inl Bad_dns_name \<Rightarrow> (None, ca)
              | Inl e \<Rightarrow> (None, ca\<lparr>next_serial := serial + 1\<rparr>)
              | Inr certified \<Rightarrow>
                  (Some certified, ca\<lparr>key_cache := fmupd hostname certified (key_cache ca), next_serial := serial + 1\<rparr>)))"

text \<open>\<^verbatim>\<open>MitmCertResolver::resolve\<close>: no server name or a poisoned lock resolves nothing.\<close>

definition resolve_cert :: "mint_env \<Rightarrow> bool \<Rightarrow> nat \<Rightarrow> string option \<Rightarrow> mitm_ca \<Rightarrow> certified_key option \<times> mitm_ca" where
  "resolve_cert env poisoned now server_name ca =
     (case server_name of
        None \<Rightarrow> (None, ca)
      | Some sni \<Rightarrow> if poisoned then (None, ca) else certified_key_for env now sni ca)"

text \<open>The server configuration every intercepted connection uses.\<close>

record server_config =
  alpn_protocols :: "string list"
  resumption :: bool
  send_tls13_tickets :: nat

definition mitm_server_config :: server_config where
  "mitm_server_config = \<lparr>alpn_protocols = [''http/1.1''], resumption = False, send_tls13_tickets = 0\<rparr>"

text \<open>A run of handshakes: the clock and the server name of each.\<close>

fun handshakes ::
  "mint_env \<Rightarrow> (nat \<times> string option) list \<Rightarrow> mitm_ca \<Rightarrow> certified_key option list \<times> mitm_ca" where
  "handshakes env [] ca = ([], ca)"
| "handshakes env ((now, sni) # hs) ca =
     (let (k, ca) = resolve_cert env False now sni ca; (ks, ca) = handshakes env hs ca in (k # ks, ca))"

subsection \<open>The cache invariant\<close>

text \<open>\<open>issued\<close> are all certificates minted so far: their serial numbers tell them apart, each is a
  one-day leaf for its own DNS name, and the cache holds some of them under their names.\<close>

definition ca_inv :: "mint_env \<Rightarrow> certified_key set \<Rightarrow> mitm_ca \<Rightarrow> bool" where
  "ca_inv env issued ca \<longleftrightarrow>
     cache_len ca \<le> MAX_CACHE_SIZE \<and> inj_on ck_serial issued \<and>
     (\<forall>k\<in>issued. ck_serial k < next_serial ca \<and> dns_name env (lp_common_name (ck_params k)) \<and>
        ck_params k = leaf_for (lp_common_name (ck_params k)) (lp_not_before (ck_params k))) \<and>
     (\<forall>h k. fmlookup (key_cache ca) h = Some k \<longrightarrow> k \<in> issued \<and> lp_common_name (ck_params k) = h)"

lemma fcard_none [simp]: "fcard {||} = 0"
  by (simp add: fcard.rep_eq)

lemma fcard_upd: "fcard (fmdom (fmupd h k m)) \<le> Suc (fcard (fmdom m))"
  by (simp add: fcard_finsert_if)

lemma leaf_for_sel [simp]: "lp_common_name (leaf_for h now) = h" "lp_not_before (leaf_for h now) = now"
  by (simp_all add: leaf_for_def)

lemma ca_inv_generate: "ca_inv env {} generate"
  by (simp add: ca_inv_def generate_def cache_len_def)

lemma mint_Inr: "mint env now serial h = Inr k \<longleftrightarrow>
    dns_name env h \<and> key_ok env serial \<and> sign_ok env serial \<and> signing_key_ok env serial \<and>
    k = \<lparr>ck_serial = serial, ck_params = leaf_for h now\<rparr>"
  by (auto simp: mint_def)

text \<open>The cache after a possible clearing, before the minting.\<close>

definition evicted :: "mitm_ca \<Rightarrow> mitm_ca" where
  "evicted ca = (if cache_len ca \<ge> MAX_CACHE_SIZE then ca\<lparr>key_cache := fmempty\<rparr> else ca)"

lemma evicted_inv:
  assumes "ca_inv env issued ca"
  shows "ca_inv env issued (evicted ca)" "next_serial (evicted ca) = next_serial ca"
    "cache_len (evicted ca) < MAX_CACHE_SIZE"
  using assms by (auto simp: evicted_def ca_inv_def cache_len_def MAX_CACHE_SIZE_def)

lemma ca_inv_failed: "ca_inv env issued ca \<Longrightarrow> ca_inv env issued (ca\<lparr>next_serial := next_serial ca + 1\<rparr>)"
  by (auto simp: ca_inv_def cache_len_def)

lemma ca_inv_minted:
  assumes inv: "ca_inv env issued ca" and room: "cache_len ca < MAX_CACHE_SIZE"
    and k: "mint env now (next_serial ca) h = Inr k"
  shows "ca_inv env (insert k issued) (ca\<lparr>key_cache := fmupd h k (key_cache ca), next_serial := next_serial ca + 1\<rparr>)"
proof -
  have "cache_len (ca\<lparr>key_cache := fmupd h k (key_cache ca), next_serial := next_serial ca + 1\<rparr>) \<le> MAX_CACHE_SIZE"
    using room fcard_upd[of h k "key_cache ca"] by (simp add: cache_len_def)
  moreover have "inj_on ck_serial (insert k issued)"
    using inv k by (fastforce simp: ca_inv_def mint_Inr inj_on_def)
  ultimately show ?thesis using inv k by (auto simp: ca_inv_def mint_Inr)
qed

lemma certified_key_for_cases:
  assumes "certified_key_for env now h ca = (r, ca')"
  obtains (cached) k where "fmlookup (key_cache ca) h = Some k" "r = Some k" "ca' = ca"
    | (bad_name) "r = None" "ca' = evicted ca" "\<not> dns_name env h"
    | (failed) e where "r = None" "ca' = (evicted ca)\<lparr>next_serial := next_serial (evicted ca) + 1\<rparr>"
        "mint env now (next_serial (evicted ca)) h = Inl e" "e \<noteq> Bad_dns_name"
    | (minted) k where "mint env now (next_serial (evicted ca)) h = Inr k" "r = Some k"
        "ca' = (evicted ca)\<lparr>key_cache := fmupd h k (key_cache (evicted ca)), next_serial := next_serial (evicted ca) + 1\<rparr>"
proof (cases "fmlookup (key_cache ca) h")
  case (Some k)
  then have "r = Some k" "ca' = ca" using assms by (simp_all add: certified_key_for_def)
  then show ?thesis using Some cached by blast
next
  case None
  show ?thesis
  proof (cases "mint env now (next_serial (evicted ca)) h")
    case (Inl e)
    then show ?thesis
      using assms None bad_name failed[of e] unfolding certified_key_for_def Let_def evicted_def[symmetric]
      by (cases e) (auto simp: mint_def split: if_splits)
  next
    case (Inr k)
    then show ?thesis
      using assms None minted unfolding certified_key_for_def Let_def evicted_def[symmetric] by simp
  qed
qed

lemma certified_key_for_inv:
  assumes inv: "ca_inv env issued ca" and call: "certified_key_for env now h ca = (r, ca')"
  obtains issued' where "issued \<subseteq> issued'" "ca_inv env issued' ca'"
    "\<And>k. r = Some k \<Longrightarrow> k \<in> issued' \<and> lp_common_name (ck_params k) = h"
  using call
proof (cases rule: certified_key_for_cases)
  case (cached k)
  then show thesis using that[of issued] inv by (auto simp: ca_inv_def)
next
  case bad_name
  then show thesis using that[of issued] evicted_inv[OF inv] by auto
next
  case (failed e)
  then show thesis using that[of issued] ca_inv_failed[OF evicted_inv(1)[OF inv]] by auto
next
  case (minted k)
  then show thesis
    using that[of "insert k issued"] ca_inv_minted[OF evicted_inv(1,3)[OF inv] minted(1)] by (auto simp: mint_Inr)
qed

lemma handshakes_inv:
  assumes "ca_inv env issued ca" "handshakes env hs ca = (ks, ca')"
  obtains issued' where "issued \<subseteq> issued'" "ca_inv env issued' ca'" "length ks = length hs"
    "\<And>i k. i < length hs \<Longrightarrow> ks ! i = Some k \<Longrightarrow> k \<in> issued' \<and> snd (hs ! i) = Some (lp_common_name (ck_params k))"
  using assms
proof (induction hs arbitrary: ca ks issued thesis)
  case Nil
  then show ?case by auto
next
  case (Cons x hs)
  obtain now sni where x: "x = (now, sni)" by (cases x)
  obtain r ca1 where r: "resolve_cert env False now sni ca = (r, ca1)" by (cases "resolve_cert env False now sni ca")
  obtain ks1 where ks1: "handshakes env hs ca1 = (ks1, ca')" "ks = r # ks1"
    using Cons.prems(3) by (auto simp: x r split: prod.splits)
  obtain issued1 where i1: "issued \<subseteq> issued1" "ca_inv env issued1 ca1"
    "\<And>k. r = Some k \<Longrightarrow> k \<in> issued1 \<and> sni = Some (lp_common_name (ck_params k))"
  proof (cases sni)
    case None
    then show ?thesis using that[of issued] r Cons.prems(2) by (simp add: resolve_cert_def)
  next
    case (Some h)
    then have "certified_key_for env now h ca = (r, ca1)" using r by (simp add: resolve_cert_def)
    then show ?thesis using that Some by (auto elim: certified_key_for_inv[OF Cons.prems(2)])
  qed
  obtain issued' where i': "issued1 \<subseteq> issued'" "ca_inv env issued' ca'" "length ks1 = length hs"
    "\<And>i k. i < length hs \<Longrightarrow> ks1 ! i = Some k \<Longrightarrow> k \<in> issued' \<and> snd (hs ! i) = Some (lp_common_name (ck_params k))"
    using Cons.IH[OF _ i1(2) ks1(1)] by blast
  show ?case
  proof (rule Cons.prems(1)[of issued'])
    show "k \<in> issued' \<and> snd ((x # hs) ! i) = Some (lp_common_name (ck_params k))"
      if "i < length (x # hs)" "ks ! i = Some k" for i k
      using that i1(3) i'(1,4) by (cases i) (auto simp: ks1(2) x)
  qed (use i1(1) i'(1-3) ks1(2) in auto)
qed

lemma handshake_answers:
  assumes "\<And>n. key_ok env n \<and> sign_ok env n \<and> signing_key_ok env n" "ca_inv env issued ca"
    "handshakes env hs ca = (ks, ca')" "i < length hs"
  shows "ks ! i \<noteq> None \<longleftrightarrow> (\<exists>sni. snd (hs ! i) = Some sni \<and> dns_name env sni)"
  using assms(2-)
proof (induction hs arbitrary: ca ks issued i)
  case (Cons x hs)
  obtain now sni where x: "x = (now, sni)" by (cases x)
  obtain r ca1 where r: "resolve_cert env False now sni ca = (r, ca1)" by (cases "resolve_cert env False now sni ca")
  obtain ks1 where ks1: "handshakes env hs ca1 = (ks1, ca')" "ks = r # ks1"
    using Cons.prems(2) by (auto simp: x r split: prod.splits)
  show ?case
  proof (cases i)
    case 0
    have "r \<noteq> None \<longleftrightarrow> dns_name env h" if h: "sni = Some h" for h
    proof -
      have c: "certified_key_for env now h ca = (r, ca1)" using r h by (simp add: resolve_cert_def)
      show ?thesis
      proof (cases rule: certified_key_for_cases[OF c])
        case (1 k)
        then show ?thesis using Cons.prems(1) by (auto simp: ca_inv_def)
      next
        case (3 e)
        then show ?thesis using assms(1) by (auto simp: mint_def split: if_splits)
      qed (auto simp: mint_Inr)
    qed
    moreover have "r = None" if "sni = None" using r that by (simp add: resolve_cert_def)
    ultimately show ?thesis using 0 ks1(2) by (cases sni) (auto simp: x)
  next
    case (Suc j)
    obtain issued1 where "ca_inv env issued1 ca1"
    proof (cases sni)
      case None
      then show ?thesis using that[of issued] r Cons.prems(1) by (simp add: resolve_cert_def)
    next
      case (Some h)
      then have "certified_key_for env now h ca = (r, ca1)" using r by (simp add: resolve_cert_def)
      then show ?thesis using that by (auto elim: certified_key_for_inv[OF Cons.prems(1)])
    qed
    then show ?thesis using Cons.IH[OF _ ks1(1), of issued1 j] Cons.prems(3) Suc ks1(2) by simp
  qed
qed simp

subsection \<open>Properties\<close>

text \<open>
  C28: the certificate cache is bounded and never confuses hosts. In every run of handshakes from a
  fresh CA the cache holds at most 1024 certificates; a certificate shown in a handshake names
  exactly the server name the guest asked for and is valid for one day; two handshakes that were
  shown the same certificate asked for the same name, across evictions too; and when the
  cryptographic library succeeds a handshake gets a certificate exactly when it names a DNS name.
\<close>
theorem cert_cache_sound:
  assumes "handshakes env hs generate = (ks, ca)"
  shows "cache_len ca \<le> MAX_CACHE_SIZE \<and> length ks = length hs
    \<and> (\<forall>i k. i < length hs \<longrightarrow> ks ! i = Some k \<longrightarrow>
         (\<exists>sni start. snd (hs ! i) = Some sni \<and> dns_name env sni \<and> ck_params k = leaf_for sni start))
    \<and> (\<forall>i j k k'. i < length hs \<longrightarrow> j < length hs \<longrightarrow> ks ! i = Some k \<longrightarrow> ks ! j = Some k' \<longrightarrow>
         ck_serial k = ck_serial k' \<longrightarrow> k = k' \<and> snd (hs ! i) = snd (hs ! j))
    \<and> ((\<forall>n. key_ok env n \<and> sign_ok env n \<and> signing_key_ok env n) \<longrightarrow>
         (\<forall>i < length hs. ks ! i \<noteq> None \<longleftrightarrow> (\<exists>sni. snd (hs ! i) = Some sni \<and> dns_name env sni)))"
proof -
  obtain issued where i: "ca_inv env issued ca" "length ks = length hs"
    "\<And>i k. i < length hs \<Longrightarrow> ks ! i = Some k \<Longrightarrow> k \<in> issued \<and> snd (hs ! i) = Some (lp_common_name (ck_params k))"
    by (rule handshakes_inv[OF ca_inv_generate assms], rule that)
  have leaf: "\<exists>sni start. snd (hs ! j) = Some sni \<and> dns_name env sni \<and> ck_params k = leaf_for sni start"
    if "j < length hs" "ks ! j = Some k" for j k
    using i(1) i(3)[OF that] by (auto simp: ca_inv_def)
  have same: "k = k' \<and> snd (hs ! a) = snd (hs ! b)"
    if "a < length hs" "b < length hs" "ks ! a = Some k" "ks ! b = Some k'" "ck_serial k = ck_serial k'" for a b k k'
  proof -
    have "k = k'" using i(1) i(3)[OF that(1,3)] i(3)[OF that(2,4)] that(5) by (auto simp: ca_inv_def inj_on_def)
    then show ?thesis using i(3)[OF that(1,3)] i(3)[OF that(2,4)] by simp
  qed
  have answers: "ks ! j \<noteq> None \<longleftrightarrow> (\<exists>sni. snd (hs ! j) = Some sni \<and> dns_name env sni)"
    if "\<forall>n. key_ok env n \<and> sign_ok env n \<and> signing_key_ok env n" "j < length hs" for j
    by (rule handshake_answers[OF _ ca_inv_generate assms]) (use that in auto)
  have "cache_len ca \<le> MAX_CACHE_SIZE" using i(1) by (simp add: ca_inv_def)
  then show ?thesis
  proof (intro conjI)
    show "\<forall>i k. i < length hs \<longrightarrow> ks ! i = Some k \<longrightarrow>
        (\<exists>sni start. snd (hs ! i) = Some sni \<and> dns_name env sni \<and> ck_params k = leaf_for sni start)"
      by (intro allI impI) (rule leaf)
    show "\<forall>i j k k'. i < length hs \<longrightarrow> j < length hs \<longrightarrow> ks ! i = Some k \<longrightarrow> ks ! j = Some k' \<longrightarrow>
         ck_serial k = ck_serial k' \<longrightarrow> k = k' \<and> snd (hs ! i) = snd (hs ! j)"
      by (intro allI impI) (rule same)
    show "(\<forall>n. key_ok env n \<and> sign_ok env n \<and> signing_key_ok env n) \<longrightarrow>
         (\<forall>i < length hs. ks ! i \<noteq> None \<longleftrightarrow> (\<exists>sni. snd (hs ! i) = Some sni \<and> dns_name env sni))"
      by (intro allI impI) (rule answers)
  qed (use i(2) in simp_all)
qed

definition demo_mint :: mint_env where
  "demo_mint = \<lparr>dns_name = (\<lambda>h. h \<noteq> []), key_ok = (\<lambda>_. True), sign_ok = (\<lambda>_. True), signing_key_ok = (\<lambda>_. True)\<rparr>"

theorem cert_cache_sound_witness:
  "\<exists>ks ca. handshakes demo_mint [(5, Some ''a.io''), (6, None), (9, Some ''b.io''), (7, Some ''a.io'')] generate = (ks, ca)
     \<and> map (map_option ck_serial) ks = [Some 0, None, Some 1, Some 0] \<and> cache_len ca \<le> MAX_CACHE_SIZE"
proof -
  obtain ks ca where r: "handshakes demo_mint [(5, Some ''a.io''), (6, None), (9, Some ''b.io''), (7, Some ''a.io'')] generate = (ks, ca)"
    by (metis surj_pair)
  moreover have "map (map_option ck_serial) ks = [Some 0, None, Some 1, Some 0]"
    using r by (auto simp: resolve_cert_def certified_key_for_def mint_def demo_mint_def generate_def cache_len_def MAX_CACHE_SIZE_def
        fcard_finsert_if Let_def)
  moreover have "cache_len ca \<le> MAX_CACHE_SIZE" using cert_cache_sound[OF r] by (rule conjunct1)
  ultimately show ?thesis by (intro exI conjI)
qed

end
