(* ===== verification/Utf8.thy ===== *)
theory Utf8
  imports Prelude
begin

text \<open>
  The UTF-8 view of byte strings, as the Rust standard library defines it: one decoding
  step with the maximal invalid prefix of \<^verbatim>\<open>Utf8Error::error_len\<close>, the validity check of
  \<^verbatim>\<open>str::from_utf8\<close>, \<^verbatim>\<open>String::from_utf8_lossy\<close>, the code points of \<^verbatim>\<open>str::chars\<close>, and the
  operations that look at Unicode white space (\<^verbatim>\<open>trim\<close>, \<^verbatim>\<open>split_whitespace\<close>) or at lines.
\<close>

definition is_cont :: "char \<Rightarrow> bool" where
  "is_cont c \<longleftrightarrow> 128 \<le> char_code c \<and> char_code c \<le> 191"

definition second_ok :: "nat \<Rightarrow> nat \<Rightarrow> bool" where
  "second_ok c0 c1 \<longleftrightarrow>
     (if c0 = 224 then 160 \<le> c1 \<and> c1 \<le> 191
      else if c0 = 237 then 128 \<le> c1 \<and> c1 \<le> 159
      else if c0 = 240 then 144 \<le> c1 \<and> c1 \<le> 191
      else if c0 = 244 then 128 \<le> c1 \<and> c1 \<le> 143
      else 128 \<le> c1 \<and> c1 \<le> 191)"

text \<open>One step at the front of the input: a code point with its width, or the number of
  bytes of the invalid sequence found there.\<close>

definition utf8_step :: "bytes \<Rightarrow> nat + (nat \<times> nat)" where
  "utf8_step s = (case s of [] \<Rightarrow> Inl 1 | b0 # r0 \<Rightarrow>
     let c0 = char_code b0 in
     if c0 < 128 then Inr (c0, 1)
     else if c0 < 194 \<or> 244 < c0 then Inl 1
     else (case r0 of [] \<Rightarrow> Inl 1 | b1 # r1 \<Rightarrow>
       let c1 = char_code b1 in
       if \<not> second_ok c0 c1 then Inl 1
       else if c0 < 224 then Inr ((c0 - 192) * 64 + (c1 - 128), 2)
       else (case r1 of [] \<Rightarrow> Inl 2 | b2 # r2 \<Rightarrow>
         let c2 = char_code b2 in
         if \<not> is_cont b2 then Inl 2
         else if c0 < 240 then Inr ((c0 - 224) * 4096 + (c1 - 128) * 64 + (c2 - 128), 3)
         else (case r2 of [] \<Rightarrow> Inl 3 | b3 # _ \<Rightarrow>
           if \<not> is_cont b3 then Inl 3
           else Inr ((c0 - 240) * 262144 + (c1 - 128) * 4096 + (c2 - 128) * 64
                       + (char_code b3 - 128), 4)))))"

function utf8_chars :: "bytes \<Rightarrow> nat list option" where
  "utf8_chars [] = Some []"
| "utf8_chars (b # r) =
     (case utf8_step (b # r) of
        Inl _ \<Rightarrow> None
      | Inr (cp, w) \<Rightarrow> map_option ((#) cp) (utf8_chars (drop (w - 1) r)))"
  by pat_completeness auto
termination by (relation "measure length") auto

definition utf8_valid :: "bytes \<Rightarrow> bool" where
  "utf8_valid s \<longleftrightarrow> utf8_chars s \<noteq> None"

definition from_utf8 :: "bytes \<Rightarrow> string option" where
  "from_utf8 s = (if utf8_valid s then Some s else None)"

definition replacement_char :: string where
  "replacement_char = [char_of (239::nat), char_of (191::nat), char_of (189::nat)]"

function from_utf8_lossy :: "bytes \<Rightarrow> string" where
  "from_utf8_lossy [] = []"
| "from_utf8_lossy (b # r) =
     (case utf8_step (b # r) of
        Inl n \<Rightarrow> replacement_char @ from_utf8_lossy (drop (n - 1) r)
      | Inr (cp, w) \<Rightarrow> b # take (w - 1) r @ from_utf8_lossy (drop (w - 1) r))"
  by pat_completeness auto
termination by (relation "measure length") auto

lemma utf8_step_ascii: "char_code b < 128 \<Longrightarrow> utf8_step (b # r) = Inr (char_code b, 1)"
  by (simp add: utf8_step_def)

lemma utf8_chars_ascii_Cons [simp]:
  "char_code b < 128 \<Longrightarrow> utf8_chars (b # r) = map_option ((#) (char_code b)) (utf8_chars r)"
  by (simp add: utf8_step_ascii)

lemma utf8_chars_ascii: "is_ascii s \<Longrightarrow> utf8_chars s = Some (map char_code s)"
  by (induction s) (auto simp: is_ascii_def simp del: utf8_chars.simps(2))

lemma utf8_valid_ascii: "is_ascii s \<Longrightarrow> utf8_valid s"
  by (simp add: utf8_valid_def utf8_chars_ascii)

lemma from_utf8_lossy_ascii_Cons [simp]:
  "char_code b < 128 \<Longrightarrow> from_utf8_lossy (b # r) = b # from_utf8_lossy r"
  by (simp add: utf8_step_ascii)

lemma from_utf8_lossy_ascii: "is_ascii s \<Longrightarrow> from_utf8_lossy s = s"
  by (induction s) (auto simp: is_ascii_def simp del: from_utf8_lossy.simps(2))

text \<open>A valid string is unchanged by the lossy conversion.\<close>

lemma from_utf8_lossy_valid: "utf8_chars s = Some cs \<Longrightarrow> from_utf8_lossy s = s"
proof (induction s arbitrary: cs rule: utf8_chars.induct)
  case (2 b r)
  then obtain cp w where st: "utf8_step (b # r) = Inr (cp, w)"
    by (auto split: sum.splits)
  with 2(2) obtain cs' where "utf8_chars (drop (w - 1) r) = Some cs'" by auto
  with 2(1)[OF st refl] have "from_utf8_lossy (drop (w - 1) r) = drop (w - 1) r" by simp
  with st show ?case by simp
qed simp

subsection \<open>White space and lines\<close>

definition ws_seqs :: "string list" where
  "ws_seqs = map (\<lambda>n. [char_of (n::nat)]) [9, 10, 11, 12, 13, 32]
     @ map (map (char_of :: nat \<Rightarrow> char))
        ([[194, 133], [194, 160], [225, 154, 128], [226, 128, 168], [226, 128, 169],
          [226, 128, 175], [226, 129, 159], [227, 128, 128]]
         @ map (\<lambda>k. [226, 128, 128 + k]) [0..<11])"

lemma ws_seqs_nonempty: "w \<in> set ws_seqs \<Longrightarrow> w \<noteq> []"
  by (auto simp: ws_seqs_def)

function trim_start :: "string \<Rightarrow> string" where
  "trim_start s = (case find (\<lambda>w. prefix w s) ws_seqs of
      None \<Rightarrow> s
    | Some w \<Rightarrow> trim_start (drop (length w) s))"
  by pat_completeness auto
termination
proof (relation "measure length")
  fix s w assume "find (\<lambda>w. prefix w s) ws_seqs = Some w"
  then have "w \<in> set ws_seqs" and "prefix w s"
    by (auto simp: find_Some_iff)
  then have "0 < length w" "length w \<le> length s"
    by (auto dest: ws_seqs_nonempty prefix_length_le)
  then show "(drop (length w) s, s) \<in> measure length"
    by (simp del: length_greater_0_conv)
qed simp

function trim_end :: "string \<Rightarrow> string" where
  "trim_end s = (case find (\<lambda>w. suffix w s) ws_seqs of
      None \<Rightarrow> s
    | Some w \<Rightarrow> trim_end (take (length s - length w) s))"
  by pat_completeness auto
termination
proof (relation "measure length")
  fix s w assume "find (\<lambda>w. suffix w s) ws_seqs = Some w"
  then have "w \<in> set ws_seqs" and "suffix w s"
    by (auto simp: find_Some_iff)
  then have "0 < length w" "length w \<le> length s"
    by (auto dest: ws_seqs_nonempty suffix_length_le)
  then show "(take (length s - length w) s, s) \<in> measure length"
    by (simp del: length_greater_0_conv)
qed simp

declare trim_start.simps [simp del] trim_end.simps [simp del]

definition str_trim :: "string \<Rightarrow> string" where
  "str_trim s = trim_end (trim_start s)"

text \<open>\<^verbatim>\<open>str::lines\<close>: cut at \<^verbatim>\<open>\n\<close>, drop one trailing \<^verbatim>\<open>\r\<close> of each line, no line after a final
  newline.\<close>

definition strip_cr :: "string \<Rightarrow> string" where
  "strip_cr l = (case strip_suffix [CHR 0x0D] l of Some r \<Rightarrow> r | None \<Rightarrow> l)"

definition str_lines :: "string \<Rightarrow> string list" where
  "str_lines s = map strip_cr
     (let ps = split_on (CHR 0x0A) s in if last ps = [] then butlast ps else ps)"

text \<open>\<^verbatim>\<open>str::split_whitespace\<close>: the maximal runs of non-white-space characters.\<close>

definition ws_at :: "string \<Rightarrow> nat option" where
  "ws_at s = map_option length (find (\<lambda>w. prefix w s) ws_seqs)"

lemma ws_at_pos: "ws_at s = Some n \<Longrightarrow> 0 < n"
  using ws_seqs_nonempty by (auto simp: ws_at_def find_Some_iff)

function split_ws_loop :: "string \<Rightarrow> string \<Rightarrow> string list" where
  "split_ws_loop word [] = (if word = [] then [] else [word])"
| "split_ws_loop word (x # xs) =
     (case ws_at (x # xs) of
        Some n \<Rightarrow> (if word = [] then [] else [word]) @ split_ws_loop [] (drop (n - 1) xs)
      | None \<Rightarrow> split_ws_loop (word @ [x]) xs)"
  by pat_completeness auto
termination by (relation "measure (\<lambda>(w, s). length s)") auto

definition split_whitespace :: "string \<Rightarrow> string list" where
  "split_whitespace s = split_ws_loop [] s"

lemma split_ws_loop_nonempty: "w \<in> set (split_ws_loop word s) \<Longrightarrow> w \<noteq> []"
  by (induction word s rule: split_ws_loop.induct) (auto split: option.splits if_splits)

lemma set_trim_start: "set (trim_start s) \<subseteq> set s"
proof (induction s rule: trim_start.induct)
  case (1 s)
  show ?case
  proof (cases "find (\<lambda>w. prefix w s) ws_seqs")
    case None
    then show ?thesis by (subst trim_start.simps) simp
  next
    case (Some w)
    with 1 show ?thesis
      by (subst trim_start.simps) (auto dest!: set_mp dest: in_set_dropD)
  qed
qed

lemma set_trim_end: "set (trim_end s) \<subseteq> set s"
proof (induction s rule: trim_end.induct)
  case (1 s)
  show ?case
  proof (cases "find (\<lambda>w. suffix w s) ws_seqs")
    case None
    then show ?thesis by (subst trim_end.simps) simp
  next
    case (Some w)
    with 1 show ?thesis
      by (subst trim_end.simps) (auto dest!: set_mp dest: in_set_takeD)
  qed
qed

lemma set_str_trim: "set (str_trim s) \<subseteq> set s"
  using set_trim_start set_trim_end by (fastforce simp: str_trim_def)

text \<open>A string with no white-space sequence at either end is left alone.\<close>

definition no_ws_ends :: "string \<Rightarrow> bool" where
  "no_ws_ends s \<longleftrightarrow> find (\<lambda>w. prefix w s) ws_seqs = None \<and> find (\<lambda>w. suffix w s) ws_seqs = None"

lemma str_trim_no_ws: "no_ws_ends s \<Longrightarrow> str_trim s = s"
  by (simp add: no_ws_ends_def str_trim_def trim_start.simps[of s] trim_end.simps[of s])

end
