(* ===== verification/BTree.thy ===== *)
theory BTree
  imports Prelude "HOL-Library.List_Lexorder" "HOL-Library.Char_ord"
begin

text \<open>
  \<^verbatim>\<open>BTreeMap\<close> and \<^verbatim>\<open>BTreeSet\<close> as association lists with strictly increasing keys, in iteration
  order. Strings are compared bytewise, as Rust does.
\<close>

type_synonym ('k, 'v) btree = "('k \<times> 'v) list"

fun bt_insert :: "'k::linorder \<Rightarrow> 'v \<Rightarrow> ('k, 'v) btree \<Rightarrow> ('k, 'v) btree" where
  "bt_insert k v [] = [(k, v)]"
| "bt_insert k v ((k', v') # m) =
     (if k < k' then (k, v) # (k', v') # m else if k = k' then (k, v) # m else (k', v') # bt_insert k v m)"

definition bt_remove :: "'k::linorder \<Rightarrow> ('k, 'v) btree \<Rightarrow> ('k, 'v) btree" where
  "bt_remove k m = filter (\<lambda>(k', v). k' \<noteq> k) m"

definition bt_extend :: "('k::linorder, 'v) btree \<Rightarrow> ('k, 'v) btree \<Rightarrow> ('k, 'v) btree" where
  "bt_extend m xs = fold (\<lambda>(k, v). bt_insert k v) xs m"

definition bt_inv :: "('k::linorder, 'v) btree \<Rightarrow> bool" where
  "bt_inv m \<longleftrightarrow> sorted_wrt (<) (map fst m)"

named_theorems bt_simps \<open>lookups and invariants of the sorted maps\<close>

lemma bt_inv_simps [bt_simps]:
  "bt_inv []" "bt_inv ((k, v) # m) \<longleftrightarrow> (\<forall>k'\<in>set (map fst m). k < k') \<and> bt_inv m"
  by (auto simp: bt_inv_def)

lemma map_of_bt_insert [bt_simps]: "map_of (bt_insert k v m) = (map_of m)(k \<mapsto> v)"
  by (induction m rule: bt_insert.induct) auto

lemma map_of_bt_remove [bt_simps]: "map_of (bt_remove k m) = (map_of m)(k := None)"
  by (induction m) (auto simp: bt_remove_def)

lemma keys_bt_insert [bt_simps]: "set (map fst (bt_insert k v m)) = insert k (set (map fst m))"
  by (induction m rule: bt_insert.induct) auto

lemma bt_inv_insert [bt_simps]: "bt_inv m \<Longrightarrow> bt_inv (bt_insert k v m)"
proof (induction m rule: bt_insert.induct)
  case (2 k v k' v' m)
  then show ?case using keys_bt_insert[of k v m] by (auto simp: bt_inv_simps simp del: set_map)
qed (simp add: bt_inv_simps)

lemma bt_inv_remove [bt_simps]: "bt_inv m \<Longrightarrow> bt_inv (bt_remove k m)"
  by (induction m) (auto simp: bt_inv_simps bt_remove_def)

lemma bt_inv_extend [bt_simps]: "bt_inv m \<Longrightarrow> bt_inv (bt_extend m xs)"
  by (induction xs arbitrary: m) (auto simp: bt_extend_def bt_inv_insert)

lemma map_of_bt_extend_gen: "map_of (bt_extend m xs) = map_of m ++ map_of (rev xs)"
  by (induction xs arbitrary: m) (auto simp: bt_extend_def map_of_bt_insert map_add_def fun_eq_iff split: option.splits)

lemma bt_inv_distinct: "bt_inv m \<Longrightarrow> distinct (map fst m)"
  by (auto simp: bt_inv_def strict_sorted_iff)

lemma map_of_rev_distinct: "distinct (map fst xs) \<Longrightarrow> map_of (rev xs) = map_of xs"
proof (induction xs)
  case (Cons x xs)
  then have "map_of xs (fst x) = None" by (simp add: map_of_eq_None_iff)
  then show ?case using Cons by (cases x) (auto simp: map_add_def fun_eq_iff split: option.splits)
qed simp

lemma map_of_bt_extend [bt_simps]: "bt_inv xs \<Longrightarrow> map_of (bt_extend m xs) = map_of m ++ map_of xs"
  using bt_inv_distinct[of xs] by (simp add: map_of_bt_extend_gen map_of_rev_distinct)

lemma bt_ext:
  assumes "bt_inv a" "bt_inv b" "map_of a = map_of b"
  shows "a = b"
proof -
  have "fst ` set a = fst ` set b" using assms(3) by (metis dom_map_of_conv_image_fst)
  then have k: "map fst a = map fst b"
    using assms(1,2) unfolding bt_inv_def by (intro strict_sorted_equal) simp_all
  moreover have "map snd a = map snd b"
  proof (rule nth_equalityI)
    show "length (map snd a) = length (map snd b)" using k by (metis length_map)
    fix i assume i: "i < length (map snd a)"
    then have ib: "i < length b" using k by (metis length_map)
    have f: "fst (a ! i) = fst (b ! i)" using k i ib by (metis length_map nth_map)
    have "map_of a (fst (a ! i)) = Some (snd (a ! i))" "map_of b (fst (b ! i)) = Some (snd (b ! i))"
      using bt_inv_distinct[OF assms(1)] bt_inv_distinct[OF assms(2)] i ib by (auto intro: map_of_is_SomeI)
    then have "snd (a ! i) = snd (b ! i)" using f assms(3) by simp
    then show "map snd a ! i = map snd b ! i" using i ib by simp
  qed
  ultimately show ?thesis by (metis zip_map_fst_snd)
qed

lemma bt_extend_assoc:
  "bt_inv a \<Longrightarrow> bt_inv b \<Longrightarrow> bt_inv c \<Longrightarrow> bt_extend (bt_extend a b) c = bt_extend a (bt_extend b c)"
  by (rule bt_ext) (simp_all add: bt_simps)

lemma bt_extend_Nil [simp]: "bt_extend m [] = m" "bt_inv m \<Longrightarrow> bt_extend [] m = m"
  by (simp add: bt_extend_def) (rule bt_ext, simp_all add: bt_simps)

text \<open>\<^verbatim>\<open>sort\<close> followed by \<^verbatim>\<open>dedup\<close>.\<close>

definition sort_dedup :: "'a::linorder list \<Rightarrow> 'a list" where
  "sort_dedup xs = remdups_adj (sort xs)"

lemma sort_dedup_spec: "set (sort_dedup xs) = set xs" "sorted (sort_dedup xs)" "distinct (sort_dedup xs)"
proof -
  show "set (sort_dedup xs) = set xs" by (simp add: sort_dedup_def)
  show "sorted (sort_dedup xs)" by (simp add: sort_dedup_def sorted_remdups_adj)
  have "sorted ys \<Longrightarrow> distinct (remdups_adj ys)" for ys :: "'a list"
    by (induction ys rule: remdups_adj.induct) auto
  then show "distinct (sort_dedup xs)" by (simp add: sort_dedup_def)
qed

end
