(* ===== verification/Host.thy ===== *)
theory Host
  imports Utf8 BTree "HOL-Library.Word"
begin

unbundle bit_operations_syntax

text \<open>
  The host environment the command line runs in: environment variables, the file system as a map
  from paths to entries, path operations of \<^verbatim>\<open>std::path\<close>, and process exit as an error value.
  \<open>canonical\<close> is what \<^verbatim>\<open>canonicalize\<close> answers (symbolic links resolved), \<open>writable\<close> whether a
  write to a path succeeds.
\<close>

type_synonym path = string

datatype file_entry = Regular (fe_mode: "32 word") (fe_readable: bool) (fe_content: bytes) | Directory

record host =
  env_var :: "string \<Rightarrow> string option"
  entry :: "path \<Rightarrow> file_entry option"
  canonical :: "path \<Rightarrow> path option"
  writable :: "path \<Rightarrow> bool"
  cwd :: "path option"
  tty :: bool

datatype exit = Exit nat string  \<comment> \<open>status and the message on stderr\<close>

subsection \<open>Trimming\<close>

definition graphic :: "char \<Rightarrow> bool" where
  "graphic c \<longleftrightarrow> 33 \<le> char_code c \<and> char_code c < 127"

lemma ws_not_graphic:
  assumes "w \<in> set ws_seqs"
  shows "\<not> graphic (hd w)" "\<not> graphic (last w)"
proof -
  have "list_all (\<lambda>w. \<not> graphic (hd w) \<and> \<not> graphic (last w)) ws_seqs"
    by (simp add: ws_seqs_def graphic_def upt_rec)
  then show "\<not> graphic (hd w)" "\<not> graphic (last w)" using assms by (simp_all add: list_all_iff)
qed

lemma trim_graphic: "s = [] \<or> graphic (hd s) \<and> graphic (last s) \<Longrightarrow> str_trim s = s"
proof -
  assume a: "s = [] \<or> graphic (hd s) \<and> graphic (last s)"
  have "\<not> prefix w s" "\<not> suffix w s" if "w \<in> set ws_seqs" for w
    using a ws_not_graphic[OF that] ws_seqs_nonempty[OF that] by (auto simp: prefix_def suffix_def)
  then have "no_ws_ends s" by (simp add: no_ws_ends_def find_None_iff)
  then show ?thesis by (rule str_trim_no_ws)
qed

subsection \<open>Files\<close>

definition is_file :: "host \<Rightarrow> path \<Rightarrow> bool" where
  "is_file h p = (case entry h p of Some (Regular m r c) \<Rightarrow> True | _ \<Rightarrow> False)"

definition path_exists :: "host \<Rightarrow> path \<Rightarrow> bool" where
  "path_exists h p \<longleftrightarrow> entry h p \<noteq> None"

definition read_to_string :: "host \<Rightarrow> path \<Rightarrow> string option" where
  "read_to_string h p =
     (case entry h p of Some (Regular m r c) \<Rightarrow> if r \<and> utf8_valid c then Some c else None | _ \<Rightarrow> None)"

definition write_file :: "host \<Rightarrow> path \<Rightarrow> bytes \<Rightarrow> host option" where
  "write_file h p c =
     (if \<not> writable h p \<or> entry h p = Some Directory then None
      else Some (h\<lparr>entry := (entry h)(p \<mapsto> Regular (case entry h p of Some (Regular m r c') \<Rightarrow> m | _ \<Rightarrow> 420) True c)\<rparr>))"

definition rename_file :: "host \<Rightarrow> path \<Rightarrow> path \<Rightarrow> host option" where
  "rename_file h src dst =
     (case entry h src of
        Some (Regular m r c) \<Rightarrow>
          if writable h dst \<and> entry h dst \<noteq> Some Directory
          then Some (h\<lparr>entry := (entry h)(src := None, dst \<mapsto> Regular m r c)\<rparr>) else None
      | _ \<Rightarrow> None)"

text \<open>The permission bits of group and others, \<^verbatim>\<open>mode & 0o077\<close>.\<close>

definition world_accessible :: "32 word \<Rightarrow> bool" where
  "world_accessible mode \<longleftrightarrow> mode AND 63 \<noteq> 0"

subsection \<open>Paths\<close>

definition is_absolute :: "path \<Rightarrow> bool" where
  "is_absolute p \<longleftrightarrow> (case p of c # _ \<Rightarrow> c = CHR ''/'' | [] \<Rightarrow> False)"

definition path_join :: "path \<Rightarrow> path \<Rightarrow> path" where
  "path_join base p =
     (if is_absolute p then p
      else if base = [] \<or> last base = CHR ''/'' then base @ p
      else base @ ''/'' @ p)"

text \<open>\<^verbatim>\<open>Path::components\<close>: empty and \<^verbatim>\<open>.\<close> segments vanish; \<^verbatim>\<open>Path::starts_with\<close> compares them.\<close>

definition components :: "path \<Rightarrow> string list" where
  "components p = filter (\<lambda>s. s \<noteq> [] \<and> s \<noteq> ''.'') (split_on (CHR ''/'') p)"

fun list_prefix :: "'a list \<Rightarrow> 'a list \<Rightarrow> bool" where
  "list_prefix [] ys = True"
| "list_prefix (x # xs) [] = False"
| "list_prefix (x # xs) (y # ys) = (x = y \<and> list_prefix xs ys)"

definition path_starts_with :: "path \<Rightarrow> path \<Rightarrow> bool" where
  "path_starts_with p base \<longleftrightarrow> is_absolute p = is_absolute base \<and> list_prefix (components base) (components p)"

lemma list_prefix_iff: "list_prefix xs ys \<longleftrightarrow> (\<exists>zs. ys = xs @ zs)"
  by (induction xs ys rule: list_prefix.induct) auto

lemma split_on_two: "split_on c (a @ c # b) = split_on c a @ split_on c b"
  by (induction c a rule: split_on.induct) (auto split: list.splits)

lemma components_append: "components (a @ CHR ''/'' # b) = components a @ components b"
  by (simp add: components_def split_on_two)

lemma components_slash: "components (CHR ''/'' # b) = components b"
  using components_append[of "[]" b] by (simp add: components_def)

lemma components_trim: "components (trim_start_matches (CHR ''/'') p) = components p"
proof -
  have "trim_start_matches (CHR ''/'') p = dropWhile (\<lambda>c. c = CHR ''/'') p"
    by (simp add: trim_start_matches_def)
  moreover have "components (dropWhile (\<lambda>c. c = CHR ''/'') p) = components p"
    by (induction p) (auto simp: components_slash)
  ultimately show ?thesis by simp
qed

text \<open>A relative path joined to a base stays below it, component by component.\<close>

lemma components_join:
  assumes "\<not> is_absolute p"
  shows "components (path_join base p) = components base @ components p"
proof -
  consider "base = []" | b where "base = b @ ''/''" | "base \<noteq> []" "last base \<noteq> CHR ''/''"
    by (metis append_butlast_last_id)
  then show ?thesis
  proof cases
    case 1
    then show ?thesis using assms by (simp add: path_join_def) (simp add: components_def)
  next
    case 2
    have "components (b @ ''/'') = components b" using components_append[of b "[]"] by (simp add: components_def)
    then show ?thesis using assms 2 components_append[of b p] by (simp add: path_join_def)
  next
    case 3
    then show ?thesis using assms components_append[of base p] by (simp add: path_join_def)
  qed
qed

end
