(* ===== verification/Dirs.thy ===== *)
theory Dirs
  imports Host
begin

text \<open>
  Directory operations of \<^verbatim>\<open>std::fs\<close> on the host's file map: creating a path of directories,
  removing a tree, renaming a tree and reading a directory. An entry below a path is one whose path
  continues it after a slash.
\<close>

definition ancestors :: "path \<Rightarrow> path list" where
  "ancestors p = map (\<lambda>i. take i p) (filter (\<lambda>i. i = length p \<or> p ! i = CHR ''/'') [1..<Suc (length p)])"

definition create_dir_all :: "host \<Rightarrow> path \<Rightarrow> host option" where
  "create_dir_all h p =
     (if list_ex (\<lambda>q. is_file h q \<or> entry h q = None \<and> \<not> writable h q) (ancestors p) then None
      else Some (h\<lparr>entry := \<lambda>q. if q \<in> set (ancestors p) then Some Directory else entry h q\<rparr>))"

definition below :: "path \<Rightarrow> path \<Rightarrow> bool" where
  "below dir p \<longleftrightarrow> p = dir \<or> prefix (dir @ ''/'') p"

definition remove_dir_all :: "host \<Rightarrow> path \<Rightarrow> host option" where
  "remove_dir_all h dir =
     (if entry h dir \<noteq> Some Directory \<or> \<not> writable h dir then None
      else Some (h\<lparr>entry := \<lambda>q. if below dir q then None else entry h q\<rparr>))"

definition remove_file :: "host \<Rightarrow> path \<Rightarrow> host option" where
  "remove_file h p = (if is_file h p \<and> writable h p then Some (h\<lparr>entry := (entry h)(p := None)\<rparr>) else None)"

text \<open>\<^verbatim>\<open>read_dir\<close> yields the entries that exist, in an order of the file system's own (\<open>names\<close>).\<close>

definition read_dir :: "(path \<Rightarrow> string list) \<Rightarrow> host \<Rightarrow> path \<Rightarrow> string list option" where
  "read_dir names h dir =
     (if entry h dir = Some Directory then Some (filter (\<lambda>n. path_exists h (path_join dir n)) (names dir)) else None)"

text \<open>A directory replaces nothing but an empty directory.\<close>

definition rename_dir :: "(path \<Rightarrow> string list) \<Rightarrow> host \<Rightarrow> path \<Rightarrow> path \<Rightarrow> host option" where
  "rename_dir names h src dst =
     (if entry h src \<noteq> Some Directory \<or> \<not> writable h src \<or> \<not> writable h dst
         \<or> entry h dst \<noteq> None \<and> read_dir names h dst \<noteq> Some [] then None
      else Some (h\<lparr>entry := \<lambda>q. if below dst q then entry h (src @ drop (length dst) q)
                                 else if below src q then None else entry h q\<rparr>))"

lemma ancestors_iff:
  "q \<in> set (ancestors p) \<longleftrightarrow> (\<exists>i. 0 < i \<and> i \<le> length p \<and> (i = length p \<or> p ! i = CHR ''/'') \<and> q = take i p)"
proof -
  have "i \<in> set [1..<Suc (length p)] \<longleftrightarrow> 0 < i \<and> i \<le> length p" for i by auto
  then show ?thesis unfolding ancestors_def set_map set_filter image_def mem_Collect_eq by blast
qed

lemma ancestors_self: "p \<noteq> [] \<Longrightarrow> p \<in> set (ancestors p)"
  unfolding ancestors_iff by (rule exI[of _ "length p"]) simp

lemma ancestors_prefix: "q \<in> set (ancestors p) \<Longrightarrow> prefix q p"
  by (auto simp: ancestors_def take_is_prefix)

lemma create_dir_all_Some:
  "create_dir_all h p = Some h' \<Longrightarrow>
   env_var h' = env_var h \<and> writable h' = writable h \<and> canonical h' = canonical h \<and> cwd h' = cwd h \<and> tty h' = tty h \<and>
   entry h' = (\<lambda>q. if q \<in> set (ancestors p) then Some Directory else entry h q)"
  by (auto simp: create_dir_all_def split: if_splits)

lemma create_dir_all_file: "create_dir_all h p = Some h' \<Longrightarrow> is_file h q \<Longrightarrow> entry h' q = entry h q"
  by (auto simp: create_dir_all_def list_ex_iff split: if_splits)

lemma remove_dir_all_Some:
  "remove_dir_all h dir = Some h' \<Longrightarrow>
   env_var h' = env_var h \<and> writable h' = writable h \<and>
   entry h' = (\<lambda>q. if below dir q then None else entry h q)"
  by (auto simp: remove_dir_all_def split: if_splits)

lemma below_refl [simp]: "below p p"
  by (simp add: below_def)

lemma below_append [simp]: "below dir (dir @ CHR ''/'' # p)"
  by (simp add: below_def)

text \<open>Two children of a directory with different names without slashes have disjoint trees.\<close>

lemma below_siblings:
  assumes "below (dir @ ''/'' @ a) q" "below (dir @ ''/'' @ b) q" "CHR ''/'' \<notin> set a" "CHR ''/'' \<notin> set b"
  shows "a = b"
proof -
  have "\<exists>r. q = dir @ ''/'' @ x @ r \<and> (r = [] \<or> hd r = CHR ''/'')" if "below (dir @ ''/'' @ x) q" for x
    using that by (auto simp: below_def prefix_def)
  then obtain r s where "q = dir @ ''/'' @ a @ r" "r = [] \<or> hd r = CHR ''/''"
    "q = dir @ ''/'' @ b @ s" "s = [] \<or> hd s = CHR ''/''" using assms(1,2) by metis
  then have e: "a @ r = b @ s" and r: "r = [] \<or> hd r = CHR ''/''" and s: "s = [] \<or> hd s = CHR ''/''" by auto
  have "takeWhile (\<lambda>c. c \<noteq> CHR ''/'') (x @ t) = x" if "CHR ''/'' \<notin> set x" "t = [] \<or> hd t = CHR ''/''" for x t
    using that by (cases t) (auto simp: takeWhile_append takeWhile_eq_all_conv)
  then show ?thesis using e r s assms(3,4) by metis
qed

lemma ancestors_parent: "d \<noteq> [] \<Longrightarrow> d \<in> set (ancestors (d @ CHR ''/'' # x))"
  unfolding ancestors_iff by (rule exI[of _ "length d"]) simp

lemma write_file_Some:
  "write_file h p c = Some h' \<Longrightarrow>
   env_var h' = env_var h \<and> writable h' = writable h \<and>
   (\<exists>m. entry h' = (entry h)(p \<mapsto> Regular m True c))"
  by (auto simp: write_file_def split: if_splits)

lemma path_join_name:
  "d \<noteq> [] \<Longrightarrow> last d \<noteq> CHR ''/'' \<Longrightarrow> \<not> is_absolute n \<Longrightarrow> path_join d n = d @ CHR ''/'' # n"
  by (simp add: path_join_def)

lemma rename_dir_Some:
  "rename_dir names h src dst = Some h' \<Longrightarrow>
   env_var h' = env_var h \<and> writable h' = writable h \<and>
   entry h' = (\<lambda>q. if below dst q then entry h (src @ drop (length dst) q) else if below src q then None else entry h q)"
  by (auto simp: rename_dir_def split: if_splits)

text \<open>An operation keeps a tree when every entry of it stays as it was.\<close>

definition keeps :: "path \<Rightarrow> host \<Rightarrow> host \<Rightarrow> bool" where
  "keeps tree h h' \<longleftrightarrow> env_var h' = env_var h \<and> writable h' = writable h \<and> (\<forall>q. below tree q \<longrightarrow> entry h' q = entry h q)"

lemma keeps_refl [simp]: "keeps tree h h"
  by (simp add: keeps_def)

lemma keeps_trans: "keeps tree a b \<Longrightarrow> keeps tree b c \<Longrightarrow> keeps tree a c"
  by (simp add: keeps_def)

lemma keeps_create_dir_all:
  "create_dir_all h p = Some h' \<Longrightarrow> \<not> prefix tree p \<Longrightarrow> keeps tree h h'"
  using ancestors_prefix[of _ p] create_dir_all_Some[of h p h']
  by (auto simp: keeps_def below_def dest: prefix_order.trans append_prefixD)

lemma keeps_write_file: "write_file h p c = Some h' \<Longrightarrow> \<not> below tree p \<Longrightarrow> keeps tree h h'"
  using write_file_Some[of h p c h'] by (auto simp: keeps_def)

lemma keeps_remove_dir_all:
  "remove_dir_all h p = Some h' \<Longrightarrow> (\<And>q. below tree q \<Longrightarrow> \<not> below p q) \<Longrightarrow> keeps tree h h'"
  using remove_dir_all_Some[of h p h'] by (auto simp: keeps_def)

lemma keeps_remove_file: "remove_file h p = Some h' \<Longrightarrow> \<not> below tree p \<Longrightarrow> keeps tree h h'"
  by (auto simp: keeps_def remove_file_def split: if_splits)

end
