(* ===== verification/Session.thy ===== *)
theory Session
  imports Dirs
begin

text \<open>
  Session tracking, \<^verbatim>\<open>src/src/session.rs\<close>: identifiers, the directory of a session, its metadata
  file, and finding and listing sessions. The JSON of the metadata, the clock and the order in which
  a directory is read are parameters; a process is alive when its \<^verbatim>\<open>/proc\<close> entry exists.
\<close>

subsection \<open>Identifiers and paths\<close>

text \<open>The bytes of \<^verbatim>\<open>/dev/urandom\<close> when it can be read, else the low bytes of the clock.\<close>

definition new_id :: "bytes option \<Rightarrow> nat \<Rightarrow> string" where
  "new_id urandom nanos =
     (let buf = (case urandom of
                   Some bs \<Rightarrow> bs
                 | None \<Rightarrow> map (\<lambda>i. char_of (nanos div 256 ^ i mod 256)) [0, 1, 2, 3])
      in hex_encode buf)"

definition sessions_dir :: "host \<Rightarrow> exit + path" where
  "sessions_dir h =
     bindR (case env_var h ''XDG_STATE_HOME'' of
              Some p \<Rightarrow> Inr p
            | None \<Rightarrow> (case env_var h ''HOME'' of
                None \<Rightarrow> Inl (Exit 1 ''$HOME not set -- cannot determine state directory'')
              | Some home \<Rightarrow> Inr (path_join home ''.local/state'')))
       (\<lambda>base. Inr (path_join base ''redan/sessions''))"

definition valid_session_id :: "string \<Rightarrow> bool" where
  "valid_session_id i \<longleftrightarrow> i \<noteq> [] \<and> length i \<le> 32 \<and> list_all is_ascii_hexdigit i"

definition session_dir :: "host \<Rightarrow> string \<Rightarrow> exit + path" where
  "session_dir h i = bindR (sessions_dir h) (\<lambda>d. Inr (path_join d i))"

definition audit_log_path :: "host \<Rightarrow> string \<Rightarrow> exit + path" where
  "audit_log_path h i = bindR (session_dir h i) (\<lambda>d. Inr (path_join d ''audit.jsonl''))"

definition console_socket_path :: "host \<Rightarrow> string \<Rightarrow> exit + path" where
  "console_socket_path h i = bindR (session_dir h i) (\<lambda>d. Inr (path_join d ''console.sock''))"

subsection \<open>Metadata\<close>

datatype session_status = Running | Finished | Failed

record session_meta =
  sm_id :: string
  sm_image :: "string option"
  sm_command :: "string option"
  sm_started_at :: string
  sm_status :: session_status
  sm_pid :: "32 word option"
  sm_console_socket :: "string option"
  sm_name :: "string option"

record session_env =
  sv_print :: "session_meta \<Rightarrow> string + string"
  sv_parse :: "string \<Rightarrow> session_meta option"
  sv_names :: "path \<Rightarrow> string list"

definition new_meta :: "string \<Rightarrow> 32 word \<Rightarrow> string \<Rightarrow> string option \<Rightarrow> string option \<Rightarrow> session_meta" where
  "new_meta started_at own_pid i img command =
     \<lparr>sm_id = i, sm_image = img, sm_command = command, sm_started_at = started_at, sm_status = Running,
      sm_pid = Some own_pid, sm_console_socket = None, sm_name = None\<rparr>"

definition save :: "session_env \<Rightarrow> session_meta \<Rightarrow> host \<Rightarrow> exit + (string + unit) \<times> host" where
  "save env m h =
     bindR (session_dir h (sm_id m)) (\<lambda>dir. Inr (
       case create_dir_all h dir of
         None \<Rightarrow> (Inl (''cannot create session dir '' @ dir), h)
       | Some h \<Rightarrow>
           (case sv_print env m of
              Inl e \<Rightarrow> (Inl (''cannot serialize session meta: '' @ e), h)
            | Inr json \<Rightarrow>
                (case write_file h (path_join dir ''meta.json'') json of
                   None \<Rightarrow> (Inl (''cannot write '' @ path_join dir ''meta.json''), h)
                 | Some h \<Rightarrow> (Inr (), h)))))"

definition proc_path :: "32 word \<Rightarrow> path" where
  "proc_path pid = ''/proc/'' @ show_nat (unat pid)"

definition is_alive :: "host \<Rightarrow> session_meta \<Rightarrow> bool" where
  "is_alive h m = (case sm_pid m of None \<Rightarrow> False | Some pid \<Rightarrow> path_exists h (proc_path pid))"

definition finish :: "session_env \<Rightarrow> bool \<Rightarrow> session_meta \<Rightarrow> host \<Rightarrow> exit + session_meta \<times> host" where
  "finish env success m h =
     (let m = m\<lparr>sm_status := (if success then Finished else Failed)\<rparr>
      in bindR (save env m h) (\<lambda>(r, h). Inr (m, h)))"

subsection \<open>Listing and finding\<close>

definition read_meta :: "session_env \<Rightarrow> host \<Rightarrow> path \<Rightarrow> session_meta option" where
  "read_meta env h dir = Option.bind (read_to_string h (path_join dir ''meta.json'')) (sv_parse env)"

text \<open>\<^verbatim>\<open>sort_by\<close> is stable; the comparison is reversed, so the newest come first.\<close>

definition newest_first :: "session_meta list \<Rightarrow> session_meta list" where
  "newest_first ms = rev (sort_key sm_started_at (rev ms))"

definition list_sessions :: "session_env \<Rightarrow> host \<Rightarrow> exit + session_meta list" where
  "list_sessions env h =
     bindR (sessions_dir h) (\<lambda>dir. Inr (newest_first
       (case read_dir (sv_names env) h dir of
          None \<Rightarrow> []
        | Some entries \<Rightarrow> List.map_filter (\<lambda>n. read_meta env h (path_join dir n)) entries)))"

definition find_session :: "session_env \<Rightarrow> host \<Rightarrow> string option \<Rightarrow> exit + session_meta option" where
  "find_session env h id_or_name =
     bindR (list_sessions env h) (\<lambda>sessions. Inr (case id_or_name of
         None \<Rightarrow>
           (case find (\<lambda>s. sm_status s = Running \<and> is_alive h s) sessions of
              Some s \<Rightarrow> Some s
            | None \<Rightarrow> (case sessions of [] \<Rightarrow> None | s # _ \<Rightarrow> Some s))
       | Some query \<Rightarrow>
           (case find (\<lambda>s. sm_id s = query) sessions of
              Some s \<Rightarrow> Some s
            | None \<Rightarrow> (case find (\<lambda>s. prefix query (sm_id s)) sessions of
                Some s \<Rightarrow> Some s
              | None \<Rightarrow> find (\<lambda>s. sm_name s = Some query) sessions))))"

subsection \<open>Identifiers stay inside the directory\<close>

lemma hex_encode_digits: "list_all is_ascii_hexdigit (hex_encode bs)" "length (hex_encode bs) = 2 * length bs"
proof -
  have "is_ascii_hexdigit (hex_digit (char_code b div 16))" "is_ascii_hexdigit (hex_digit (char_code b mod 16))" for b
    using hex_digit_hexdigit[of "char_code b div 16"] hex_digit_hexdigit[of "char_code b mod 16"] char_code_less[of b]
    by (simp_all add: div_less_iff_less_mult)
  then show "list_all is_ascii_hexdigit (hex_encode bs)" by (induction bs) (auto simp: hex_encode_def hex_byte_def)
  show "length (hex_encode bs) = 2 * length bs" by (induction bs) (auto simp: hex_encode_def hex_byte_def)
qed

lemma new_id_valid:
  "(case urandom of Some bs \<Rightarrow> length bs = 4 | None \<Rightarrow> True) \<Longrightarrow>
   valid_session_id (new_id urandom nanos) \<and> length (new_id urandom nanos) = 8"
proof -
  have "valid_session_id (hex_encode bs) \<and> length (hex_encode bs) = 8" if "length bs = 4" for bs
    using that hex_encode_digits[of bs] by (cases "hex_encode bs") (auto simp: valid_session_id_def)
  then show "case urandom of Some bs \<Rightarrow> length bs = 4 | None \<Rightarrow> True \<Longrightarrow> ?thesis"
    by (simp add: new_id_def Let_def split: option.splits)
qed

lemma hexdigit_not_sep: "is_ascii_hexdigit c \<Longrightarrow> c \<noteq> CHR ''/'' \<and> c \<noteq> CHR ''.''"
  by (auto simp: ascii_defs char_code_def)

lemma valid_id_name:
  assumes "valid_session_id i"
  shows "CHR ''/'' \<notin> set i" "\<not> is_absolute i" "components i = [i]" "i \<noteq> []"
proof -
  show s: "CHR ''/'' \<notin> set i" using assms hexdigit_not_sep by (auto simp: valid_session_id_def list_all_iff)
  show ne: "i \<noteq> []" using assms by (simp add: valid_session_id_def)
  then show "\<not> is_absolute i" using s by (cases i) (auto simp: is_absolute_def)
  have "i \<noteq> ''.''" using assms hexdigit_not_sep[of "CHR ''.''"] by (auto simp: valid_session_id_def)
  moreover have "split_on (CHR ''/'') i = [i]" using s split_on_notin by blast
  ultimately show "components i = [i]" using ne by (simp add: components_def)
qed

lemma session_dir_cong:
  assumes "env_var h' = env_var h"
  shows "sessions_dir h' = sessions_dir h" "session_dir h' i = session_dir h i"
  by (simp_all only: session_dir_def sessions_dir_def assms)

lemma sessions_dir_shape:
  assumes "sessions_dir h = Inr dir"
  shows "dir \<noteq> [] \<and> last dir \<noteq> CHR ''/''"
  using assms by (auto simp: sessions_dir_def bindR_Inr path_join_def is_absolute_def split: option.splits if_splits)

lemma session_dir_below:
  assumes "valid_session_id i" "session_dir h i = Inr d"
  obtains dir where "sessions_dir h = Inr dir" "d = dir @ CHR ''/'' # i" "components d = components dir @ [i]"
proof -
  obtain dir where dir: "sessions_dir h = Inr dir" "d = path_join dir i"
    using assms(2) by (auto simp: session_dir_def bindR_Inr)
  then have "d = dir @ CHR ''/'' # i"
    using sessions_dir_shape valid_id_name[OF assms(1)] by (simp add: path_join_name)
  moreover have "components d = components dir @ [i]"
    using components_join[of i dir] valid_id_name[OF assms(1)] dir(2) by simp
  ultimately show thesis using that dir(1) by blast
qed

subsection \<open>Saving and finding\<close>

lemma find_unique: "x \<in> set xs \<Longrightarrow> P x \<Longrightarrow> (\<And>y. y \<in> set xs \<Longrightarrow> P y \<Longrightarrow> y = x) \<Longrightarrow> find P xs = Some x"
proof (induction xs)
  case (Cons y ys)
  show ?case
  proof (cases "P y")
    case True
    then show ?thesis using Cons.prems(3)[of y] by simp
  next
    case False
    then have x: "x \<in> set ys" using Cons.prems(1,2) by auto
    have "find P ys = Some x" by (rule Cons.IH[OF x Cons.prems(2)]) (rule Cons.prems(3), simp_all)
    then show ?thesis using False by simp
  qed
qed simp

lemma set_newest_first [simp]: "set (newest_first ms) = set ms"
  by (simp add: newest_first_def)

lemma save_ok:
  assumes "save env m h = Inr (Inr (), h')"
  obtains dir json mode where "session_dir h (sm_id m) = Inr dir" "sv_print env m = Inr json"
    "env_var h' = env_var h"
    "entry h' = (\<lambda>q. if q = path_join dir ''meta.json'' then Some (Regular mode True json)
       else if q \<in> set (ancestors dir) then Some Directory else entry h q)"
proof -
  obtain dir h1 json where d: "session_dir h (sm_id m) = Inr dir" "create_dir_all h dir = Some h1"
    "sv_print env m = Inr json" "write_file h1 (path_join dir ''meta.json'') json = Some h'"
  proof -
    obtain dir where dir: "session_dir h (sm_id m) = Inr dir"
      "(case create_dir_all h dir of None \<Rightarrow> (Inl (''cannot create session dir '' @ dir), h)
        | Some h1 \<Rightarrow> (case sv_print env m of
              Inl e \<Rightarrow> (Inl (''cannot serialize session meta: '' @ e), h1)
            | Inr json \<Rightarrow> (case write_file h1 (path_join dir ''meta.json'') json of
                   None \<Rightarrow> (Inl (''cannot write '' @ path_join dir ''meta.json''), h1) | Some h2 \<Rightarrow> (Inr (), h2))))
       = (Inr (), h')"
      using assms unfolding save_def bindR_Inr by auto
    show ?thesis
      using dir(2) by (cases "create_dir_all h dir"; cases "sv_print env m") (auto split: option.splits intro: that[OF dir(1)])
  qed
  obtain mode where "env_var h' = env_var h1" "entry h' = (entry h1)(path_join dir ''meta.json'' \<mapsto> Regular mode True json)"
    using write_file_Some[OF d(4)] by blast
  then show thesis
    by (intro that[OF d(1,3), of mode]) (simp_all add: create_dir_all_Some[OF d(2)] fun_eq_iff)
qed

lemma meta_path:
  "d \<noteq> [] \<Longrightarrow> last d \<noteq> CHR ''/'' \<Longrightarrow> CHR ''/'' \<notin> set n \<Longrightarrow> n \<noteq> [] \<Longrightarrow>
   path_join (path_join d n) ''meta.json'' = d @ ''/'' @ n @ ''/meta.json''"
proof -
  assume a: "d \<noteq> []" "last d \<noteq> CHR ''/''" "CHR ''/'' \<notin> set n" "n \<noteq> []"
  then have "\<not> is_absolute n" by (cases n) (auto simp: is_absolute_def)
  moreover have "last n \<noteq> CHR ''/''" using a(3) last_in_set[OF a(4)] by auto
  ultimately show ?thesis using a by (simp add: path_join_name is_absolute_def)
qed

text \<open>
  A session that was saved is found again by its identifier, as it was written, whatever other
  sessions exist and whatever they are called, as long as the metadata is read back as it was
  printed and no other directory holds the same identifier. Its directory lies directly below the
  sessions directory.
\<close>
lemma saved_session_found:
  assumes "valid_session_id (sm_id m)" "save env m h = Inr (Inr (), h')"
    and "\<And>json. sv_print env m = Inr json \<Longrightarrow> sv_parse env json = Some m \<and> utf8_valid json"
    and "sessions_dir h = Inr dir" "sm_id m \<in> set (sv_names env dir)"
    and "\<And>n m'. n \<in> set (sv_names env dir) \<Longrightarrow> n \<noteq> sm_id m \<Longrightarrow>
           n \<noteq> [] \<and> CHR ''/'' \<notin> set n \<and> (read_meta env h (path_join dir n) = Some m' \<longrightarrow> sm_id m' \<noteq> sm_id m)"
  shows "find_session env h' (Some (sm_id m)) = Inr (Some m)
    \<and> (\<exists>d. session_dir h (sm_id m) = Inr d \<and> components d = components dir @ [sm_id m])"
proof -
  obtain d json mode where s: "session_dir h (sm_id m) = Inr d" "sv_print env m = Inr json" "env_var h' = env_var h"
    and e: "entry h' = (\<lambda>q. if q = path_join d ''meta.json'' then Some (Regular mode True json)
       else if q \<in> set (ancestors d) then Some Directory else entry h q)"
    by (rule save_ok[OF assms(2)])
  have dir: "sessions_dir h' = Inr dir" using assms(4) session_dir_cong(1)[OF s(3)] by simp
  have shape: "dir \<noteq> []" "last dir \<noteq> CHR ''/''" using sessions_dir_shape[OF assms(4)] by auto
  note idn = valid_id_name[OF assms(1)]
  have d: "d = dir @ CHR ''/'' # sm_id m" "components d = components dir @ [sm_id m]"
    using session_dir_below[OF assms(1) s(1)] assms(4) by auto
  have dj: "path_join dir (sm_id m) = d" using d(1) shape idn by (simp add: path_join_name)
  have mp: "path_join d ''meta.json'' = dir @ ''/'' @ sm_id m @ ''/meta.json''"
    using meta_path[OF shape idn(1,4)] dj by simp
  have own: "read_meta env h' d = Some m"
    using assms(3)[OF s(2)] by (simp add: read_meta_def read_to_string_def e)
  have other: "sm_id m' \<noteq> sm_id m"
    if n: "n \<in> set (sv_names env dir)" "n \<noteq> sm_id m" "read_meta env h' (path_join dir n) = Some m'" for n m'
  proof -
    have nn: "n \<noteq> []" "CHR ''/'' \<notin> set n" using assms(6)[OF n(1,2)] by blast+
    have "path_join (path_join dir n) ''meta.json'' \<noteq> path_join d ''meta.json''"
      unfolding mp meta_path[OF shape nn(2,1)] using n(2) by simp
    then have "read_meta env h (path_join dir n) = Some m'"
      using n(3) by (auto simp: read_meta_def read_to_string_def e split: if_splits)
    then show ?thesis using assms(6)[OF n(1,2), of m'] by blast
  qed
  have ent: "entry h' dir = Some Directory" "path_exists h' (path_join dir (sm_id m))"
    using ancestors_parent[OF shape(1), of "sm_id m"] ancestors_self[of d] d(1) mp
    by (auto simp: e dj path_exists_def)
  define entries where "entries = filter (\<lambda>n. path_exists h' (path_join dir n)) (sv_names env dir)"
  have rd: "read_dir (sv_names env) h' dir = Some entries" using ent by (simp add: read_dir_def entries_def)
  define ms where "ms = List.map_filter (\<lambda>n. read_meta env h' (path_join dir n)) entries"
  have "m \<in> set ms" using assms(5) ent(2) own dj by (force simp: ms_def entries_def map_filter_def)
  moreover have "x = m" if x: "x \<in> set ms" "sm_id x = sm_id m" for x
  proof -
    obtain n where n: "n \<in> set (sv_names env dir)" "read_meta env h' (path_join dir n) = Some x"
      using x(1) unfolding ms_def entries_def map_filter_def by auto
    show ?thesis
    proof (cases "n = sm_id m")
      case True
      then show ?thesis using n(2) own dj by simp
    next
      case False
      then show ?thesis using other[OF n(1) False n(2)] x(2) by simp
    qed
  qed
  ultimately have "find (\<lambda>s. sm_id s = sm_id m) (newest_first ms) = Some m" by (intro find_unique) auto
  then have "find_session env h' (Some (sm_id m)) = Inr (Some m)"
    by (simp add: find_session_def list_sessions_def dir rd bindR_def ms_def)
  then show ?thesis using s(1) d(2) by blast
qed

definition demo_meta :: session_meta where
  "demo_meta = (new_meta ''2025-01-01T00:00:00Z'' 4242 ''abcd1234'' (Some ''dev'') (Some ''bash''))\<lparr>sm_name := Some ''job''\<rparr>"

definition demo_session_env :: session_env where
  "demo_session_env = \<lparr>sv_print = (\<lambda>m. Inr (sm_id m)), sv_parse = (\<lambda>s. Some (demo_meta\<lparr>sm_id := s\<rparr>)),
     sv_names = (\<lambda>d. [''ffff'', ''abcd1234''])\<rparr>"

definition demo_state :: host where
  "demo_state = \<lparr>env_var = (\<lambda>v. if v = ''HOME'' then Some ''/h'' else None),
     entry = (\<lambda>p. if p = ''/h'' then Some Directory else None),
     canonical = Some, writable = (\<lambda>_. True), cwd = Some ''/h'', tty = False\<rparr>"

end
