(* ===== verification/Config.thy ===== *)
theory Config
  imports Host
begin

text \<open>
  The configuration file of \<^verbatim>\<open>src/src/config.rs\<close>: its structure, the conversion to command-line
  specifications, the layering of two configurations, the discovery of the file and the domain list
  read from the Claude settings. The TOML and JSON parsers are parameters.
\<close>

record network_config =
  net_allow :: "string list"
  net_forward :: "string list"

record secret_config =
  sc_value :: string
  sc_hosts :: "string list"

record mount_config =
  mc_source :: string
  mc_target :: "string option"
  mc_read_only :: bool

record config =
  cfg_image :: "string option"
  cfg_rootfs :: "string option"
  cfg_command :: "string option"
  cfg_timeout :: "64 word option"
  cfg_interactive :: "bool option"
  cfg_audit_log :: "string option"
  cfg_log_file :: "string option"
  cfg_network :: network_config
  cfg_secrets :: "(string, secret_config) btree"
  cfg_mount :: "(string, mount_config) btree"
  cfg_env :: "(string, string) btree"

definition default_config :: config where
  "default_config = \<lparr>cfg_image = None, cfg_rootfs = None, cfg_command = None, cfg_timeout = None,
     cfg_interactive = None, cfg_audit_log = None, cfg_log_file = None,
     cfg_network = \<lparr>net_allow = [], net_forward = []\<rparr>, cfg_secrets = [], cfg_mount = [], cfg_env = []\<rparr>"

subsection \<open>Specifications\<close>

definition secret_spec :: "string \<Rightarrow> secret_config \<Rightarrow> string" where
  "secret_spec name s = name @ ''='' @ sc_value s @ '':'' @ join '','' (sc_hosts s)"

definition secret_specs :: "config \<Rightarrow> string list" where
  "secret_specs cfg = map (\<lambda>(name, s). secret_spec name s) (filter (\<lambda>(_, s). sc_hosts s \<noteq> []) (cfg_secrets cfg))"

definition mount_spec :: "mount_config \<Rightarrow> string" where
  "mount_spec m =
     (let base = (case mc_target m of None \<Rightarrow> mc_source m | Some t \<Rightarrow> mc_source m @ '':'' @ t)
      in if mc_read_only m then base @ '':ro'' else base)"

definition mount_specs :: "config \<Rightarrow> string list" where
  "mount_specs cfg = map (\<lambda>(_, m). mount_spec m) (cfg_mount cfg)"

subsection \<open>Layering\<close>

fun add_missing :: "string list \<Rightarrow> string list \<Rightarrow> string list" where
  "add_missing acc [] = acc"
| "add_missing acc (x # xs) = add_missing (if x \<in> set acc then acc else acc @ [x]) xs"

definition or_else :: "'a option \<Rightarrow> 'a option \<Rightarrow> 'a option" where
  "or_else a b = (case a of Some x \<Rightarrow> Some x | None \<Rightarrow> b)"

definition overlay :: "config \<Rightarrow> config \<Rightarrow> config" where
  "overlay base upper =
     (let allow = add_missing (net_allow (cfg_network base)) (net_allow (cfg_network upper));
          forward = add_missing (net_forward (cfg_network base)) (net_forward (cfg_network upper));
          secrets = bt_extend (cfg_secrets base) (cfg_secrets upper);
          mount = bt_extend (cfg_mount base) (cfg_mount upper);
          env = bt_extend (cfg_env base) (cfg_env upper)
      in \<lparr>cfg_image = or_else (cfg_image upper) (cfg_image base),
          cfg_rootfs = or_else (cfg_rootfs upper) (cfg_rootfs base),
          cfg_command = or_else (cfg_command upper) (cfg_command base),
          cfg_timeout = or_else (cfg_timeout upper) (cfg_timeout base),
          cfg_interactive = or_else (cfg_interactive upper) (cfg_interactive base),
          cfg_audit_log = or_else (cfg_audit_log upper) (cfg_audit_log base),
          cfg_log_file = or_else (cfg_log_file upper) (cfg_log_file base),
          cfg_network = \<lparr>net_allow = allow, net_forward = forward\<rparr>,
          cfg_secrets = secrets, cfg_mount = mount, cfg_env = env\<rparr>)"

subsection \<open>Claude settings\<close>

datatype json = J_null | J_bool bool | J_num int | J_str string | J_arr "json list" | J_obj "(string \<times> json) list"

fun json_get :: "string \<Rightarrow> json \<Rightarrow> json option" where
  "json_get k (J_obj kvs) = map_of kvs k"
| "json_get k _ = None"

fun json_array :: "json \<Rightarrow> json list option" where
  "json_array (J_arr js) = Some js"
| "json_array _ = None"

fun json_str :: "json \<Rightarrow> string option" where
  "json_str (J_str s) = Some s"
| "json_str _ = None"

definition read_claude_settings :: "(string \<Rightarrow> json option) \<Rightarrow> host \<Rightarrow> path \<Rightarrow> string list option" where
  "read_claude_settings parse_json h p =
     Option.bind (read_to_string h p) (\<lambda>content.
     Option.bind (parse_json content) (\<lambda>v.
     Option.bind (json_get ''sandbox'' v) (\<lambda>v.
     Option.bind (json_get ''network'' v) (\<lambda>v.
     Option.bind (json_get ''allowedDomains'' v) (\<lambda>v.
     Option.bind (json_array v) (\<lambda>domains. Some (List.map_filter json_str domains)))))))"

definition claude_settings_paths :: "host \<Rightarrow> path list" where
  "claude_settings_paths h =
     [''.claude/settings.local.json'', ''.claude/settings.json'']
     @ (case env_var h ''HOME'' of None \<Rightarrow> []
        | Some home \<Rightarrow> [path_join home ''.claude/settings.local.json'', path_join home ''.claude/settings.json''])"

definition claude_allowed_domains :: "(string \<Rightarrow> json option) \<Rightarrow> host \<Rightarrow> string list" where
  "claude_allowed_domains parse_json h =
     sort_dedup (concat (map (\<lambda>p. case read_claude_settings parse_json h p of None \<Rightarrow> [] | Some d \<Rightarrow> d)
       (claude_settings_paths h)))"

subsection \<open>Discovery\<close>

datatype config_source = Project | User

record discovered_config =
  dc_path :: path
  dc_content :: string
  dc_config :: config
  dc_source :: config_source
  dc_warning :: bool

definition dirs_path :: "host \<Rightarrow> path option" where
  "dirs_path h = map_option (\<lambda>home. path_join home ''.config/redan'') (env_var h ''HOME'')"

definition config_candidates :: "host \<Rightarrow> (path \<times> config_source) list" where
  "config_candidates h =
     (''redan.toml'', Project)
     # (case dirs_path h of None \<Rightarrow> [] | Some d \<Rightarrow> [(path_join d ''config.toml'', User)])"

definition warn_if_world_readable :: "host \<Rightarrow> path \<Rightarrow> bool" where
  "warn_if_world_readable h p = (case entry h p of Some (Regular m r c) \<Rightarrow> world_accessible m | _ \<Rightarrow> False)"

fun discover_in :: "(string \<Rightarrow> config option) \<Rightarrow> host \<Rightarrow> (path \<times> config_source) list \<Rightarrow> exit + discovered_config option" where
  "discover_in parse_toml h [] = Inr None"
| "discover_in parse_toml h ((p, source) # ps) =
     (if \<not> is_file h p then discover_in parse_toml h ps
      else (case read_to_string h p of
          None \<Rightarrow> Inl (Exit 1 (''error: cannot read '' @ p))
        | Some content \<Rightarrow>
            (case parse_toml content of
               None \<Rightarrow> Inl (Exit 1 (''error: failed to parse '' @ p))
             | Some cfg \<Rightarrow>
                 Inr (Some \<lparr>dc_path = p, dc_content = content, dc_config = cfg, dc_source = source,
                            dc_warning = (cfg_secrets cfg \<noteq> [] \<and> warn_if_world_readable h p)\<rparr>))))"

definition discover :: "(string \<Rightarrow> config option) \<Rightarrow> host \<Rightarrow> exit + discovered_config option" where
  "discover parse_toml h = discover_in parse_toml h (config_candidates h)"

subsection \<open>Lemmas\<close>

definition config_ok :: "config \<Rightarrow> bool" where
  "config_ok cfg \<longleftrightarrow> bt_inv (cfg_secrets cfg) \<and> bt_inv (cfg_mount cfg) \<and> bt_inv (cfg_env cfg)"

lemma add_missing_append: "add_missing acc (xs @ ys) = add_missing (add_missing acc xs) ys"
  by (induction acc xs rule: add_missing.induct) auto

lemma add_missing_set: "set (add_missing acc xs) = set acc \<union> set xs"
  by (induction acc xs rule: add_missing.induct) auto

lemma add_missing_ext: "\<exists>zs. add_missing acc xs = acc @ zs \<and> distinct zs \<and> set zs = set xs - set acc"
proof (induction acc xs rule: add_missing.induct)
  case (2 acc x xs)
  show ?case
  proof (cases "x \<in> set acc")
    case True
    then show ?thesis using 2 by auto
  next
    case False
    then obtain zs where "add_missing (acc @ [x]) xs = (acc @ [x]) @ zs" "distinct zs" "set zs = set xs - set (acc @ [x])"
      using 2 by auto
    then show ?thesis using False by (intro exI[of _ "x # zs"]) auto
  qed
qed simp

lemma add_missing_subset: "set xs \<subseteq> set acc \<Longrightarrow> add_missing acc xs = acc"
  by (induction acc xs rule: add_missing.induct) auto

lemma add_missing_snoc: "x \<in> set acc \<Longrightarrow> add_missing acc (xs @ [x]) = add_missing acc xs"
  by (simp add: add_missing_append add_missing_set)

lemma add_missing_assoc: "add_missing (add_missing a b) c = add_missing a (add_missing b c)"
proof (induction c arbitrary: b)
  case (Cons x c)
  show ?case
  proof (cases "x \<in> set b")
    case True
    then show ?thesis using Cons by (simp add: add_missing_set)
  next
    case False
    have "add_missing (add_missing a b) (x # c) = add_missing (add_missing a (b @ [x])) c"
      by (simp add: add_missing_append)
    then show ?thesis using Cons[of "b @ [x]"] False by simp
  qed
qed simp

lemma or_else_assoc: "or_else a (or_else b c) = or_else (or_else a b) c"
  by (simp add: or_else_def split: option.splits)

lemma overlay_ok: "config_ok a \<Longrightarrow> config_ok (overlay a b)"
  by (simp add: config_ok_def overlay_def Let_def bt_simps)

lemma discover_in_Some:
  "discover_in parse_toml h ps = Inr (Some d) \<Longrightarrow>
   (dc_path d, dc_source d) \<in> set ps \<and> read_to_string h (dc_path d) = Some (dc_content d)
   \<and> parse_toml (dc_content d) = Some (dc_config d)"
  by (induction ps) (auto split: if_splits option.splits)

subsection \<open>Properties\<close>

text \<open>
  Layering two configurations. The top layer wins every scalar and every key it sets, the base is
  kept elsewhere; the host and forward lists are the base followed by the new entries of the top,
  without duplicates among them; an empty top changes nothing, and layering is associative, so a
  chain of defaults, file and flags has one meaning.
\<close>
lemma overlay_layers:
  assumes "config_ok a" "config_ok b" "config_ok c"
  shows "overlay (overlay a b) c = overlay a (overlay b c) \<and> overlay a default_config = a
    \<and> map_of (cfg_secrets (overlay a b)) = map_of (cfg_secrets a) ++ map_of (cfg_secrets b)
    \<and> map_of (cfg_mount (overlay a b)) = map_of (cfg_mount a) ++ map_of (cfg_mount b)
    \<and> map_of (cfg_env (overlay a b)) = map_of (cfg_env a) ++ map_of (cfg_env b)
    \<and> (\<exists>new. net_allow (cfg_network (overlay a b)) = net_allow (cfg_network a) @ new
         \<and> distinct new \<and> set new = set (net_allow (cfg_network b)) - set (net_allow (cfg_network a)))
    \<and> cfg_command (overlay a b) = (if cfg_command b = None then cfg_command a else cfg_command b)
    \<and> config_ok (overlay a b)"
proof -
  note ok = assms[unfolded config_ok_def]
  have "overlay (overlay a b) c = overlay a (overlay b c)"
    using ok by (simp add: overlay_def Let_def bt_extend_assoc add_missing_assoc or_else_assoc)
  moreover have "overlay a default_config = a"
    by (simp add: overlay_def default_config_def or_else_def Let_def)
  moreover have "cfg_command (overlay a b) = (if cfg_command b = None then cfg_command a else cfg_command b)"
    by (simp add: overlay_def Let_def or_else_def split: option.splits)
  moreover have "config_ok (overlay a b)" using assms(1) by (rule overlay_ok)
  ultimately show ?thesis
    using ok add_missing_ext[of "net_allow (cfg_network a)" "net_allow (cfg_network b)"]
    by (simp add: overlay_def Let_def bt_simps)
qed

end
