(* ===== verification/Provider.thy ===== *)
theory Provider
  imports Host
begin

text \<open>
  The secret providers of \<^verbatim>\<open>src/src/provider.rs\<close>: literal values, host environment variables and
  Vault KV v2. The HTTP request to Vault and the JSON parsing of its answer are parameters.
\<close>

datatype provider_error = Invalid_input string | Not_found string | Invalid_data string | Other_error string

definition literal_resolve :: "string \<Rightarrow> provider_error + string" where
  "literal_resolve reference = Inr reference"

definition resolve_env_with :: "string \<Rightarrow> (string \<Rightarrow> string option) \<Rightarrow> provider_error + string" where
  "resolve_env_with reference lookup =
     (if reference = [] then Inl (Invalid_input ''env:// variable name cannot be empty'')
      else bindR (ok_or (lookup reference) (Not_found (''environment variable '' @ reference @ '' is not set''))) (\<lambda>value.
        if value = [] then Inl (Invalid_data (''environment variable '' @ reference @ '' is set but empty''))
        else Inr value))"

subsection \<open>Vault\<close>

record vault =
  va_addr :: string
  va_token :: string

definition vault_token :: "host \<Rightarrow> provider_error + string" where
  "vault_token h =
     (case env_var h ''VAULT_TOKEN'' of
        Some t \<Rightarrow> Inr t
      | None \<Rightarrow>
          bindR (ok_or (env_var h ''HOME'') (Not_found ''$HOME not set'')) (\<lambda>home.
          bindR (ok_or (read_to_string h (home @ ''/.vault-token'')) (Other_error ''cannot read the token file''))
            (\<lambda>token. Inr (str_trim token))))"

definition vault_from_env :: "host \<Rightarrow> provider_error + vault" where
  "vault_from_env h =
     (let addr = (case env_var h ''VAULT_ADDR'' of Some a \<Rightarrow> a | None \<Rightarrow> ''http://127.0.0.1:8200'')
      in bindR (vault_token h) (\<lambda>token.
           if token = [] then Inl (Not_found ''no Vault token: set VAULT_TOKEN or write to ~/.vault-token'')
           else Inr \<lparr>va_addr = addr, va_token = token\<rparr>))"

definition vault_api_path :: "string \<Rightarrow> string" where
  "vault_api_path p =
     (case strip_prefix ''secret/'' p of None \<Rightarrow> ''secret/data/'' @ p | Some rest \<Rightarrow> ''secret/data/'' @ rest)"

record vault_client =
  vc_get :: "string \<Rightarrow> string \<Rightarrow> provider_error + string"  \<comment> \<open>URL and token\<close>
  vc_parse :: "string \<Rightarrow> (string \<Rightarrow> string option) option"

definition vault_resolve :: "vault_client \<Rightarrow> vault \<Rightarrow> string \<Rightarrow> provider_error + string" where
  "vault_resolve vc v reference =
     bindR (ok_or (split_once (CHR ''#'') reference)
              (Invalid_input (''vault reference must be path#field, got: '' @ reference))) (\<lambda>(p, field).
     bindR (vc_get vc (va_addr v @ ''/v1/'' @ vault_api_path p) (va_token v)) (\<lambda>body.
     bindR (ok_or (vc_parse vc body) (Other_error ''vault response parse failed'')) (\<lambda>data.
     ok_or (data field) (Not_found (''field '' @ field @ '' not found at vault path '' @ p)))))"

subsection \<open>Dispatch\<close>

definition resolve_secret_value_with ::
  "vault_client \<Rightarrow> host \<Rightarrow> string \<Rightarrow> (string \<Rightarrow> string option) \<Rightarrow> provider_error + string" where
  "resolve_secret_value_with vc h reference env_lookup =
     (case strip_prefix ''vault://'' reference of
        Some vault_ref \<Rightarrow> bindR (vault_from_env h) (\<lambda>v. vault_resolve vc v vault_ref)
      | None \<Rightarrow>
          (case strip_prefix ''env://'' reference of
             Some var_name \<Rightarrow> resolve_env_with var_name env_lookup
           | None \<Rightarrow> literal_resolve reference))"

definition resolve_secret_value :: "vault_client \<Rightarrow> host \<Rightarrow> string \<Rightarrow> provider_error + string" where
  "resolve_secret_value vc h reference = resolve_secret_value_with vc h reference (env_var h)"

text \<open>The references that read nothing of the host.\<close>

definition is_literal :: "string \<Rightarrow> bool" where
  "is_literal r \<longleftrightarrow> strip_prefix ''vault://'' r = None \<and> strip_prefix ''env://'' r = None"

lemma resolve_literal: "is_literal r \<Longrightarrow> resolve_secret_value vc h r = Inr r"
  by (simp add: is_literal_def resolve_secret_value_def resolve_secret_value_with_def literal_resolve_def)

lemma strip_prefix_None: "strip_prefix p s = None \<longleftrightarrow> \<not> prefix p s"
  by (simp add: strip_prefix_def)

subsection \<open>Properties\<close>

text \<open>
  A reference is resolved by exactly one provider, and each outcome is as documented. An
  \<^verbatim>\<open>env://\<close> reference yields the variable's value and is an error when the name is empty, the
  variable is unset or empty; a \<^verbatim>\<open>vault://\<close> reference yields the named field of the answer at the
  KV v2 data path, asked with a nonempty token, the part before the first hash being the path;
  anything else is the value itself. So an empty secret never comes from the environment, and the
  host is read only for the two schemes.
\<close>
lemma resolve_secret_value_spec:
  shows "resolve_secret_value vc h (''env://'' @ name) =
       (if name = [] then Inl (Invalid_input ''env:// variable name cannot be empty'')
        else case env_var h name of
            None \<Rightarrow> Inl (Not_found (''environment variable '' @ name @ '' is not set''))
          | Some v \<Rightarrow> if v = [] then Inl (Invalid_data (''environment variable '' @ name @ '' is set but empty''))
                      else Inr v)
    \<and> (resolve_secret_value vc h (''vault://'' @ ref) = Inr s \<longrightarrow>
         (\<exists>p field v body data. ref = p @ CHR ''#'' # field \<and> CHR ''#'' \<notin> set p \<and> vault_from_env h = Inr v
            \<and> va_token v \<noteq> [] \<and> vc_get vc (va_addr v @ ''/v1/secret/data/'' @
                 (if prefix ''secret/'' p then drop 7 p else p)) (va_token v) = Inr body
            \<and> vc_parse vc body = Some data \<and> data field = Some s))
    \<and> (is_literal r \<longrightarrow> resolve_secret_value vc h r = Inr r)"
proof (intro conjI impI)
  show "resolve_secret_value vc h (''env://'' @ name) =
       (if name = [] then Inl (Invalid_input ''env:// variable name cannot be empty'')
        else case env_var h name of
            None \<Rightarrow> Inl (Not_found (''environment variable '' @ name @ '' is not set''))
          | Some v \<Rightarrow> if v = [] then Inl (Invalid_data (''environment variable '' @ name @ '' is set but empty''))
                      else Inr v)"
    by (simp add: resolve_secret_value_def resolve_secret_value_with_def strip_prefix_def resolve_env_with_def
        split: option.split)
next
  assume "resolve_secret_value vc h (''vault://'' @ ref) = Inr s"
  then obtain v where v: "vault_from_env h = Inr v" "vault_resolve vc v ref = Inr s"
    by (auto simp: resolve_secret_value_def resolve_secret_value_with_def strip_prefix_def res_inv)
  then have "va_token v \<noteq> []" by (auto simp: vault_from_env_def res_inv Let_def split: if_splits)
  moreover obtain p field body data where "split_once (CHR ''#'') ref = Some (p, field)"
      "vc_get vc (va_addr v @ ''/v1/'' @ vault_api_path p) (va_token v) = Inr body"
      "vc_parse vc body = Some data" "data field = Some s"
    using v(2) by (auto simp: vault_resolve_def res_inv)
  moreover have "vault_api_path p = ''secret/data/'' @ (if prefix ''secret/'' p then drop 7 p else p)"
    by (simp add: vault_api_path_def strip_prefix_def numeral_eq_Suc)
  ultimately show "\<exists>p field v body data. ref = p @ CHR ''#'' # field \<and> CHR ''#'' \<notin> set p \<and> vault_from_env h = Inr v
            \<and> va_token v \<noteq> [] \<and> vc_get vc (va_addr v @ ''/v1/secret/data/'' @
                 (if prefix ''secret/'' p then drop 7 p else p)) (va_token v) = Inr body
            \<and> vc_parse vc body = Some data \<and> data field = Some s"
    using v(1) by (intro exI[of _ p] exI[of _ field] exI[of _ v] exI[of _ body] exI[of _ data]) (simp add: split_once_Some)
next
  assume "is_literal r"
  then show "resolve_secret_value vc h r = Inr r" by (rule resolve_literal)
qed

end
