(* ===== verification/Trust.thy ===== *)
theory Trust
  imports Config Provider
begin

text \<open>
  Trust of working-directory configurations, \<^verbatim>\<open>src/src/trust.rs\<close> and \<^verbatim>\<open>src/src/cmd/trust.rs\<close>: the
  capabilities that reach host authority, the trust store (canonical path to content fingerprint),
  and the gate \<^verbatim>\<open>load_config\<close>. SHA-256, the JSON of the store and the line read from the terminal
  are parameters; creating the state directory is part of the write.
\<close>

datatype capability = Cap_rootfs string | Cap_audit_log string | Cap_log_file string | Cap_forward string
| Cap_env_secret (cap_name: string) (cap_var: string) | Cap_vault_secret string string
| Cap_out_of_tree_mount string string string

definition is_within_project :: "host \<Rightarrow> path \<Rightarrow> string \<Rightarrow> bool" where
  "is_within_project h project_root source =
     (case canonical h project_root of
        None \<Rightarrow> False
      | Some root \<Rightarrow>
          (case canonical h (if is_absolute source then source else path_join root source) of
             None \<Rightarrow> False
           | Some c \<Rightarrow> path_starts_with c root))"

definition secret_capability :: "string \<times> secret_config \<Rightarrow> capability list" where
  "secret_capability e =
     (case e of (name, s) \<Rightarrow>
        (case strip_prefix ''env://'' (sc_value s) of
           Some var \<Rightarrow> [Cap_env_secret name var]
         | None \<Rightarrow> (case strip_prefix ''vault://'' (sc_value s) of
             Some reference \<Rightarrow> [Cap_vault_secret name reference]
           | None \<Rightarrow> [])))"

definition mount_capability :: "host \<Rightarrow> path \<Rightarrow> string \<times> mount_config \<Rightarrow> capability list" where
  "mount_capability h project_root e =
     (case e of (name, m) \<Rightarrow>
        if \<not> is_within_project h project_root (mc_source m)
        then [Cap_out_of_tree_mount name (mc_source m) (case mc_target m of Some t \<Rightarrow> t | None \<Rightarrow> ''/workspace'')]
        else [])"

definition analyze :: "host \<Rightarrow> config \<Rightarrow> path \<Rightarrow> capability list" where
  "analyze h cfg project_root =
     (case cfg_rootfs cfg of Some p \<Rightarrow> [Cap_rootfs p] | None \<Rightarrow> [])
     @ (case cfg_audit_log cfg of Some p \<Rightarrow> [Cap_audit_log p] | None \<Rightarrow> [])
     @ (case cfg_log_file cfg of Some p \<Rightarrow> [Cap_log_file p] | None \<Rightarrow> [])
     @ map Cap_forward (net_forward (cfg_network cfg))
     @ concat (map secret_capability (cfg_secrets cfg))
     @ concat (map (mount_capability h project_root) (cfg_mount cfg))"

datatype decision = Load | Prompt | Skip

definition decide :: "bool \<Rightarrow> bool \<Rightarrow> bool \<Rightarrow> decision" where
  "decide needs_trust already_trusted interactive =
     (if \<not> needs_trust \<or> already_trusted then Load else if interactive then Prompt else Skip)"

subsection \<open>The trust store\<close>

type_synonym store = "(string, string) btree"

datatype trust_error = No_store_dir | Cannot_resolve path | Store_write_failed

record trust_env =
  te_sha256 :: "bytes \<Rightarrow> bytes"
  te_parse :: "string \<Rightarrow> store option"
  te_print :: "store \<Rightarrow> string"

definition STORE_FILE :: string where
  "STORE_FILE = ''trust.json''"

definition store_path :: "host \<Rightarrow> path option" where
  "store_path h =
     map_option (\<lambda>base. path_join (path_join base ''redan'') STORE_FILE)
       (case env_var h ''XDG_STATE_HOME'' of
          Some d \<Rightarrow> Some d
        | None \<Rightarrow> map_option (\<lambda>home. path_join home ''.local/state'') (env_var h ''HOME''))"

definition fingerprint :: "trust_env \<Rightarrow> bytes \<Rightarrow> string" where
  "fingerprint env content = ''sha256:'' @ hex_encode (te_sha256 env content)"

definition canonical_key :: "host \<Rightarrow> path \<Rightarrow> string option" where
  "canonical_key h p = map_option from_utf8_lossy (canonical h p)"

definition read_store :: "trust_env \<Rightarrow> host \<Rightarrow> path \<Rightarrow> store" where
  "read_store env h sp =
     (case read_to_string h sp of
        None \<Rightarrow> []
      | Some content \<Rightarrow> (case te_parse env content of Some s \<Rightarrow> s | None \<Rightarrow> []))"

definition with_file_name :: "path \<Rightarrow> string \<Rightarrow> path" where
  "with_file_name p name = (case rsplit_once (CHR ''/'') p of None \<Rightarrow> name | Some (dir, f) \<Rightarrow> dir @ ''/'' @ name)"

definition write_store :: "trust_env \<Rightarrow> host \<Rightarrow> path \<Rightarrow> store \<Rightarrow> trust_error + host" where
  "write_store env h sp s =
     (let tmp = with_file_name sp (STORE_FILE @ ''.tmp'')
      in bindR (ok_or (write_file h tmp (te_print env s)) Store_write_failed) (\<lambda>h.
           ok_or (rename_file h tmp sp) Store_write_failed))"

definition is_trusted_in :: "trust_env \<Rightarrow> host \<Rightarrow> path \<Rightarrow> path \<Rightarrow> bytes \<Rightarrow> bool" where
  "is_trusted_in env h sp config_path content =
     (case canonical_key h config_path of
        None \<Rightarrow> False
      | Some key \<Rightarrow> map_of (read_store env h sp) key = Some (fingerprint env content))"

definition trust_in :: "trust_env \<Rightarrow> host \<Rightarrow> path \<Rightarrow> path \<Rightarrow> bytes \<Rightarrow> trust_error + host" where
  "trust_in env h sp config_path content =
     bindR (ok_or (canonical_key h config_path) (Cannot_resolve config_path)) (\<lambda>key.
       write_store env h sp (bt_insert key (fingerprint env content) (read_store env h sp)))"

definition untrust_in :: "trust_env \<Rightarrow> host \<Rightarrow> path \<Rightarrow> path \<Rightarrow> trust_error + host" where
  "untrust_in env h sp config_path =
     bindR (ok_or (canonical_key h config_path) (Cannot_resolve config_path)) (\<lambda>key.
       write_store env h sp (bt_remove key (read_store env h sp)))"

definition is_trusted :: "trust_env \<Rightarrow> host \<Rightarrow> path \<Rightarrow> bytes \<Rightarrow> bool" where
  "is_trusted env h config_path content =
     (case store_path h of None \<Rightarrow> False | Some sp \<Rightarrow> is_trusted_in env h sp config_path content)"

definition trust :: "trust_env \<Rightarrow> host \<Rightarrow> path \<Rightarrow> bytes \<Rightarrow> trust_error + host" where
  "trust env h config_path content =
     bindR (ok_or (store_path h) No_store_dir) (\<lambda>sp. trust_in env h sp config_path content)"

definition untrust :: "trust_env \<Rightarrow> host \<Rightarrow> path \<Rightarrow> trust_error + host" where
  "untrust env h config_path =
     bindR (ok_or (store_path h) No_store_dir) (\<lambda>sp. untrust_in env h sp config_path)"

subsection \<open>The gate\<close>

fun describe :: "capability \<Rightarrow> string" where
  "describe (Cap_rootfs p) = ''use '' @ p @ '' as the guest root  [exposes that host directory to the guest]''"
| "describe (Cap_audit_log p) = ''write an audit log to host path '' @ p"
| "describe (Cap_log_file p) = ''write logs to host path '' @ p"
| "describe (Cap_forward s) = ''forward port '' @ s @ '' to a host-local service  [reachable from the guest]''"
| "describe (Cap_env_secret name var) =
     ''read host env var $'' @ var @ '' (secret '' @ name @ '')  [reads your shell environment]''"
| "describe (Cap_vault_secret name reference) =
     ''fetch '' @ reference @ '' from Vault (secret '' @ name @ '')  [uses your Vault token]''"
| "describe (Cap_out_of_tree_mount name source target) =
     ''mount '' @ source @ '' -> '' @ target @ ''  [path OUTSIDE the project directory]''"

definition print_capabilities :: "path \<Rightarrow> capability list \<Rightarrow> string list" where
  "print_capabilities p caps = (p @ '' would be allowed to:'') # map (\<lambda>c. ''  - '' @ describe c) caps"

text \<open>The answer is the line read, or nothing when reading fails.\<close>

definition confirm :: "string option \<Rightarrow> bool" where
  "confirm answer =
     (case answer of
        None \<Rightarrow> False
      | Some line \<Rightarrow> let a = to_ascii_lowercase (str_trim line) in a = ''y'' \<or> a = ''yes'')"

definition project_root :: "host \<Rightarrow> path" where
  "project_root h = (case cwd h of Some d \<Rightarrow> d | None \<Rightarrow> ''.'')"

definition load_config ::
  "trust_env \<Rightarrow> (string \<Rightarrow> config option) \<Rightarrow> string option \<Rightarrow> host \<Rightarrow> exit + (path \<times> config) option \<times> host" where
  "load_config env parse_toml answer h =
     bindR (discover parse_toml h) (\<lambda>found.
       case found of
         None \<Rightarrow> Inr (None, h)
       | Some d \<Rightarrow>
           if dc_source d = User then Inr (Some (dc_path d, dc_config d), h)
           else (let caps = analyze h (dc_config d) (project_root h);
                     already_trusted = is_trusted env h (dc_path d) (dc_content d)
                 in case decide (caps \<noteq> []) already_trusted (tty h) of
                      Load \<Rightarrow> Inr (Some (dc_path d, dc_config d), h)
                    | Prompt \<Rightarrow>
                        if confirm answer
                        then Inr (Some (dc_path d, dc_config d),
                                  (case trust env h (dc_path d) (dc_content d) of Inl e \<Rightarrow> h | Inr h' \<Rightarrow> h'))
                        else Inl (Exit 1 (dc_path d @ '' left untrusted; not running.''))
                    | Skip \<Rightarrow> Inl (Exit 1 (dc_path d @ '' needs trust and this is a non-interactive session.''))))"

definition resolve_config_path :: "path option \<Rightarrow> path" where
  "resolve_config_path arg = (case arg of Some p \<Rightarrow> p | None \<Rightarrow> ''redan.toml'')"

definition read_or_exit :: "host \<Rightarrow> path \<Rightarrow> exit + string" where
  "read_or_exit h p = ok_or (read_to_string h p) (Exit 1 (''error: cannot read '' @ p))"

definition trust_cmd ::
  "trust_env \<Rightarrow> (string \<Rightarrow> config option) \<Rightarrow> path option \<Rightarrow> host \<Rightarrow> exit + string list \<times> host" where
  "trust_cmd env parse_toml path_arg h =
     (let p = resolve_config_path path_arg
      in bindR (read_or_exit h p) (\<lambda>content.
         bindR (ok_or (parse_toml content) (Exit 1 (''error: failed to parse '' @ p))) (\<lambda>cfg.
           let caps = analyze h cfg (project_root h);
               shown = (if caps = [] then [p @ '' uses only safe settings (no host access).'']
                        else print_capabilities p caps)
           in case trust env h p content of
                Inl e \<Rightarrow> Inl (Exit 1 ''error: cannot record trust'')
              | Inr h' \<Rightarrow> Inr (shown @ [''trusted '' @ p], h'))))"

definition untrust_cmd :: "trust_env \<Rightarrow> path option \<Rightarrow> host \<Rightarrow> exit + string list \<times> host" where
  "untrust_cmd env path_arg h =
     (let p = resolve_config_path path_arg
      in case untrust env h p of
           Inl e \<Rightarrow> Inl (Exit 1 ''error: cannot update trust store'')
         | Inr h' \<Rightarrow> Inr ([''no longer trusting '' @ p], h'))"


subsection \<open>The store as an interface\<close>

datatype ('p, 'c) trust_op = Grant 'p 'c | Revoke 'p

fun run_ops :: "('s \<Rightarrow> 'o \<Rightarrow> 's option) \<Rightarrow> 'o list \<Rightarrow> 's \<Rightarrow> 's option" where
  "run_ops step [] s = Some s"
| "run_ops step (x # xs) s = Option.bind (step s x) (run_ops step xs)"

text \<open>The decision a history of operations leaves for one file and content: the last operation on
  that file decides.\<close>

fun decided :: "('p \<Rightarrow> 'p \<Rightarrow> bool) \<Rightarrow> ('c \<Rightarrow> 'c \<Rightarrow> bool) \<Rightarrow> ('p, 'c) trust_op list \<Rightarrow> 'p \<Rightarrow> 'c \<Rightarrow> bool \<Rightarrow> bool" where
  "decided same eqc [] q d b = b"
| "decided same eqc (Grant p c # xs) q d b = decided same eqc xs q d (if same p q then eqc c d else b)"
| "decided same eqc (Revoke p # xs) q d b = decided same eqc xs q d (if same p q then False else b)"

locale trust_store =
  fixes ok :: "'s \<Rightarrow> bool"
    and trusted :: "'s \<Rightarrow> 'p \<Rightarrow> 'c \<Rightarrow> bool"
    and step :: "'s \<Rightarrow> ('p, 'c) trust_op \<Rightarrow> 's option"
    and same :: "'s \<Rightarrow> 'p \<Rightarrow> 'p \<Rightarrow> bool"
    and eqc :: "'s \<Rightarrow> 'c \<Rightarrow> 'c \<Rightarrow> bool"
  assumes keeps: "ok s \<Longrightarrow> step s x = Some s' \<Longrightarrow> ok s' \<and> same s' = same s \<and> eqc s' = eqc s"
    and granted: "ok s \<Longrightarrow> step s (Grant p c) = Some s' \<Longrightarrow>
      trusted s' q d \<longleftrightarrow> (if same s p q then eqc s c d else trusted s q d)"
    and revoked: "ok s \<Longrightarrow> step s (Revoke p) = Some s' \<Longrightarrow>
      trusted s' q d \<longleftrightarrow> \<not> same s p q \<and> trusted s q d"
begin

lemma history:
  "ok s \<Longrightarrow> run_ops step xs s = Some s' \<Longrightarrow> trusted s' q d = decided (same s) (eqc s) xs q d (trusted s q d)"
proof (induction xs arbitrary: s)
  case (Cons x xs)
  then obtain s1 where s1: "step s x = Some s1" "run_ops step xs s1 = Some s'"
    by (cases "step s x") auto
  note k = keeps[OF Cons.prems(1) s1(1)]
  have "trusted s' q d = decided (same s) (eqc s) xs q d (trusted s1 q d)"
    using Cons.IH[OF _ s1(2)] k by simp
  then show ?case
    using granted[OF Cons.prems(1)] revoked[OF Cons.prems(1)] s1(1) by (cases x) auto
qed simp

end

text \<open>The store of the program: one step of the command line on the host.\<close>

definition trust_step :: "trust_env \<times> host \<Rightarrow> (path, bytes) trust_op \<Rightarrow> (trust_env \<times> host) option" where
  "trust_step s x =
     (case s of (env, h) \<Rightarrow>
        (case (case x of Grant p c \<Rightarrow> trust env h p c | Revoke p \<Rightarrow> untrust env h p) of
           Inl e \<Rightarrow> None
         | Inr h' \<Rightarrow> Some (env, h')))"

text \<open>What is relied on of the JSON library: the store is read back as it was written.\<close>

definition store_ok :: "trust_env \<times> host \<Rightarrow> bool" where
  "store_ok s \<longleftrightarrow> store_path (snd s) \<noteq> None
     \<and> (\<forall>m. te_parse (fst s) (te_print (fst s) m) = Some m \<and> utf8_valid (te_print (fst s) m))"

definition same_file :: "trust_env \<times> host \<Rightarrow> path \<Rightarrow> path \<Rightarrow> bool" where
  "same_file s p q \<longleftrightarrow> canonical_key (snd s) p \<noteq> None \<and> canonical_key (snd s) p = canonical_key (snd s) q"

definition same_content :: "trust_env \<times> host \<Rightarrow> bytes \<Rightarrow> bytes \<Rightarrow> bool" where
  "same_content s c d \<longleftrightarrow> te_sha256 (fst s) c = te_sha256 (fst s) d"

lemma hex_digit_inj: "a < 16 \<Longrightarrow> b < 16 \<Longrightarrow> hex_digit a = hex_digit b \<Longrightarrow> a = b"
  by (auto simp: hex_digit_def split: if_splits dest!: arg_cong[where f = char_code])

lemma hex_encode_inj: "hex_encode a = hex_encode b \<Longrightarrow> a = b"
proof (induction a arbitrary: b)
  case Nil
  then show ?case by (cases b) (auto simp: hex_encode_def hex_byte_def)
next
  case (Cons x a)
  then obtain y b' where b: "b = y # b'" by (cases b) (auto simp: hex_encode_def hex_byte_def)
  have "hex_digit (char_code x div 16) = hex_digit (char_code y div 16)"
    "hex_digit (char_code x mod 16) = hex_digit (char_code y mod 16)" "hex_encode a = hex_encode b'"
    using Cons.prems b by (auto simp: hex_encode_def hex_byte_def)
  moreover have "char_code z div 16 < 16" for z using char_code_less[of z] by linarith
  ultimately have "char_code x div 16 = char_code y div 16" "char_code x mod 16 = char_code y mod 16" "a = b'"
    using hex_digit_inj Cons.IH by auto
  then show ?case using b by (metis char_code_inj div_mult_mod_eq)
qed

lemma fingerprint_eq: "fingerprint env c = fingerprint env d \<longleftrightarrow> te_sha256 env c = te_sha256 env d"
  by (auto simp: fingerprint_def dest: hex_encode_inj)

lemma write_store_read:
  assumes "write_store env h sp m = Inr h'" "te_parse env (te_print env m) = Some m" "utf8_valid (te_print env m)"
  shows "read_store env h' sp = m \<and> canonical h' = canonical h \<and> env_var h' = env_var h"
proof -
  let ?tmp = "with_file_name sp (STORE_FILE @ ''.tmp'')"
  obtain h1 where h1: "write_file h ?tmp (te_print env m) = Some h1" "rename_file h1 ?tmp sp = Some h'"
    using assms(1) by (auto simp: write_store_def Let_def res_inv)
  then obtain mode where "entry h1 ?tmp = Some (Regular mode True (te_print env m))"
    by (auto simp: write_file_def split: if_splits)
  then show ?thesis
    using h1 assms(2,3) by (auto simp: write_file_def rename_file_def read_store_def read_to_string_def split: if_splits)
qed

lemma store_path_env: "env_var h' = env_var h \<Longrightarrow> store_path h' = store_path h"
  by (simp only: store_path_def)

lemma canonical_key_cong: "canonical h' = canonical h \<Longrightarrow> canonical_key h' = canonical_key h"
  by (rule ext) (simp add: canonical_key_def)

lemma trust_step_spec:
  assumes ok: "store_ok (env, h)" and r: "trust_step (env, h) x = Some (env', h')"
  shows "env' = env \<and> canonical h' = canonical h \<and> env_var h' = env_var h
    \<and> (\<exists>sp key. store_path h = Some sp
        \<and> (case x of Grant p c \<Rightarrow> canonical_key h p = Some key
               \<and> read_store env h' sp = bt_insert key (fingerprint env c) (read_store env h sp)
           | Revoke p \<Rightarrow> canonical_key h p = Some key \<and> read_store env h' sp = bt_remove key (read_store env h sp)))"
proof -
  obtain sp where sp: "store_path h = Some sp" using ok by (auto simp: store_ok_def)
  have rt: "te_parse env (te_print env m) = Some m" "utf8_valid (te_print env m)" for m
    using ok by (simp_all add: store_ok_def)
  show ?thesis
  proof (cases x)
    case (Grant p c)
    have e: "env' = env" "trust_in env h sp p c = Inr h'"
      using r sp Grant by (simp_all add: trust_step_def trust_def split: sum.splits)
    then obtain key where k: "canonical_key h p = Some key"
        "write_store env h sp (bt_insert key (fingerprint env c) (read_store env h sp)) = Inr h'"
      unfolding trust_in_def bindR_Inr ok_or_Inr by blast
    show ?thesis unfolding Grant using write_store_read[OF k(2) rt] k(1) e(1) sp by simp
  next
    case (Revoke p)
    have e: "env' = env" "untrust_in env h sp p = Inr h'"
      using r sp Revoke by (simp_all add: trust_step_def untrust_def split: sum.splits)
    then obtain key where k: "canonical_key h p = Some key"
        "write_store env h sp (bt_remove key (read_store env h sp)) = Inr h'"
      unfolding untrust_in_def bindR_Inr ok_or_Inr by blast
    show ?thesis unfolding Revoke using write_store_read[OF k(2) rt] k(1) e(1) sp by simp
  qed
qed

interpretation ts: trust_store store_ok "\<lambda>s. is_trusted (fst s) (snd s)" trust_step same_file same_content
proof (unfold_locales, goal_cases)
  case (1 s x s')
  obtain env h env' h' where s: "s = (env, h)" "s' = (env', h')" by fastforce
  show ?case
    using trust_step_spec[of env h x env' h'] 1 s store_path_env[of h' h] canonical_key_cong[of h' h]
    by (simp add: store_ok_def same_file_def[abs_def] same_content_def[abs_def])
next
  case (2 s p c s' q d)
  obtain env h env' h' where s: "s = (env, h)" "s' = (env', h')" by fastforce
  show ?case
    using trust_step_spec[of env h "Grant p c" env' h'] 2 s store_path_env[of h' h] canonical_key_cong[of h' h]
    by (auto simp: is_trusted_def is_trusted_in_def same_file_def same_content_def bt_simps fingerprint_eq split: option.splits)
next
  case (3 s p s' q d)
  obtain env h env' h' where s: "s = (env, h)" "s' = (env', h')" by fastforce
  show ?case
    using trust_step_spec[of env h "Revoke p" env' h'] 3 s store_path_env[of h' h] canonical_key_cong[of h' h]
    by (auto simp: is_trusted_def is_trusted_in_def same_file_def bt_simps split: option.splits if_splits)
qed


subsection \<open>The classification\<close>

lemma is_within_project_iff:
  "is_within_project h root source \<longleftrightarrow>
     (\<exists>r c below. canonical h root = Some r \<and> canonical h (if is_absolute source then source else path_join r source) = Some c
        \<and> is_absolute c = is_absolute r \<and> components c = components r @ below)"
  by (auto simp: is_within_project_def path_starts_with_def list_prefix_iff split: option.splits)

lemma secret_capability_Nil: "secret_capability e = [] \<longleftrightarrow> is_literal (sc_value (snd e))"
  by (auto simp: secret_capability_def is_literal_def split: prod.splits option.splits)

lemma mount_capability_Nil: "mount_capability h root e = [] \<longleftrightarrow> is_within_project h root (mc_source (snd e))"
  by (auto simp: mount_capability_def split: prod.splits option.splits)

lemma analyze_Nil:
  "analyze h cfg root = [] \<longleftrightarrow> cfg_rootfs cfg = None \<and> cfg_audit_log cfg = None \<and> cfg_log_file cfg = None
     \<and> net_forward (cfg_network cfg) = []
     \<and> list_all (\<lambda>e. is_literal (sc_value (snd e))) (cfg_secrets cfg)
     \<and> list_all (\<lambda>e. is_within_project h root (mc_source (snd e))) (cfg_mount cfg)"
  by (auto simp: analyze_def list_all_iff secret_capability_Nil mount_capability_Nil concat_eq_Nil_conv
      split: option.splits)

lemma load_config_returns:
  assumes "load_config env parse_toml answer h = Inr (Some (p, cfg), h')"
  obtains d where "discover parse_toml h = Inr (Some d)" "p = dc_path d" "cfg = dc_config d"
    "(dc_path d, dc_source d) \<in> set (config_candidates h)" "read_to_string h (dc_path d) = Some (dc_content d)"
    "parse_toml (dc_content d) = Some (dc_config d)"
    "if dc_source d = User \<or> analyze h (dc_config d) (project_root h) = [] \<or> is_trusted env h (dc_path d) (dc_content d) then h' = h
     else tty h \<and> confirm answer \<and> (h' = h \<or> trust env h (dc_path d) (dc_content d) = Inr h')"
proof -
  obtain d where d: "discover parse_toml h = Inr (Some d)"
    using assms by (auto simp: load_config_def bindR_Inr split: option.splits)
  have f: "(dc_path d, dc_source d) \<in> set (config_candidates h)" "read_to_string h (dc_path d) = Some (dc_content d)"
    "parse_toml (dc_content d) = Some (dc_config d)"
    using discover_in_Some d unfolding discover_def by blast+
  have r: "p = dc_path d" "cfg = dc_config d"
    "if dc_source d = User \<or> analyze h (dc_config d) (project_root h) = [] \<or> is_trusted env h (dc_path d) (dc_content d) then h' = h
     else tty h \<and> confirm answer \<and> (h' = h \<or> trust env h (dc_path d) (dc_content d) = Inr h')"
    using assms d by (auto simp: load_config_def bindR_Inr decide_def Let_def split: if_splits sum.splits)
  show thesis by (rule that[OF d r(1,2) f r(3)])
qed

subsection \<open>Properties\<close>

text \<open>
  C20: the gate asks for consent. When a configuration is returned, it is one of the candidate
  files, parsed from exactly the bytes that were hashed; and it is the user's own, or needs no
  capability, or these bytes are recorded as trusted for this file, or an interactive user answered
  yes. In the last case only is the store changed, by one grant for these bytes.
\<close>
theorem load_config_consent:
  assumes "load_config env parse_toml answer h = Inr (Some (p, cfg), h')"
  shows "\<exists>content source. (p, source) \<in> set (config_candidates h) \<and> read_to_string h p = Some content
    \<and> parse_toml content = Some cfg
    \<and> (if source = User \<or> analyze h cfg (project_root h) = [] \<or> is_trusted env h p content then h' = h
       else tty h \<and> confirm answer \<and> (h' = h \<or> trust env h p content = Inr h'))"
  by (rule load_config_returns[OF assms]) blast

definition demo_trust_env :: trust_env where
  "demo_trust_env = \<lparr>te_sha256 = (\<lambda>c. take 4 c), te_parse = (\<lambda>_. None), te_print = (\<lambda>_. [])\<rparr>"

definition demo_config :: config where
  "demo_config = default_config\<lparr>cfg_secrets := [(''K'', \<lparr>sc_value = ''env://AWS'', sc_hosts = [''a.test'']\<rparr>)]\<rparr>"

definition demo_project :: host where
  "demo_project = \<lparr>env_var = (\<lambda>_. None),
     entry = (\<lambda>p. if p = ''redan.toml'' then Some (Regular 420 True ''toml'') else None),
     canonical = (\<lambda>p. Some (''/w/'' @ p)), writable = (\<lambda>_. True), cwd = Some ''/w'', tty = True\<rparr>"

theorem load_config_consent_witness:
  "analyze demo_project demo_config (project_root demo_project) \<noteq> [] \<and> confirm (Some ''Yes'')
   \<and> (\<exists>content. read_to_string demo_project ''redan.toml'' = Some content)"
proof -
  have "utf8_valid ''toml''" by code_simp
  then obtain w where d: "discover (\<lambda>_. Some demo_config) demo_project
      = Inr (Some \<lparr>dc_path = ''redan.toml'', dc_content = ''toml'', dc_config = demo_config, dc_source = Project, dc_warning = w\<rparr>)"
    by (simp add: discover_def config_candidates_def is_file_def read_to_string_def demo_project_def)
  have c: "analyze demo_project demo_config (project_root demo_project) \<noteq> []" "confirm (Some ''Yes'')" "tty demo_project"
    "\<not> is_trusted demo_trust_env demo_project ''redan.toml'' ''toml''"
    by (code_simp, (simp add: confirm_def trim_graphic graphic_def char_code_def, code_simp), code_simp+)
  then obtain h' where r: "load_config demo_trust_env (\<lambda>_. Some demo_config) (Some ''Yes'') demo_project
      = Inr (Some (''redan.toml'', demo_config), h')"
    by (simp add: load_config_def d decide_def)
  from load_config_consent[OF r] obtain content source where
    "read_to_string demo_project ''redan.toml'' = Some content" by blast
  with c show ?thesis by blast
qed

text \<open>
  The safe subset is exactly what it is said to be. A configuration needs no trust iff it sets no
  root, audit log or log file, forwards no port, all its secret values are literals, and every mount
  source resolves to a path inside the resolved project directory, component by component.
\<close>
lemma analyze_safe_subset:
  "analyze h cfg root = [] \<longleftrightarrow> cfg_rootfs cfg = None \<and> cfg_audit_log cfg = None \<and> cfg_log_file cfg = None
     \<and> net_forward (cfg_network cfg) = []
     \<and> list_all (\<lambda>(name, s). is_literal (sc_value s)) (cfg_secrets cfg)
     \<and> list_all (\<lambda>(name, m). \<exists>r c below. canonical h root = Some r
          \<and> canonical h (if is_absolute (mc_source m) then mc_source m else path_join r (mc_source m)) = Some c
          \<and> is_absolute c = is_absolute r \<and> components c = components r @ below) (cfg_mount cfg)"
  unfolding analyze_Nil is_within_project_iff by (simp add: case_prod_beta')

text \<open>
  C22: the trust store remembers the last decision. After any history of grants and revocations, a
  file with given contents is trusted iff the last operation on that file (under any name with the
  same canonical path) granted contents with the same SHA-256, or there was none and it was trusted
  before: an edit invalidates trust, a revocation removes it, and other files are not affected.
\<close>
theorem trust_decisions:
  assumes "store_ok (env, h)" "run_ops trust_step history (env, h) = Some (env', h')"
  shows "is_trusted env' h' p content
    = decided (same_file (env, h)) (same_content (env, h)) history p content (is_trusted env h p content)"
  using ts.history[OF assms, of p content] by simp

text \<open>A concrete store format: hexadecimal pairs, each closed by a semicolon.\<close>

definition demo_print :: "store \<Rightarrow> string" where
  "demo_print m = concat (map (\<lambda>(k, v). hex_encode k @ CHR ''='' # hex_encode v @ '';'') m)"

definition unhex_digit :: "char \<Rightarrow> nat" where
  "unhex_digit c = (if is_ascii_digit c then char_code c - 48 else char_code c - 87)"

fun unhex :: "string \<Rightarrow> bytes" where
  "unhex (a # b # s) = char_of (16 * unhex_digit a + unhex_digit b) # unhex s"
| "unhex s = []"

definition demo_parse :: "string \<Rightarrow> store option" where
  "demo_parse s = Some (List.map_filter (\<lambda>e. map_option (\<lambda>(k, v). (unhex k, unhex v)) (split_once (CHR ''='') e))
     (split_on (CHR '';'') s))"

lemma unhex_hex_digit: "n < 16 \<Longrightarrow> unhex_digit (hex_digit n) = n"
  by (auto simp: unhex_digit_def hex_digit_def ascii_defs)

lemma unhex_hex_encode: "unhex (hex_encode bs) = bs"
proof (induction bs)
  case (Cons b bs)
  have "char_code b div 16 < 16" using char_code_less[of b] by linarith
  then have "char_of (16 * unhex_digit (hex_digit (char_code b div 16)) + unhex_digit (hex_digit (char_code b mod 16))) = b"
    by (simp add: unhex_hex_digit)
  then show ?case using Cons by (simp add: hex_encode_def hex_byte_def)
qed (simp add: hex_encode_def)

lemma notin_hex: "\<not> is_ascii_hexdigit c \<Longrightarrow> c \<notin> set (hex_encode bs)"
  using hex_encode_hexdigits[of bs] by (auto simp: list_all_iff)

lemma demo_parse_print: "demo_parse (demo_print m) = Some m"
proof -
  have h: "\<not> is_ascii_hexdigit (CHR '';'')" "\<not> is_ascii_hexdigit (CHR ''='')" by code_simp+
  have "split_on (CHR '';'') (demo_print m) = map (\<lambda>(k, v). hex_encode k @ CHR ''='' # hex_encode v) m @ [[]]"
  proof (induction m)
    case (Cons x m)
    obtain k v where x: "x = (k, v)" by fastforce
    have "CHR '';'' \<notin> set (hex_encode k @ CHR ''='' # hex_encode v)" using notin_hex[OF h(1)] by simp
    from split_on_append[OF this, of "demo_print m"] show ?case using Cons x by (simp add: demo_print_def)
  qed (simp add: demo_print_def)
  then show ?thesis
    by (simp add: demo_parse_def map_filter_def split_once_append[OF notin_hex[OF h(2)]] unhex_hex_encode
        comp_def case_prod_beta' filter_empty_conv)
qed

lemma demo_print_valid: "utf8_valid (demo_print m)"
proof -
  have "list_all is_ascii_hexdigit s \<Longrightarrow> is_ascii s" for s
    by (auto simp: is_ascii_def list_all_iff ascii_defs)
  then have "is_ascii (demo_print m)"
    using hex_encode_hexdigits by (auto simp: demo_print_def is_ascii_def list_all_iff char_code_def split: prod.splits)
  then show ?thesis by (rule utf8_valid_ascii)
qed

definition demo_store_env :: trust_env where
  "demo_store_env = \<lparr>te_sha256 = (\<lambda>c. take 4 c), te_parse = demo_parse, te_print = demo_print\<rparr>"

definition demo_home :: host where
  "demo_home = demo_project\<lparr>env_var := (\<lambda>v. if v = ''HOME'' then Some ''/h'' else None)\<rparr>"

theorem trust_decisions_witness:
  "\<exists>env h. run_ops trust_step [Grant ''redan.toml'' ''v1'', Grant ''other.toml'' ''v2''] (demo_store_env, demo_home) = Some (env, h)
     \<and> is_trusted env h ''redan.toml'' ''v1'' \<and> \<not> is_trusted env h ''redan.toml'' ''v2''"
proof -
  let ?ops = "[Grant ''redan.toml'' ''v1'', Grant ''other.toml'' ''v2''] :: (path, bytes) trust_op list"
  have ok: "store_ok (demo_store_env, demo_home)"
    by (simp add: store_ok_def demo_store_env_def demo_parse_print demo_print_valid store_path_def demo_home_def)
  have "case run_ops trust_step ?ops (demo_store_env, demo_home) of Some s \<Rightarrow> True | None \<Rightarrow> False" by code_simp
  then obtain env h where r: "run_ops trust_step ?ops (demo_store_env, demo_home) = Some (env, h)"
    by (auto split: option.splits)
  have "decided (same_file (demo_store_env, demo_home)) (same_content (demo_store_env, demo_home)) ?ops ''redan.toml'' ''v1'' b"
    "\<not> decided (same_file (demo_store_env, demo_home)) (same_content (demo_store_env, demo_home)) ?ops ''redan.toml'' ''v2'' b" for b
    by (cases b, code_simp, code_simp)+
  with trust_decisions[OF ok r] r show ?thesis by blast
qed

end
