(* ===== verification/ByteReplace.thy ===== *)
theory ByteReplace
  imports Prelude
begin

text \<open>
  The byte replacement of \<^verbatim>\<open>src/src/secret.rs\<close> (\<^verbatim>\<open>byte_replace\<close>), the index loop that both the
  injection and the scrubbing of secrets run, and its reference: \<open>greedy s p\<close> replaces the
  leftmost non-overlapping occurrences of \<open>s\<close> by \<open>p\<close> in one structural pass. The second half is
  the theory the scrubbing theorems rest on: \<open>gaps s x\<close> cuts \<open>x\<close> at the replaced occurrences, and
  \<open>fence s p\<close> says that the replacement \<open>p\<close> can neither contain a piece of \<open>s\<close> at its borders nor
  be hidden in \<open>s\<close>, so that a replacement never creates a new occurrence.
\<close>

subsection \<open>The loop of \<^verbatim>\<open>byte_replace\<close>\<close>

function byte_replace_loop ::
  "bytes \<Rightarrow> bytes \<Rightarrow> bytes \<Rightarrow> nat \<Rightarrow> nat \<Rightarrow> bytes \<Rightarrow> nat \<Rightarrow> nat \<times> bytes \<times> nat" where
  "byte_replace_loop haystack needle replacement i last_end result count =
     (if needle \<noteq> [] \<and> i + length needle \<le> length haystack then
        (if take (length needle) (drop i haystack) = needle
         then byte_replace_loop haystack needle replacement (i + length needle) (i + length needle)
                (result @ drop last_end (take i haystack) @ replacement) (count + 1)
         else byte_replace_loop haystack needle replacement (i + 1) last_end result count)
      else (last_end, result, count))"
  by pat_completeness auto
termination
  by (relation "measure (\<lambda>(haystack, needle, replacement, i, last_end, result, count).
        length haystack - i)") (auto simp: neq_Nil_conv)

declare byte_replace_loop.simps [simp del]

definition byte_replace :: "bytes \<Rightarrow> bytes \<Rightarrow> bytes \<Rightarrow> (bytes \<times> nat) option" where
  "byte_replace haystack needle replacement =
     (if needle = [] \<or> length haystack < length needle then None
      else (case byte_replace_loop haystack needle replacement 0 0 [] 0 of
              (last_end, result, count) \<Rightarrow>
                if count = 0 then None else Some (result @ drop last_end haystack, count)))"

subsection \<open>The reference\<close>

function greedy :: "'a list \<Rightarrow> 'a list \<Rightarrow> 'a list \<Rightarrow> 'a list" where
  "greedy s p [] = []"
| "greedy s p (x # xs) =
     (if s \<noteq> [] \<and> prefix s (x # xs) then p @ greedy s p (drop (length s) (x # xs))
      else x # greedy s p xs)"
  by pat_completeness auto
termination by (relation "measure (\<lambda>(s, p, x). length x)") (auto simp: neq_Nil_conv)

function occurrences :: "'a list \<Rightarrow> 'a list \<Rightarrow> nat" where
  "occurrences s [] = 0"
| "occurrences s (x # xs) =
     (if s \<noteq> [] \<and> prefix s (x # xs) then 1 + occurrences s (drop (length s) (x # xs))
      else occurrences s xs)"
  by pat_completeness auto
termination by (relation "measure (\<lambda>(s, x). length x)") (auto simp: neq_Nil_conv)

declare greedy.simps(2) [simp del] occurrences.simps(2) [simp del]

lemma greedy_match: "s \<noteq> [] \<Longrightarrow> greedy s p (s @ r) = p @ greedy s p r"
  by (cases s) (auto simp: greedy.simps(2))

lemma greedy_skip: "\<not> prefix s (x # xs) \<Longrightarrow> greedy s p (x # xs) = x # greedy s p xs"
  by (simp add: greedy.simps(2))

lemma greedy_short: "s \<noteq> [] \<Longrightarrow> length x < length s \<Longrightarrow> greedy s p x = x"
proof (induction x)
  case (Cons a x)
  then have "\<not> prefix s (a # x)" by (auto dest: prefix_length_le)
  with Cons show ?case by (simp add: greedy_skip)
qed simp

lemma occurrences_match: "s \<noteq> [] \<Longrightarrow> occurrences s (s @ r) = 1 + occurrences s r"
  by (cases s) (auto simp: occurrences.simps(2))

lemma occurrences_skip: "\<not> prefix s (x # xs) \<Longrightarrow> occurrences s (x # xs) = occurrences s xs"
  by (simp add: occurrences.simps(2))

lemma occurrences_short: "s \<noteq> [] \<Longrightarrow> length x < length s \<Longrightarrow> occurrences s x = 0"
proof (induction x)
  case (Cons a x)
  then have "\<not> prefix s (a # x)" by (auto dest: prefix_length_le)
  with Cons show ?case by (simp add: occurrences_skip)
qed simp

lemma occurrences_zero: "s \<noteq> [] \<Longrightarrow> occurrences s x = 0 \<longleftrightarrow> \<not> sublist s x"
proof (induction s x rule: occurrences.induct)
  case (2 s x xs)
  then show ?case
    by (cases "prefix s (x # xs)") (auto simp: occurrences.simps(2) sublist_Cons_right)
qed simp

lemma greedy_clean: "\<not> sublist s x \<Longrightarrow> greedy s p x = x"
  by (induction x) (auto simp: greedy_skip sublist_Cons_right)

lemma length_greedy:
  "length (greedy s p x) + occurrences s x * length s = length x + occurrences s x * length p"
proof (induction s p x rule: greedy.induct)
  case (2 s p x xs)
  show ?case
  proof (cases "s \<noteq> [] \<and> prefix s (x # xs)")
    case True
    then obtain r where r: "x # xs = s @ r" "s \<noteq> []" by (auto simp: prefix_def)
    with 2(1)[OF True] show ?thesis by (simp add: greedy_match occurrences_match)
  next
    case False
    with 2(2)[OF False] show ?thesis by (auto simp: greedy.simps(2) occurrences.simps(2))
  qed
qed simp

text \<open>The loop computes the reference: with the copied prefix \<open>take last_end\<close> already in
  \<open>result\<close>, it appends the rest of the haystack with the remaining occurrences replaced.\<close>

lemma drop_split_slice: "l \<le> i \<Longrightarrow> drop l x = drop l (take i x) @ drop i x"
  by (metis append_take_drop_id drop_append drop_drop le_add_diff_inverse2 min.absorb2
      drop_take take_drop)

lemma take_drop_prefix: "take (length n) (drop i h) = n \<longleftrightarrow> prefix n (drop i h)"
  by (metis append_eq_conv_conj prefix_def take_is_prefix)

lemma byte_replace_loop_greedy:
  "byte_replace_loop h n r i l res c = (l', res', c') \<Longrightarrow> n \<noteq> [] \<Longrightarrow> l \<le> i \<Longrightarrow> i \<le> length h \<Longrightarrow>
   res' @ drop l' h = res @ drop l (take i h) @ greedy n r (drop i h)
   \<and> c' = c + occurrences n (drop i h)"
proof (induction h n r i l res c rule: byte_replace_loop.induct)
  case (1 h n r i l res c)
  show ?case
  proof (cases "i + length n \<le> length h")
    case fits: True
    show ?thesis
    proof (cases "prefix n (drop i h)")
      case True
      then have d: "drop i h = n @ drop (i + length n) h"
        by (metis add.commute append_eq_conv_conj drop_drop prefix_def)
      have "byte_replace_loop h n r (i + length n) (i + length n)
              (res @ drop l (take i h) @ r) (c + 1) = (l', res', c')"
        using "1.prems" fits True by (subst (asm) byte_replace_loop.simps) (simp add: take_drop_prefix)
      then have "res' @ drop l' h = res @ drop l (take i h) @ r @ greedy n r (drop (i + length n) h)
          \<and> c' = c + 1 + occurrences n (drop (i + length n) h)"
        using "1.IH"(1) "1.prems" fits True by (auto simp: take_drop_prefix)
      then show ?thesis
        using "1.prems"(2) by (simp add: d greedy_match occurrences_match)
    next
      case False
      have i: "i < length h" using fits "1.prems"(2) by (cases n) auto
      then have d: "drop i h = h ! i # drop (Suc i) h" by (simp add: Cons_nth_drop_Suc)
      have s: "drop l (take (Suc i) h) = drop l (take i h) @ [h ! i]"
        using i "1.prems"(3) by (simp add: take_Suc_conv_app_nth)
      have "byte_replace_loop h n r (Suc i) l res c = (l', res', c')"
        using "1.prems" fits False by (subst (asm) byte_replace_loop.simps) (simp add: take_drop_prefix)
      then show ?thesis
        using "1.IH"(2) "1.prems" fits False i
        by (auto simp: take_drop_prefix[of n i h, unfolded d] s d greedy_skip occurrences_skip)
    qed
  next
    case False
    then have short: "length (drop i h) < length n" using "1.prems"(4) by simp
    show ?thesis
      using "1.prems" False
      by (subst (asm) byte_replace_loop.simps)
         (auto simp: greedy_short[OF "1.prems"(2) short] occurrences_short[OF "1.prems"(2) short]
            intro: drop_split_slice)
  qed
qed

lemma byte_replace_greedy:
  "byte_replace haystack needle replacement =
     (if needle = [] \<or> occurrences needle haystack = 0 then None
      else Some (greedy needle replacement haystack, occurrences needle haystack))"
proof (cases "needle = [] \<or> length haystack < length needle")
  case True
  then show ?thesis
    using occurrences_short[of needle haystack] by (cases "needle = []") (auto simp: byte_replace_def)
next
  case False
  obtain l r c where loop: "byte_replace_loop haystack needle replacement 0 0 [] 0 = (l, r, c)"
    using prod_cases3 by blast
  with False byte_replace_loop_greedy[OF loop] show ?thesis
    by (auto simp: byte_replace_def)
qed

subsection \<open>Gaps and fences\<close>

text \<open>\<open>gaps s x\<close> are the pieces of \<open>x\<close> between the occurrences that \<open>greedy\<close> replaces.\<close>

function gaps :: "'a list \<Rightarrow> 'a list \<Rightarrow> 'a list list" where
  "gaps s [] = [[]]"
| "gaps s (x # xs) =
     (if s \<noteq> [] \<and> prefix s (x # xs) then [] # gaps s (drop (length s) (x # xs))
      else (case gaps s xs of [] \<Rightarrow> [[x]] | g # gs \<Rightarrow> (x # g) # gs))"
  by pat_completeness auto
termination by (relation "measure (\<lambda>(s, x). length x)") (auto simp: neq_Nil_conv)

declare gaps.simps(2) [simp del]

fun join_list :: "'a list \<Rightarrow> 'a list list \<Rightarrow> 'a list" where
  "join_list sep [] = []"
| "join_list sep [x] = x"
| "join_list sep (x # y # ys) = x @ sep @ join_list sep (y # ys)"

lemma join_list_Cons: "gs \<noteq> [] \<Longrightarrow> join_list sep (g # gs) = g @ sep @ join_list sep gs"
  by (cases gs) auto

lemma join_list_Cons_Cons: "join_list sep ((x # g) # gs) = x # join_list sep (g # gs)"
  by (cases gs) auto

lemma gaps_not_Nil [simp]: "gaps s x \<noteq> []"
  by (cases x) (auto simp: gaps.simps(2) split: list.splits)

lemma gaps_match: "s \<noteq> [] \<Longrightarrow> gaps s (s @ r) = [] # gaps s r"
  by (cases s) (auto simp: gaps.simps(2))

lemma gaps_skip: "\<not> prefix s (x # xs) \<Longrightarrow> gaps s (x # xs) = (x # hd (gaps s xs)) # tl (gaps s xs)"
  by (cases "gaps s xs") (auto simp: gaps.simps(2))

lemma gaps_Cons_cases:
  assumes "s \<noteq> []"
  obtains (hit) r where "x # xs = s @ r" "gaps s (x # xs) = [] # gaps s r"
      "greedy s p (x # xs) = p @ greedy s p r" "r = drop (length s) (x # xs)" "prefix s (x # xs)"
  | (miss) g gs where "\<not> prefix s (x # xs)" "gaps s xs = g # gs" "gaps s (x # xs) = (x # g) # gs"
      "greedy s p (x # xs) = x # greedy s p xs"
proof (cases "prefix s (x # xs)")
  case True
  then obtain r where r: "x # xs = s @ r" by (auto simp: prefix_def)
  show thesis
    by (rule hit[of r]) (use True r assms in \<open>simp_all add: gaps_match greedy_match\<close>)
next
  case False
  obtain g gs where "gaps s xs = g # gs" using gaps_not_Nil neq_Nil_conv by metis
  with False show thesis by (intro miss) (simp_all add: gaps_skip greedy_skip)
qed

lemma join_gaps: "s \<noteq> [] \<Longrightarrow> join_list s (gaps s x) = x"
proof (induction s x rule: gaps.induct)
  case (2 s x xs)
  show ?case
    by (rule gaps_Cons_cases[OF 2(3), of x xs])
       (use 2 in \<open>auto simp: join_list_Cons join_list_Cons_Cons\<close>)
qed simp

lemma greedy_join_gaps: "s \<noteq> [] \<Longrightarrow> greedy s p x = join_list p (gaps s x)"
proof (induction s x rule: gaps.induct)
  case (2 s x xs)
  show ?case
    by (rule gaps_Cons_cases[OF 2(3), of x xs p])
       (use 2 in \<open>auto simp: join_list_Cons join_list_Cons_Cons\<close>)
qed simp

lemma prefix_hd_gaps: "s \<noteq> [] \<Longrightarrow> prefix (hd (gaps s x)) x"
  using join_gaps[of s x] by (cases "gaps s x"; cases "tl (gaps s x)") auto

lemma sublist_gaps: "s \<noteq> [] \<Longrightarrow> g \<in> set (gaps s x) \<Longrightarrow> sublist g x"
proof (induction s x arbitrary: g rule: gaps.induct)
  case (2 s x xs)
  show ?case
  proof (rule gaps_Cons_cases[OF 2(3), of x xs])
    fix r assume r: "x # xs = s @ r" "gaps s (x # xs) = [] # gaps s r"
      "r = drop (length s) (x # xs)" "prefix s (x # xs)"
    have "sublist r (x # xs)" by (simp add: r(1))
    moreover have "g = [] \<or> sublist g r"
      using 2(1)[OF _ 2(3)] 2(3,4) r(2-4) by (metis set_ConsD)
    ultimately show ?thesis by (metis sublist_Nil_left sublist_order.order.trans)
  next
    fix h gs assume h: "\<not> prefix s (x # xs)" "gaps s xs = h # gs" "gaps s (x # xs) = (x # h) # gs"
    then show ?thesis
      using 2 prefix_hd_gaps[OF 2(3), of xs] by (auto simp: sublist_Cons_right)
  qed
qed simp

lemma gaps_clean: "s \<noteq> [] \<Longrightarrow> g \<in> set (gaps s x) \<Longrightarrow> \<not> sublist s g"
proof (induction s x arbitrary: g rule: gaps.induct)
  case (2 s x xs)
  show ?case
  proof (rule gaps_Cons_cases[OF 2(3), of x xs])
    fix h gs assume h: "\<not> prefix s (x # xs)" "gaps s xs = h # gs" "gaps s (x # xs) = (x # h) # gs"
    have "\<not> prefix s (x # h)"
      using h prefix_hd_gaps[OF 2(3), of xs]
      by (metis Cons_prefix_Cons list.sel(1) prefix_order.trans)
    then show ?thesis using 2 h by (auto simp: sublist_Cons_right)
  qed (use 2 in auto)
qed simp

definition fence :: "'a list \<Rightarrow> 'a list \<Rightarrow> bool" where
  "fence s p \<longleftrightarrow> \<not> sublist s p \<and> \<not> sublist p s
     \<and> list_all (\<lambda>t. t = [] \<or> \<not> prefix t s) (suffixes p)
     \<and> list_all (\<lambda>t. t = [] \<or> \<not> suffix t s) (prefixes p)"

lemma fenceD:
  assumes "fence s p"
  shows "\<not> sublist s p" "\<not> sublist p s" "p \<noteq> []" "s \<noteq> []"
    "suffix t p \<Longrightarrow> prefix t s \<Longrightarrow> t = []" "prefix t p \<Longrightarrow> suffix t s \<Longrightarrow> t = []"
  using assms by (auto simp: fence_def list_all_iff)

text \<open>A fence is symmetric, so the same lemmas serve injection and scrubbing.\<close>

lemma fence_sym: "fence s p \<longleftrightarrow> fence p s"
proof -
  have "fence p s" if "fence s p" for s p :: "'a list"
    using that fenceD[OF that] by (auto simp: fence_def list_all_iff)
  then show ?thesis by blast
qed

lemma fence_app:
  assumes "fence s p"
  shows "sublist s (u @ p @ v) \<longleftrightarrow> sublist s u \<or> sublist s v"
proof
  note f = fenceD[OF assms]
  assume "sublist s (u @ p @ v)"
  then consider "sublist s u" | "sublist s p" | "sublist s v"
    | s1 s2 where "s = s1 @ s2" "suffix s1 p" "prefix s2 v"
    | s1 s2 where "s = s1 @ s2" "suffix s1 u" "prefix s2 (p @ v)"
    by (auto simp: sublist_append)
  then show "sublist s u \<or> sublist s v"
  proof cases
    case 4
    then have "s1 = []" using f(5)[of s1] by auto
    with 4 show ?thesis by auto
  next
    case 5
    from \<open>prefix s2 (p @ v)\<close> consider "prefix s2 p" | r where "s2 = p @ r"
      by (auto simp: prefix_append)
    then show ?thesis
    proof cases
      case 1
      then have "s2 = []" using f(6)[of s2] 5(1) by (auto simp: suffix_def)
      with 5 show ?thesis by auto
    next
      case 2
      then have "sublist p s" using 5(1) by (auto simp: sublist_def)
      with f(2) show ?thesis by simp
    qed
  qed (use f in auto)
next
  show "sublist s u \<or> sublist s v \<Longrightarrow> sublist s (u @ p @ v)"
    by (meson sublist_append)
qed

lemma fence_join_list:
  "fence s p \<Longrightarrow> gs \<noteq> [] \<Longrightarrow> sublist s (join_list p gs) \<longleftrightarrow> (\<exists>g\<in>set gs. sublist s g)"
proof (induction p gs rule: join_list.induct)
  case (3 sep x y ys)
  then show ?case by (simp add: fence_app)
qed auto

text \<open>Replacing behind a fence removes every occurrence, and creates none of another string that
  is fenced from the replacement.\<close>

lemma greedy_removes: "fence s p \<Longrightarrow> \<not> sublist s (greedy s p x)"
  using fenceD(4)[of s p] by (auto simp: greedy_join_gaps fence_join_list gaps_clean)

lemma greedy_keeps_clean:
  "fence s p \<Longrightarrow> t \<noteq> [] \<Longrightarrow> \<not> sublist s x \<Longrightarrow> \<not> sublist s (greedy t p x)"
  using sublist_order.order.trans[of s _ x] sublist_gaps[of t _ x]
  by (auto simp: greedy_join_gaps fence_join_list)

text \<open>A fenced string passes through a replacement, which works on its two sides separately.\<close>

lemma prefix_fence_app:
  assumes "fence s p" "prefix s (u @ p @ v)"
  shows "prefix s u"
proof -
  note f = fenceD[OF assms(1)]
  from assms(2) consider "prefix s u" | t where "s = u @ t" "prefix t (p @ v)"
    by (auto simp: prefix_append)
  then show ?thesis
  proof cases
    case 2
    then consider "prefix t p" | r where "t = p @ r" by (auto simp: prefix_append)
    then show ?thesis
    proof cases
      case 1
      then have "t = []" using f(6)[of t] 2(1) by (auto simp: suffix_def)
      with 2 show ?thesis by simp
    next
      case 2
      then have "sublist p s" using \<open>s = u @ t\<close> by (auto simp: sublist_def)
      with f(2) show ?thesis by simp
    qed
  qed
qed

lemma greedy_no_start:
  "(\<And>k. k < length a \<Longrightarrow> \<not> prefix s (drop k (a @ b))) \<Longrightarrow> greedy s p (a @ b) = a @ greedy s p b"
proof (induction a)
  case (Cons x a)
  have "\<not> prefix s (x # a @ b)" using Cons.prems[of 0] by simp
  moreover have "greedy s p (a @ b) = a @ greedy s p b"
    using Cons.prems[of "Suc _"] by (intro Cons.IH) auto
  ultimately show ?case by (simp add: greedy_skip)
qed simp

lemma fence_no_start:
  assumes "fence s q" "k < length q"
  shows "\<not> prefix s (drop k (q @ v))"
proof
  note f = fenceD[OF assms(1)]
  assume "prefix s (drop k (q @ v))"
  then have "prefix s (drop k q @ v)" using assms(2) by simp
  then consider "prefix s (drop k q)" | r where "s = drop k q @ r" by (auto simp: prefix_append)
  then show False
  proof cases
    case 1
    then show ?thesis
      using f(1) by (meson prefix_imp_sublist sublist_drop sublist_order.order.trans)
  next
    case 2
    then show ?thesis using f(5)[of "drop k q"] assms(2) by (auto simp: suffix_drop)
  qed
qed

lemma greedy_fence_app:
  assumes "fence s q"
  shows "greedy s p (u @ q @ v) = greedy s p u @ q @ greedy s p v"
proof (induction s\<equiv>s p\<equiv>p u rule: greedy.induct)
  case 1
  show ?case using greedy_no_start[OF fence_no_start[OF assms]] by simp
next
  case (2 x xs)
  show ?case
  proof (cases "prefix s (x # xs)")
    case True
    then obtain r where r: "x # xs = s @ r" by (auto simp: prefix_def)
    then have "greedy s p (r @ q @ v) = greedy s p r @ q @ greedy s p v"
      using 2(1) True fenceD(4)[OF assms] by simp
    moreover have "(x # xs) @ q @ v = s @ r @ q @ v" by (simp add: r)
    ultimately show ?thesis using fenceD(4)[OF assms] by (simp add: r greedy_match del: append_Cons)
  next
    case False
    then have "\<not> prefix s (x # xs @ q @ v)" using prefix_fence_app[OF assms, of "x # xs" v] by auto
    then show ?thesis using False 2(2) by (simp add: greedy_skip)
  qed
qed

text \<open>What a replacement shows at the front of its result was at the front of its input, as far
  as a suffix of a fenced string goes.\<close>

lemma prefix_suffix_fence_app:
  assumes "fence s p" "suffix t s" "prefix t (u @ p @ v)"
  shows "prefix t u"
proof -
  note f = fenceD[OF assms(1)]
  from assms(3) consider "prefix t u" | r where "t = u @ r" "prefix r (p @ v)"
    by (auto simp: prefix_append)
  then show ?thesis
  proof cases
    case 2
    have suf: "suffix r s" using assms(2) 2(1) by (auto simp: suffix_def)
    from 2 consider "prefix r p" | w where "r = p @ w" by (auto simp: prefix_append)
    then show ?thesis
    proof cases
      case 1
      then have "r = []" using f(6) suf by blast
      with 2 show ?thesis by simp
    next
      case 2
      then have "sublist p s" using suf by (auto simp: sublist_def suffix_def)
      with f(2) show ?thesis by simp
    qed
  qed
qed

lemma prefix_greedy:
  assumes "fence s p" "t \<noteq> []" "suffix r s" "prefix r (greedy t p x)"
  shows "prefix r x"
proof -
  obtain g gs where g: "gaps t x = g # gs" using gaps_not_Nil neq_Nil_conv by metis
  have "prefix r g"
  proof (cases gs)
    case Nil
    then show ?thesis using assms g by (simp add: greedy_join_gaps)
  next
    case (Cons h hs)
    then have "greedy t p x = g @ p @ join_list p gs"
      using assms(2) g by (simp add: greedy_join_gaps)
    with assms prefix_suffix_fence_app show ?thesis by metis
  qed
  moreover have "prefix g x" using prefix_hd_gaps[OF assms(2), of x] g by simp
  ultimately show ?thesis by (rule prefix_order.trans)
qed

lemma greedy_dichotomy: "t \<noteq> [] \<Longrightarrow> greedy t p x = x \<or> sublist p (greedy t p x)"
proof -
  assume t: "t \<noteq> []"
  obtain g gs where g: "gaps t x = g # gs" using gaps_not_Nil neq_Nil_conv by metis
  show ?thesis
  proof (cases gs)
    case Nil
    then show ?thesis using t g join_gaps[OF t, of x] by (simp add: greedy_join_gaps)
  next
    case (Cons h hs)
    then show ?thesis using t g by (auto simp: greedy_join_gaps)
  qed
qed

text \<open>A string is unbordered when no proper part of it is both its beginning and its end. Such a
  string is found again exactly where a replacement put it, so replacing back restores the input.\<close>

definition unbordered :: "'a list \<Rightarrow> bool" where
  "unbordered s \<longleftrightarrow> list_all (\<lambda>t. t = [] \<or> t = s \<or> \<not> suffix t s) (prefixes s)"

lemma unbordered_no_start:
  assumes "unbordered s" "\<not> sublist s g" "k < length g"
  shows "\<not> prefix s (drop k (g @ s @ v))"
proof
  assume "prefix s (drop k (g @ s @ v))"
  then have "prefix s (drop k g @ s @ v)" using assms(3) by simp
  then consider "prefix s (drop k g)" | t where "s = drop k g @ t" "prefix t (s @ v)"
    unfolding prefix_append by blast
  then show False
  proof cases
    case 1
    then show ?thesis
      using assms(2) by (meson prefix_imp_sublist sublist_drop sublist_order.order.trans)
  next
    case 2
    have "length s = length (drop k g) + length t" using arg_cong[OF 2(1), of length] by simp
    then have "length t < length s" using assms(3) by simp
    then have "prefix t s" "t \<noteq> s" using 2(2) prefix_length_prefix[of t "s @ v" s] by fastforce+
    moreover have "suffix t s" using 2(1) unfolding suffix_def by blast
    ultimately have "t = []" using assms(1) by (auto simp: unbordered_def list_all_iff)
    then have "s = drop k g" using 2(1) by simp
    then show ?thesis using assms(2) by simp
  qed
qed

lemma greedy_join_unbordered:
  assumes "unbordered s" "s \<noteq> []"
  shows "gs \<noteq> [] \<Longrightarrow> (\<And>g. g \<in> set gs \<Longrightarrow> \<not> sublist s g) \<Longrightarrow>
    greedy s p (join_list s gs) = join_list p gs"
proof (induction gs rule: induct_list012)
  case (3 x y ys)
  have "greedy s p (x @ s @ join_list s (y # ys)) = x @ greedy s p (s @ join_list s (y # ys))"
    by (rule greedy_no_start) (rule unbordered_no_start, use 3(3-) assms in \<open>auto\<close>)
  then show ?case using 3 assms by (simp add: greedy_match)
qed (auto simp: greedy_clean)

lemma greedy_roundtrip:
  assumes "unbordered s" "s \<noteq> []" "p \<noteq> []" "\<not> sublist s x"
  shows "greedy s p (greedy p s x) = x"
proof -
  have "\<not> sublist s g" if "g \<in> set (gaps p x)" for g
    using that assms sublist_gaps[of p g x] sublist_order.order.trans by blast
  then show ?thesis
    using assms by (simp add: greedy_join_gaps[of p s] greedy_join_unbordered join_gaps)
qed

subsection \<open>The property\<close>

text \<open>
  C33: the index loop of \<^verbatim>\<open>byte_replace\<close> is the leftmost non-overlapping replacement. It answers
  nothing for an empty needle or when the needle does not occur, otherwise the replaced text and
  the number of occurrences, and the lengths add up.
\<close>
theorem byte_replace_reference:
  "byte_replace haystack needle replacement =
     (if needle \<noteq> [] \<and> sublist needle haystack
      then Some (greedy needle replacement haystack, occurrences needle haystack) else None)
   \<and> length (greedy needle replacement haystack) + occurrences needle haystack * length needle
       = length haystack + occurrences needle haystack * length replacement"
  using occurrences_zero[of needle haystack] length_greedy[of needle replacement haystack]
  by (cases "needle = []") (simp_all add: byte_replace_greedy)

end
