(* ===== verification/HttpTypes.thy ===== *)
theory HttpTypes
  imports Utf8
begin

text \<open>
  The interface to the \<^verbatim>\<open>httparse\<close> crate: the values its parsers return, and the text form of a
  request and of a response. The parsers themselves are parameters of every definition that calls
  them; \<open>request_parser\<close> states what the code relies on (a head of CRLF-terminated lines is
  consumed as a whole, one header per line, no line break inside a parsed piece, and a canonical
  head is read back), and \<open>simple_request\<close> is a concrete parser with that behaviour.
\<close>

definition CRLF :: bytes where
  "CRLF = [CHR 0x0D, CHR 0x0A]"

datatype 'a parsed = Parse_error | Partial 'a | Complete nat 'a

record http_header =
  hdr_name :: string
  hdr_value :: bytes

record http_request =
  req_method :: "string option"
  req_path :: "string option"
  req_version :: "nat option"
  req_headers :: "http_header list"

record http_response =
  resp_version :: "nat option"
  resp_code :: "nat option"
  resp_reason :: "string option"
  resp_headers :: "http_header list"

text \<open>\<^verbatim>\<open>req.parse(data).is_err()\<close> is false for a partial parse, whose request is then inspected.\<close>

fun parsed_value :: "'a parsed \<Rightarrow> 'a option" where
  "parsed_value Parse_error = None"
| "parsed_value (Partial r) = Some r"
| "parsed_value (Complete n r) = Some r"

definition header_line :: "http_header \<Rightarrow> bytes" where
  "header_line h = hdr_name h @ '': '' @ hdr_value h"

definition request_line :: "string \<Rightarrow> string \<Rightarrow> nat \<Rightarrow> bytes" where
  "request_line m p v = m @ '' '' @ p @ '' HTTP/1.'' @ show_nat v"

definition status_line :: "nat \<Rightarrow> nat \<Rightarrow> string \<Rightarrow> bytes" where
  "status_line v code reason = ''HTTP/1.'' @ show_nat v @ '' '' @ show_nat code @ '' '' @ reason"

definition crlf_terminated :: "bytes list \<Rightarrow> bytes" where
  "crlf_terminated ls = concat (map (\<lambda>l. l @ CRLF) ls)"

definition head_text :: "bytes \<Rightarrow> bytes list \<Rightarrow> bytes" where
  "head_text first ls = first @ CRLF @ crlf_terminated ls @ CRLF"

lemma crlf_terminated_simps [simp]:
  "crlf_terminated [] = []" "crlf_terminated (l # ls) = l @ CRLF @ crlf_terminated ls"
  "crlf_terminated (xs @ ys) = crlf_terminated xs @ crlf_terminated ys"
  by (simp_all add: crlf_terminated_def)

text \<open>\<^verbatim>\<open>find_header_end\<close> of \<^verbatim>\<open>src/src/secret.rs\<close>: the offset past the first \<^verbatim>\<open>\r\n\r\n\<close>.\<close>

definition find_header_end :: "bytes \<Rightarrow> nat option" where
  "find_header_end data = map_option (\<lambda>p. p + 4) (find_sub (CRLF @ CRLF) data)"

definition no_crlf :: "bytes \<Rightarrow> bool" where
  "no_crlf s \<longleftrightarrow> CHR 0x0D \<notin> set s \<and> CHR 0x0A \<notin> set s"

lemma no_crlf_simps [simp]:
  "no_crlf []" "no_crlf (a @ b) \<longleftrightarrow> no_crlf a \<and> no_crlf b"
  "no_crlf (c # s) \<longleftrightarrow> c \<noteq> CHR 0x0D \<and> c \<noteq> CHR 0x0A \<and> no_crlf s"
  by (auto simp: no_crlf_def)

lemma no_crlf_show_nat [simp]: "no_crlf (show_nat n)"
  unfolding no_crlf_def by (intro conjI notin_show_nat) (simp_all add: is_ascii_digit_def char_code_def)

text \<open>The first line break of a text whose first line has none, and the header end of a head of
  nonempty lines.\<close>

lemma find_sub_no_crlf:
  "no_crlf a \<Longrightarrow> find_sub CRLF (a @ CRLF @ b) = Some (length a)"
  by (induction a) (auto simp: CRLF_def)

lemma find_header_end_skip:
  "no_crlf l \<Longrightarrow>
   find_sub (CRLF @ CRLF) (l @ r) = map_option (\<lambda>p. p + length l) (find_sub (CRLF @ CRLF) r)"
  by (induction l) (auto simp: CRLF_def option.map_comp option.map_ident comp_def)

lemma find_header_end_line:
  "no_crlf l \<Longrightarrow> l \<noteq> [] \<Longrightarrow>
   find_sub (CRLF @ CRLF) (CRLF @ l @ r) = map_option (\<lambda>p. p + 2 + length l) (find_sub (CRLF @ CRLF) r)"
  using find_header_end_skip[of l r]
  by (cases l) (auto simp: CRLF_def option.map_comp comp_def)

lemma find_header_end_lines:
  "(\<And>l. l \<in> set ls \<Longrightarrow> l \<noteq> [] \<and> no_crlf l) \<Longrightarrow>
   find_sub (CRLF @ CRLF) (CRLF @ crlf_terminated ls @ CRLF @ b) = Some (length (crlf_terminated ls))"
proof (induction ls)
  case Nil
  then show ?case by (simp add: CRLF_def)
next
  case (Cons l ls)
  then have "find_sub (CRLF @ CRLF) (CRLF @ crlf_terminated ls @ CRLF @ b) = Some (length (crlf_terminated ls))"
    by simp
  then show ?case
    using Cons.prems[of l] find_header_end_line[of l "CRLF @ crlf_terminated ls @ CRLF @ b"]
    by (simp add: CRLF_def[THEN arg_cong, of length])
qed

lemma find_header_end_head:
  assumes "no_crlf first" "\<And>l. l \<in> set ls \<Longrightarrow> l \<noteq> [] \<and> no_crlf l"
  shows "find_header_end (head_text first ls @ b) = Some (length (head_text first ls))"
  using assms find_header_end_lines[of ls b]
  by (simp add: find_header_end_def head_text_def find_header_end_skip CRLF_def[THEN arg_cong, of length])

subsection \<open>What the code relies on, and a parser that does it\<close>

definition is_tchar :: "char \<Rightarrow> bool" where
  "is_tchar c \<longleftrightarrow> is_ascii_alphanumeric c \<or> c \<in> set ''!#$%&'*+-.^_`|~''"

definition is_blank :: "char \<Rightarrow> bool" where
  "is_blank c \<longleftrightarrow> c = CHR '' '' \<or> c = CHR 0x09"

definition wf_token :: "string \<Rightarrow> bool" where
  "wf_token s \<longleftrightarrow> s \<noteq> [] \<and> list_all (\<lambda>c. 33 \<le> char_code c \<and> char_code c < 127) s"

definition wf_header :: "http_header \<Rightarrow> bool" where
  "wf_header h \<longleftrightarrow> hdr_name h \<noteq> [] \<and> list_all is_tchar (hdr_name h) \<and> no_crlf (hdr_value h)
     \<and> (hdr_value h \<noteq> [] \<longrightarrow> \<not> is_blank (hd (hdr_value h)) \<and> \<not> is_blank (last (hdr_value h)))"

text \<open>The first part is what the shape of the answer is for any head of CRLF lines, accepted or
  not; the second, that a canonical head of at most 128 headers is read back.\<close>

definition request_parser :: "(bytes \<Rightarrow> http_request parsed) \<Rightarrow> bool" where
  "request_parser pr \<longleftrightarrow>
     (\<forall>m p v ls b. wf_token m \<and> wf_token p \<and> v \<le> 1 \<and> (\<forall>l\<in>set ls. l \<noteq> [] \<and> no_crlf l) \<longrightarrow>
        pr (head_text (request_line m p v) ls @ b) = Parse_error \<or>
        (\<exists>hs. pr (head_text (request_line m p v) ls @ b)
                = Complete (length (head_text (request_line m p v) ls))
                    \<lparr>req_method = Some m, req_path = Some p, req_version = Some v, req_headers = hs\<rparr>
              \<and> length hs = length ls
              \<and> (\<forall>h\<in>set hs. hdr_name h \<noteq> [] \<and> no_crlf (hdr_name h) \<and> no_crlf (hdr_value h)))) \<and>
     (\<forall>m p v hs b. wf_token m \<and> wf_token p \<and> v \<le> 1 \<and> list_all wf_header hs \<and> length hs \<le> 128 \<longrightarrow>
        pr (head_text (request_line m p v) (map header_line hs) @ b)
          = Complete (length (head_text (request_line m p v) (map header_line hs)))
              \<lparr>req_method = Some m, req_path = Some p, req_version = Some v, req_headers = hs\<rparr>)"

function take_lines :: "bytes \<Rightarrow> bytes list option" where
  "take_lines s = (case find_sub CRLF s of
      None \<Rightarrow> None
    | Some 0 \<Rightarrow> Some []
    | Some (Suc k) \<Rightarrow> map_option ((#) (take (Suc k) s)) (take_lines (drop (k + 3) s)))"
  by pat_completeness auto
termination
proof (relation "measure length")
  fix s k n assume "find_sub CRLF s = Some k" "k = Suc n"
  then have "Suc n + 2 \<le> length s"
    using find_sub_Some[of CRLF s k] by (simp add: CRLF_def)
  then show "(drop (n + 3) s, s) \<in> measure length" by simp
qed simp

declare take_lines.simps [simp del]

definition trim_blanks :: "bytes \<Rightarrow> bytes" where
  "trim_blanks s = rev (dropWhile is_blank (rev (dropWhile is_blank s)))"

definition simple_header :: "bytes \<Rightarrow> http_header option" where
  "simple_header l = (case split_once (CHR '':'') l of
      None \<Rightarrow> None
    | Some (n, v) \<Rightarrow>
        if n \<noteq> [] \<and> list_all is_tchar n \<and> no_crlf v
        then Some \<lparr>hdr_name = n, hdr_value = trim_blanks v\<rparr> else None)"

definition simple_request_line :: "bytes \<Rightarrow> (string \<times> string \<times> nat) option" where
  "simple_request_line l = (case split_once (CHR '' '') l of
      None \<Rightarrow> None
    | Some (m, r) \<Rightarrow> (case split_once (CHR '' '') r of
        None \<Rightarrow> None
      | Some (p, v) \<Rightarrow>
          if v = ''HTTP/1.0'' then Some (m, p, 0)
          else if v = ''HTTP/1.1'' then Some (m, p, 1) else None))"

definition simple_request :: "bytes \<Rightarrow> http_request parsed" where
  "simple_request d = (case take_lines d of
      None \<Rightarrow> Partial \<lparr>req_method = None, req_path = None, req_version = None, req_headers = []\<rparr>
    | Some [] \<Rightarrow> Parse_error
    | Some (l # ls) \<Rightarrow> (case (simple_request_line l, those (map simple_header ls)) of
        (Some (m, p, v), Some hs) \<Rightarrow>
          if length hs \<le> 128
          then Complete (length (head_text l ls))
                 \<lparr>req_method = Some m, req_path = Some p, req_version = Some v, req_headers = hs\<rparr>
          else Parse_error
      | _ \<Rightarrow> Parse_error))"

lemma take_lines_head:
  assumes "\<And>l. l \<in> set ls \<Longrightarrow> l \<noteq> [] \<and> no_crlf l"
  shows "take_lines (crlf_terminated ls @ CRLF @ b) = Some ls"
  using assms
proof (induction ls)
  case Nil
  then show ?case by (subst take_lines.simps) (simp add: CRLF_def)
next
  case (Cons l ls)
  then obtain k where k: "length l = Suc k" by (cases l) auto
  have "find_sub CRLF (l @ CRLF @ crlf_terminated ls @ CRLF @ b) = Some (Suc k)"
    using Cons.prems[of l] k find_sub_no_crlf[of l "crlf_terminated ls @ CRLF @ b"] by simp
  moreover have "drop (k + 3) (l @ CRLF @ crlf_terminated ls @ CRLF @ b) = crlf_terminated ls @ CRLF @ b"
    using k by (simp add: CRLF_def drop_Cons' numeral_3_eq_3)
  ultimately show ?case using Cons k by (subst take_lines.simps) simp
qed

lemma take_lines_head_text:
  "no_crlf first \<Longrightarrow> first \<noteq> [] \<Longrightarrow> (\<And>l. l \<in> set ls \<Longrightarrow> l \<noteq> [] \<and> no_crlf l) \<Longrightarrow>
   take_lines (head_text first ls @ b) = Some (first # ls)"
proof -
  assume "no_crlf first" "first \<noteq> []" "\<And>l. l \<in> set ls \<Longrightarrow> l \<noteq> [] \<and> no_crlf l"
  then have "take_lines (crlf_terminated (first # ls) @ CRLF @ b) = Some (first # ls)"
    by (intro take_lines_head) auto
  then show ?thesis by (simp add: head_text_def)
qed

lemma wf_token_chars:
  assumes "wf_token s"
  shows "CHR '' '' \<notin> set s" "no_crlf s" "s \<noteq> []"
  using assms by (auto simp: wf_token_def list_all_iff no_crlf_def char_code_def)

lemma simple_request_line:
  assumes "wf_token m" "wf_token p" "v \<le> 1"
  shows "simple_request_line (request_line m p v) = Some (m, p, v)"
proof -
  have "show_nat v = (if v = 0 then ''0'' else ''1'')"
    using assms(3)
    by (cases "v = 0") (auto simp: show_nat.simps[of 0] show_nat.simps[of "Suc 0"] char_of_def le_Suc_eq bit_0)
  then show ?thesis
    using assms wf_token_chars(1)[of m] wf_token_chars(1)[of p]
    by (auto simp: simple_request_line_def request_line_def split_once_append)
qed

lemma request_line_no_crlf:
  "wf_token m \<Longrightarrow> wf_token p \<Longrightarrow> no_crlf (request_line m p v) \<and> request_line m p v \<noteq> []"
  using wf_token_chars by (auto simp: request_line_def)

lemma trim_blanks_id:
  "v = [] \<or> \<not> is_blank (hd v) \<and> \<not> is_blank (last v) \<Longrightarrow> trim_blanks v = v"
proof (cases v rule: rev_cases)
  case (snoc u x)
  assume "v = [] \<or> \<not> is_blank (hd v) \<and> \<not> is_blank (last v)"
  then have "\<not> is_blank (hd (u @ [x]))" "\<not> is_blank x" by (simp_all add: snoc)
  then have "dropWhile is_blank (u @ [x]) = u @ [x]" by (cases u) auto
  then show ?thesis using \<open>\<not> is_blank x\<close> by (simp add: trim_blanks_def snoc)
qed (simp add: trim_blanks_def)

lemma tchar_not_colon: "\<not> is_tchar (CHR '':'')" "is_tchar c \<Longrightarrow> c \<noteq> CHR 0x0D \<and> c \<noteq> CHR 0x0A"
  by (auto simp: is_tchar_def ascii_defs char_code_def)

lemma simple_header_line: "wf_header h \<Longrightarrow> simple_header (header_line h) = Some h"
proof -
  assume h: "wf_header h"
  then have "CHR '':'' \<notin> set (hdr_name h)"
    using tchar_not_colon by (auto simp: wf_header_def list_all_iff)
  moreover have "trim_blanks (CHR '' '' # hdr_value h) = hdr_value h"
    using h trim_blanks_id[of "hdr_value h"]
    by (auto simp: trim_blanks_def is_blank_def[of "CHR '' ''"] wf_header_def)
  ultimately show ?thesis
    using h by (simp add: simple_header_def header_line_def split_once_append wf_header_def)
qed

lemma wf_header_line: "wf_header h \<Longrightarrow> header_line h \<noteq> [] \<and> no_crlf (header_line h)"
  using tchar_not_colon(2)
  by (auto simp: wf_header_def header_line_def no_crlf_def list_all_iff)

lemma set_trim_blanks: "set (trim_blanks s) \<subseteq> set s"
  unfolding trim_blanks_def by (metis set_dropWhileD set_rev subsetI)

lemma those_length: "those xs = Some ys \<Longrightarrow> length ys = length xs"
  by (induction xs arbitrary: ys) (auto split: option.splits)

lemma those_in: "those (map f xs) = Some ys \<Longrightarrow> y \<in> set ys \<Longrightarrow> \<exists>x\<in>set xs. f x = Some y"
  by (induction xs arbitrary: ys) (auto split: option.splits)

lemma those_map_Some: "(\<And>x. x \<in> set xs \<Longrightarrow> f (g x) = Some x) \<Longrightarrow> those (map f (map g xs)) = Some xs"
  by (induction xs) auto

lemma simple_header_ok:
  "simple_header l = Some h \<Longrightarrow> hdr_name h \<noteq> [] \<and> no_crlf (hdr_name h) \<and> no_crlf (hdr_value h)"
  using tchar_not_colon(2) set_trim_blanks
  by (fastforce simp: simple_header_def no_crlf_def list_all_iff split: option.splits if_splits)

lemma simple_request_parser: "request_parser simple_request"
  unfolding request_parser_def
proof (intro conjI allI impI)
  fix m p and v :: nat and ls b
  assume a: "wf_token m \<and> wf_token p \<and> v \<le> 1 \<and> (\<forall>l\<in>set ls. l \<noteq> [] \<and> no_crlf l)"
  then have "take_lines (head_text (request_line m p v) ls @ b) = Some (request_line m p v # ls)"
    by (intro take_lines_head_text) (auto simp: request_line_no_crlf)
  with a show "simple_request (head_text (request_line m p v) ls @ b) = Parse_error \<or>
        (\<exists>hs. simple_request (head_text (request_line m p v) ls @ b)
                = Complete (length (head_text (request_line m p v) ls))
                    \<lparr>req_method = Some m, req_path = Some p, req_version = Some v, req_headers = hs\<rparr>
              \<and> length hs = length ls
              \<and> (\<forall>h\<in>set hs. hdr_name h \<noteq> [] \<and> no_crlf (hdr_name h) \<and> no_crlf (hdr_value h)))"
    using those_length those_in[of simple_header ls] simple_header_ok
    by (auto simp: simple_request_def simple_request_line split: option.splits) fastforce+
next
  fix m p and v :: nat and hs b
  assume a: "wf_token m \<and> wf_token p \<and> v \<le> 1 \<and> list_all wf_header hs \<and> length hs \<le> 128"
  then have "take_lines (head_text (request_line m p v) (map header_line hs) @ b)
      = Some (request_line m p v # map header_line hs)"
    by (intro take_lines_head_text) (auto simp: request_line_no_crlf wf_header_line list_all_iff)
  moreover have "those (map simple_header (map header_line hs)) = Some hs"
    using a by (intro those_map_Some simple_header_line) (auto simp: list_all_iff)
  ultimately show "simple_request (head_text (request_line m p v) (map header_line hs) @ b)
          = Complete (length (head_text (request_line m p v) (map header_line hs)))
              \<lparr>req_method = Some m, req_path = Some p, req_version = Some v, req_headers = hs\<rparr>"
    using a by (simp add: simple_request_def simple_request_line)
qed

end
