(* ===== verification/Secret.thy ===== *)
theory Secret
  imports ByteReplace HttpTypes
begin

text \<open>
  \<^verbatim>\<open>src/src/secret.rs\<close>: the secret bindings, the injection of real values into the header block
  of an outgoing request (literal occurrences, then the credentials of \<^verbatim>\<open>Authorization: Basic\<close>),
  the scrubbing of real values from a response, and the rewriting of request headers. The
  parameters are the request parser (\<open>pr\<close>), base64 (\<open>b64dec\<close>, \<open>b64enc\<close>), the system random
  source and Unicode lower-casing.
\<close>

subsection \<open>Bindings\<close>

record secret_binding =
  placeholder :: string
  real_value :: string
  allowed_hosts :: "string list"

datatype secret_error = Has_crlf string | Wildcard_host string string | Random_failed string

definition new_binding ::
  "(string \<Rightarrow> string) \<Rightarrow> string + bytes \<Rightarrow> string \<Rightarrow> string \<Rightarrow> string list \<Rightarrow> secret_error + secret_binding" where
  "new_binding to_lower rnd env_name real hosts =
     (if CHR 0x0D \<in> set real \<or> CHR 0x0A \<in> set real then Inl (Has_crlf env_name)
      else (case find (\<lambda>h. CHR ''*'' \<in> set h) hosts of
          Some host \<Rightarrow> Inl (Wildcard_host env_name host)
        | None \<Rightarrow> (case rnd of
            Inl e \<Rightarrow> Inl (Random_failed e)
          | Inr buf \<Rightarrow> Inr \<lparr>placeholder = ''redan_ph_'' @ to_lower env_name @ ''_'' @ hex_encode buf,
                            real_value = real, allowed_hosts = hosts\<rparr>)))"

text \<open>The host filter that \<^verbatim>\<open>inject\<close>, \<^verbatim>\<open>inject_basic_auth\<close> and \<^verbatim>\<open>scrub\<close> share.\<close>

definition bound_to :: "string \<Rightarrow> secret_binding \<Rightarrow> bool" where
  "bound_to hostname b \<longleftrightarrow> list_ex (\<lambda>allowed. eq_ignore_ascii_case allowed hostname) (allowed_hosts b)"

subsection \<open>Injection\<close>

text \<open>\<^verbatim>\<open>str::replace\<close>: an empty pattern matches at every character boundary.\<close>

fun replace_empty :: "string \<Rightarrow> string \<Rightarrow> string" where
  "replace_empty r [] = r"
| "replace_empty r (x # xs) = (if is_cont x then [] else r) @ x # replace_empty r xs"

definition str_replace :: "string \<Rightarrow> string \<Rightarrow> string \<Rightarrow> string" where
  "str_replace s pat r = (if pat = [] then replace_empty r s else greedy pat r s)"

fun inject_headers :: "string \<Rightarrow> secret_binding list \<Rightarrow> bytes \<Rightarrow> nat \<Rightarrow> bytes \<times> nat" where
  "inject_headers hostname [] header_bytes count = (header_bytes, count)"
| "inject_headers hostname (b # bs) header_bytes count =
     (if \<not> bound_to hostname b then inject_headers hostname bs header_bytes count
      else (case byte_replace header_bytes (placeholder b) (real_value b) of
          Some (replaced, n) \<Rightarrow> inject_headers hostname bs replaced (count + n)
        | None \<Rightarrow> inject_headers hostname bs header_bytes count))"

fun replace_credentials :: "secret_binding list \<Rightarrow> string \<Rightarrow> nat \<Rightarrow> string \<times> nat" where
  "replace_credentials [] decoded count = (decoded, count)"
| "replace_credentials (b # bs) decoded count =
     (if str_contains decoded (placeholder b)
      then replace_credentials bs (str_replace decoded (placeholder b) (real_value b)) (count + 1)
      else replace_credentials bs decoded count)"

definition try_inject_basic ::
  "(string \<Rightarrow> bytes option) \<Rightarrow> (string \<Rightarrow> string) \<Rightarrow> bytes \<Rightarrow> secret_binding list \<Rightarrow> (string \<times> nat) option" where
  "try_inject_basic b64dec b64enc value secrets =
     Option.bind (from_utf8 value) (\<lambda>value_str.
     Option.bind (strip_prefix ''Basic '' value_str) (\<lambda>encoded.
     Option.bind (b64dec (str_trim encoded)) (\<lambda>decoded_bytes.
     Option.bind (from_utf8 decoded_bytes) (\<lambda>decoded.
     (case replace_credentials secrets decoded 0 of
        (d, count) \<Rightarrow> if count = 0 then None else Some (b64enc d, count))))))"

text \<open>One header of the re-rendered request: its text and its number of injections.\<close>

definition inject_basic_header ::
  "(string \<Rightarrow> bytes option) \<Rightarrow> (string \<Rightarrow> string) \<Rightarrow> secret_binding list \<Rightarrow> http_header \<Rightarrow> bytes \<times> nat" where
  "inject_basic_header b64dec b64enc applicable h =
     (case (if eq_ignore_ascii_case (hdr_name h) ''authorization''
            then try_inject_basic b64dec b64enc (hdr_value h) applicable else None) of
        Some (new_b64, n) \<Rightarrow> (''Authorization: Basic '' @ new_b64, n)
      | None \<Rightarrow> (hdr_name h @ '': '' @ hdr_value h, 0))"

definition unwrap_or :: "'a option \<Rightarrow> 'a \<Rightarrow> 'a" where
  "unwrap_or m d = (case m of Some x \<Rightarrow> x | None \<Rightarrow> d)"

lemma unwrap_or_simps [simp]: "unwrap_or (Some x) d = x" "unwrap_or None d = d"
  by (simp_all add: unwrap_or_def)

definition inject_basic_auth ::
  "(bytes \<Rightarrow> http_request parsed) \<Rightarrow> (string \<Rightarrow> bytes option) \<Rightarrow> (string \<Rightarrow> string) \<Rightarrow>
   bytes \<Rightarrow> string \<Rightarrow> secret_binding list \<Rightarrow> bytes \<times> nat" where
  "inject_basic_auth pr b64dec b64enc data hostname secrets =
     (let applicable = filter (bound_to hostname) secrets in
      if applicable = [] then (data, 0)
      else (case pr data of
          Complete body_offset req \<Rightarrow>
            (let rs = map (inject_basic_header b64dec b64enc applicable) (req_headers req);
                 total = sum_list (map snd rs) in
             if list_all (\<lambda>(t, n). n = 0) rs then (data, 0)
             else (head_text (request_line (unwrap_or (req_method req) ''GET'')
                                (unwrap_or (req_path req) ''/'') (unwrap_or (req_version req) 1))
                     (map fst rs) @ drop body_offset data, total))
        | _ \<Rightarrow> (data, 0)))"

text \<open>Where the literal pass works: past the first line break, before the end of the head.\<close>

definition header_region :: "bytes \<Rightarrow> nat \<times> nat" where
  "header_region data =
     (let header_end = unwrap_or (find_header_end data) (length data);
          request_line_end = (case find_sub CRLF (take header_end data) of Some p \<Rightarrow> p + 2 | None \<Rightarrow> 0)
      in (request_line_end, header_end))"

definition inject_literal :: "bytes \<Rightarrow> string \<Rightarrow> secret_binding list \<Rightarrow> bytes \<times> nat" where
  "inject_literal data hostname secrets =
     (case header_region data of (request_line_end, header_end) \<Rightarrow>
        (case inject_headers hostname secrets (drop request_line_end (take header_end data)) 0 of
           (header_bytes, count) \<Rightarrow>
             if count > 0
             then (take request_line_end data @ header_bytes @ drop header_end data, count)
             else (data, 0)))"

definition inject ::
  "(bytes \<Rightarrow> http_request parsed) \<Rightarrow> (string \<Rightarrow> bytes option) \<Rightarrow> (string \<Rightarrow> string) \<Rightarrow>
   bytes \<Rightarrow> string \<Rightarrow> secret_binding list \<Rightarrow> bytes \<times> nat" where
  "inject pr b64dec b64enc data hostname secrets =
     (case inject_literal data hostname secrets of (intermediate, count) \<Rightarrow>
        (case inject_basic_auth pr b64dec b64enc intermediate hostname secrets of
           (result, basic_count) \<Rightarrow>
             if count + basic_count = 0 then (data, 0) else (result, count + basic_count)))"

subsection \<open>Scrubbing and rewriting\<close>

fun scrub_loop :: "string \<Rightarrow> secret_binding list \<Rightarrow> bytes \<Rightarrow> nat \<Rightarrow> bytes \<times> nat" where
  "scrub_loop hostname [] result count = (result, count)"
| "scrub_loop hostname (b # bs) result count =
     (if \<not> bound_to hostname b then scrub_loop hostname bs result count
      else (case byte_replace result (real_value b) (placeholder b) of
          Some (replaced, n) \<Rightarrow> scrub_loop hostname bs replaced (count + n)
        | None \<Rightarrow> scrub_loop hostname bs result count))"

definition scrub :: "bytes \<Rightarrow> string \<Rightarrow> secret_binding list \<Rightarrow> bytes \<times> nat" where
  "scrub data hostname secrets = scrub_loop hostname secrets data 0"

fun rewrite_header_lines :: "http_header list \<Rightarrow> bool \<Rightarrow> bytes list \<times> bool" where
  "rewrite_header_lines [] has_connection = ([], has_connection)"
| "rewrite_header_lines (h # hs) has_connection =
     (if eq_ignore_ascii_case (hdr_name h) ''accept-encoding'' then rewrite_header_lines hs has_connection
      else if eq_ignore_ascii_case (hdr_name h) ''connection''
      then (case rewrite_header_lines hs True of (ls, c) \<Rightarrow> (''Connection: close'' # ls, c))
      else (case rewrite_header_lines hs has_connection of
              (ls, c) \<Rightarrow> ((hdr_name h @ '': '' @ hdr_value h) # ls, c)))"

definition rewrite_request_headers :: "(bytes \<Rightarrow> http_request parsed) \<Rightarrow> bytes \<Rightarrow> bytes" where
  "rewrite_request_headers pr data =
     (case pr data of
        Complete body_offset req \<Rightarrow>
          (case rewrite_header_lines (req_headers req) False of (ls, has_connection) \<Rightarrow>
             head_text (request_line (unwrap_or (req_method req) ''GET'')
                          (unwrap_or (req_path req) ''/'') (unwrap_or (req_version req) 1))
               (ls @ (if has_connection then [] else [''Connection: close'']))
             @ drop body_offset data)
      | _ \<Rightarrow> data)"

subsection \<open>The replacement loops as iterated replacement\<close>

definition replace_pairs :: "(bytes \<times> bytes) list \<Rightarrow> bytes \<Rightarrow> bytes" where
  "replace_pairs ps x = foldl (\<lambda>x (s, p). greedy s p x) x ps"

definition scrub_pairs :: "string \<Rightarrow> secret_binding list \<Rightarrow> (bytes \<times> bytes) list" where
  "scrub_pairs hostname bs = map (\<lambda>b. (real_value b, placeholder b))
     (filter (\<lambda>b. bound_to hostname b \<and> real_value b \<noteq> []) bs)"

definition inject_pairs :: "string \<Rightarrow> secret_binding list \<Rightarrow> (bytes \<times> bytes) list" where
  "inject_pairs hostname bs = map (\<lambda>b. (placeholder b, real_value b))
     (filter (\<lambda>b. bound_to hostname b \<and> placeholder b \<noteq> []) bs)"

lemma replace_pairs_simps [simp]:
  "replace_pairs [] x = x" "replace_pairs ((s, p) # ps) x = replace_pairs ps (greedy s p x)"
  by (simp_all add: replace_pairs_def)

lemma byte_replace_cases:
  obtains "byte_replace x s p = None" "s = [] \<or> greedy s p x = x \<and> \<not> sublist s x"
  | n where "s \<noteq> []" "0 < n" "byte_replace x s p = Some (greedy s p x, n)"
proof (cases "s = [] \<or> occurrences s x = 0")
  case True
  then show ?thesis
    by (intro that(1)) (auto simp: byte_replace_greedy occurrences_zero greedy_clean)
next
  case False
  then show ?thesis by (intro that(2)[of "occurrences s x"]) (simp_all add: byte_replace_greedy)
qed

lemma scrub_loop_pairs: "fst (scrub_loop h bs x c) = replace_pairs (scrub_pairs h bs) x"
proof (induction bs arbitrary: x c)
  case (Cons b bs)
  then show ?case
    by (cases rule: byte_replace_cases[of x "real_value b" "placeholder b"])
       (auto simp: scrub_pairs_def)
qed (simp add: scrub_pairs_def)

lemma fst_scrub: "fst (scrub x h bs) = replace_pairs (scrub_pairs h bs) x"
  by (simp add: scrub_def scrub_loop_pairs)

lemma inject_headers_pairs: "fst (inject_headers h bs x c) = replace_pairs (inject_pairs h bs) x"
proof (induction bs arbitrary: x c)
  case (Cons b bs)
  then show ?case
    by (cases rule: byte_replace_cases[of x "placeholder b" "real_value b"])
       (auto simp: inject_pairs_def)
qed (simp add: inject_pairs_def)

lemma inject_headers_count_mono: "c \<le> snd (inject_headers h bs x c)"
  by (induction bs arbitrary: x c) (auto split: option.splits intro: le_trans[OF le_add1])

lemma inject_headers_zero:
  "snd (inject_headers h bs x c) = c \<Longrightarrow> fst (inject_headers h bs x c) = x"
proof (induction bs arbitrary: x c)
  case (Cons b bs)
  show ?case
  proof (cases rule: byte_replace_cases[of x "placeholder b" "real_value b"])
    case (2 n)
    then show ?thesis
      using Cons inject_headers_count_mono[of "c + n" h bs "greedy (placeholder b) (real_value b) x"]
      by (auto split: if_splits)
  qed (use Cons in \<open>auto split: if_splits\<close>)
qed simp

text \<open>The host filter alone decides: bindings of other hosts change nothing.\<close>

lemma filter_bound_pairs [simp]:
  "scrub_pairs h (filter (bound_to h) bs) = scrub_pairs h bs"
  "inject_pairs h (filter (bound_to h) bs) = inject_pairs h bs"
  by (simp_all add: scrub_pairs_def inject_pairs_def conj_commute)

lemma scrub_loop_filter: "scrub_loop h (filter (bound_to h) bs) x c = scrub_loop h bs x c"
  by (induction bs arbitrary: x c) (auto split: option.splits)

lemma inject_headers_filter:
  "inject_headers h (filter (bound_to h) bs) x c = inject_headers h bs x c"
  by (induction bs arbitrary: x c) (auto split: option.splits)

lemma inject_literal_filter:
  "inject_literal d h (filter (bound_to h) bs) = inject_literal d h bs"
  by (simp add: inject_literal_def inject_headers_filter)

lemma inject_basic_auth_filter:
  "inject_basic_auth pr de en d h (filter (bound_to h) bs) = inject_basic_auth pr de en d h bs"
  by (simp add: inject_basic_auth_def)

lemma inject_filter: "inject pr de en d h (filter (bound_to h) bs) = inject pr de en d h bs"
  by (simp add: inject_def inject_literal_filter inject_basic_auth_filter)

lemma scrub_filter: "scrub d h (filter (bound_to h) bs) = scrub d h bs"
  by (simp add: scrub_def scrub_loop_filter)

lemma bound_to_case:
  "eq_ignore_ascii_case h h' \<Longrightarrow> bound_to h b \<longleftrightarrow> bound_to h' b"
  by (auto simp: bound_to_def list_ex_iff eq_ignore_ascii_case_def)

subsection \<open>Scrubbing leaves no bound secret\<close>

definition pairs_fenced :: "(bytes \<times> bytes) list \<Rightarrow> bool" where
  "pairs_fenced ps \<longleftrightarrow> list_all (\<lambda>(s, _). list_all (\<lambda>(_, p). fence s p) ps) ps"

lemma pairs_fencedD: "pairs_fenced ps \<Longrightarrow> (s, p) \<in> set ps \<Longrightarrow> (t, q) \<in> set ps \<Longrightarrow> fence s q"
  by (fastforce simp: pairs_fenced_def list_all_iff)

lemma replace_pairs_keeps_clean:
  "\<forall>(t, q)\<in>set ps. fence s q \<and> t \<noteq> [] \<Longrightarrow> \<not> sublist s x \<Longrightarrow> \<not> sublist s (replace_pairs ps x)"
  by (induction ps arbitrary: x) (auto simp: greedy_keeps_clean)

lemma replace_pairs_removes:
  "\<forall>(t, q)\<in>set ps. fence s q \<and> t \<noteq> [] \<Longrightarrow> (s, p) \<in> set ps \<Longrightarrow> \<not> sublist s (replace_pairs ps x)"
  by (induction ps arbitrary: x) (auto simp: greedy_removes replace_pairs_keeps_clean)

lemma pairs_fenced_all:
  "pairs_fenced ps \<Longrightarrow> (s, p) \<in> set ps \<Longrightarrow> \<forall>(t, q)\<in>set ps. fence s q \<and> t \<noteq> []"
proof clarify
  fix t q assume F: "pairs_fenced ps" "(s, p) \<in> set ps" "(t, q) \<in> set ps"
  then have "fence t p" "fence s q" by (auto intro: pairs_fencedD)
  then show "fence s q \<and> t \<noteq> []" using fenceD(4) by blast
qed

lemma scrub_pairs_clean:
  "pairs_fenced ps \<Longrightarrow> (s, p) \<in> set ps \<Longrightarrow> \<not> sublist s (replace_pairs ps x)"
  by (rule replace_pairs_removes[OF pairs_fenced_all])

definition fenced_for :: "string \<Rightarrow> secret_binding list \<Rightarrow> bool" where
  "fenced_for hostname bs = pairs_fenced (scrub_pairs hostname bs)"

lemma scrub_clean:
  assumes "fenced_for h bs" "b \<in> set bs" "bound_to h b" "real_value b \<noteq> []"
  shows "\<not> sublist (real_value b) (fst (scrub x h bs))"
proof -
  have "(real_value b, placeholder b) \<in> set (scrub_pairs h bs)"
    using assms by (auto simp: scrub_pairs_def)
  then show ?thesis
    using assms(1) scrub_pairs_clean by (auto simp: fst_scrub fenced_for_def)
qed

subsection \<open>Injection keeps the lines of the head\<close>

text \<open>What \<^verbatim>\<open>SecretBinding::new\<close> checks: no line break in the value, and a placeholder made of the
  environment name and hexadecimal digits.\<close>

definition header_safe :: "secret_binding \<Rightarrow> bool" where
  "header_safe b \<longleftrightarrow> placeholder b \<noteq> [] \<and> no_crlf (placeholder b) \<and> CHR '':'' \<notin> set (placeholder b)
     \<and> no_crlf (real_value b)"

lemma hexdigits_safe: "list_all is_ascii_hexdigit s \<Longrightarrow> no_crlf s \<and> CHR '':'' \<notin> set s"
  by (auto simp: list_all_iff no_crlf_def ascii_defs char_code_def)

lemma new_binding_Inr:
  assumes "new_binding to_lower rnd env real hosts = Inr b"
  shows "no_crlf real \<and> list_all (\<lambda>h. CHR ''*'' \<notin> set h) hosts
    \<and> (\<exists>buf. rnd = Inr buf \<and> placeholder b = ''redan_ph_'' @ to_lower env @ ''_'' @ hex_encode buf)
    \<and> real_value b = real \<and> allowed_hosts b = hosts"
  using assms
  by (auto simp: new_binding_def no_crlf_def list_all_iff find_None_iff
      split: if_splits option.splits sum.splits)

lemma new_binding_header_safe:
  assumes "new_binding to_lower rnd env real hosts = Inr b"
    "no_crlf (to_lower env)" "CHR '':'' \<notin> set (to_lower env)"
  shows "header_safe b"
  using new_binding_Inr[OF assms(1)] assms(2,3) hexdigits_safe[OF hex_encode_hexdigits]
  by (auto simp: header_safe_def)

lemma set_greedy: "set (greedy s p x) \<subseteq> set x \<union> set p"
proof (induction s p x rule: greedy.induct)
  case (2 s p x xs)
  then show ?case by (auto simp: greedy.simps(2) dest!: in_set_dropD set_mp)
qed simp

lemma greedy_keeps_char: "c \<notin> set s \<Longrightarrow> c \<in> set x \<Longrightarrow> c \<in> set (greedy s p x)"
proof (induction s p x rule: greedy.induct)
  case (2 s p x xs)
  show ?case
  proof (cases "s \<noteq> [] \<and> prefix s (x # xs)")
    case True
    then obtain r where "x # xs = s @ r" by (auto simp: prefix_def)
    with 2 True show ?thesis by (auto simp: greedy_match)
  next
    case False
    with 2 show ?thesis by (auto simp: greedy.simps(2))
  qed
qed simp

lemma greedy_no_crlf: "no_crlf x \<Longrightarrow> no_crlf p \<Longrightarrow> no_crlf (greedy s p x)"
  using set_greedy[of s p x] by (auto simp: no_crlf_def)

lemma fence_CRLF: "s \<noteq> [] \<Longrightarrow> no_crlf s \<Longrightarrow> fence s CRLF"
proof -
  assume s: "s \<noteq> []" "no_crlf s"
  have "\<not> sublist s CRLF" using s set_mono_sublist[of s CRLF] by (cases s) (auto simp: CRLF_def)
  moreover have "\<not> sublist CRLF s" using s set_mono_sublist[of CRLF s] by (auto simp: CRLF_def no_crlf_def)
  moreover have "t \<noteq> [] \<Longrightarrow> suffix t CRLF \<Longrightarrow> \<not> prefix t s" for t
    using s set_mono_suffix[of t CRLF] set_mono_prefix[of t s]
    by (cases t) (auto simp: CRLF_def no_crlf_def)
  moreover have "t \<noteq> [] \<Longrightarrow> prefix t CRLF \<Longrightarrow> \<not> suffix t s" for t
    using s set_mono_prefix[of t CRLF] set_mono_suffix[of t s]
    by (cases t) (auto simp: CRLF_def no_crlf_def)
  ultimately show ?thesis by (auto simp: fence_def list_all_iff)
qed

lemma greedy_lines:
  "s \<noteq> [] \<Longrightarrow> no_crlf s \<Longrightarrow>
   greedy s p (crlf_terminated ls @ CRLF) = crlf_terminated (map (greedy s p) ls) @ CRLF"
proof (induction ls)
  case Nil
  then show ?case using greedy_fence_app[OF fence_CRLF, of s p "[]" "[]"] by simp
next
  case (Cons l ls)
  then show ?case
    using greedy_fence_app[OF fence_CRLF, of s p l "crlf_terminated ls @ CRLF"] by simp
qed

lemma replace_pairs_lines:
  "\<forall>(s, p)\<in>set ps. s \<noteq> [] \<and> no_crlf s \<Longrightarrow>
   replace_pairs ps (crlf_terminated ls @ CRLF) = crlf_terminated (map (replace_pairs ps) ls) @ CRLF"
proof (induction ps arbitrary: ls)
  case (Cons a ps)
  then have "replace_pairs ps (crlf_terminated (map (greedy (fst a) (snd a)) ls) @ CRLF)
      = crlf_terminated (map (replace_pairs ps) (map (greedy (fst a) (snd a)) ls)) @ CRLF"
    by simp
  then show ?case
    using Cons.prems by (cases a) (simp add: greedy_lines comp_def split_def replace_pairs_def)
qed (simp add: map_idI)

lemma replace_pairs_line_ok:
  "\<forall>(s, p)\<in>set ps. CHR '':'' \<notin> set s \<and> no_crlf p \<Longrightarrow> CHR '':'' \<in> set l \<Longrightarrow> no_crlf l \<Longrightarrow>
   CHR '':'' \<in> set (replace_pairs ps l) \<and> no_crlf (replace_pairs ps l)"
  by (induction ps arbitrary: l) (auto simp: greedy_keeps_char greedy_no_crlf)

lemma header_region_head:
  assumes "no_crlf first" "\<And>l. l \<in> set ls \<Longrightarrow> l \<noteq> [] \<and> no_crlf l"
  shows "header_region (head_text first ls @ body) = (length first + 2, length (head_text first ls))"
proof -
  have "find_header_end (head_text first ls @ body) = Some (length (head_text first ls))"
    by (rule find_header_end_head[OF assms])
  moreover have "find_sub CRLF (head_text first ls) = Some (length first)"
    unfolding head_text_def by (rule find_sub_no_crlf[OF assms(1)])
  ultimately show ?thesis by (simp add: header_region_def)
qed

lemma inject_pairs_safe:
  "\<forall>b\<in>set bs. header_safe b \<Longrightarrow>
   \<forall>(s, p)\<in>set (inject_pairs h bs). s \<noteq> [] \<and> no_crlf s \<and> CHR '':'' \<notin> set s \<and> no_crlf p"
  by (auto simp: inject_pairs_def header_safe_def)

definition header_text_line :: "bytes \<Rightarrow> bool" where
  "header_text_line l \<longleftrightarrow> CHR '':'' \<in> set l \<and> no_crlf l"

lemma header_text_line_ok: "header_text_line l \<Longrightarrow> l \<noteq> [] \<and> no_crlf l"
  by (auto simp: header_text_line_def)

lemma inject_literal_head:
  assumes "no_crlf first" "\<forall>l\<in>set ls. header_text_line l" "\<forall>b\<in>set bs. header_safe b"
  shows "fst (inject_literal (head_text first ls @ body) h bs)
    = head_text first (map (replace_pairs (inject_pairs h bs)) ls) @ body"
proof -
  define hb where "hb = crlf_terminated ls @ CRLF"
  obtain hb' c where r: "inject_headers h bs hb 0 = (hb', c)" by fastforce
  have reg: "header_region (head_text first ls @ body) = (length first + 2, length (head_text first ls))"
    using assms(1,2) header_text_line_ok by (intro header_region_head) auto
  have cut: "take (length first + 2) (head_text first ls @ body) = first @ CRLF"
    "drop (length first + 2) (head_text first ls) = hb"
    "head_text first ls = first @ CRLF @ hb"
    by (simp_all add: head_text_def hb_def CRLF_def)
  have hb': "hb' = crlf_terminated (map (replace_pairs (inject_pairs h bs)) ls) @ CRLF"
    using inject_headers_pairs[of h bs hb 0] r inject_pairs_safe[OF assms(3), of h]
      replace_pairs_lines[of "inject_pairs h bs" ls]
    by (fastforce simp: hb_def)
  have "hb' = hb" if "c = 0" using inject_headers_zero[of h bs hb 0] r that by simp
  then show ?thesis
    using reg cut r hb' by (auto simp: inject_literal_def head_text_def hb_def)
qed

lemma replace_credentials_count: "n \<le> snd (replace_credentials bs d n)"
  by (induction bs d n rule: replace_credentials.induct) auto

lemma inject_basic_header_line:
  "\<forall>x. no_crlf (b64enc x) \<Longrightarrow> hdr_name hr \<noteq> [] \<Longrightarrow> no_crlf (hdr_name hr) \<Longrightarrow> no_crlf (hdr_value hr) \<Longrightarrow>
   header_text_line (fst (inject_basic_header b64dec b64enc app hr))"
  by (auto simp: inject_basic_header_def header_text_line_def try_inject_basic_def
      split: option.splits bind_splits prod.splits if_splits)

lemma inject_basic_auth_head:
  assumes "request_parser pr" "\<forall>x. no_crlf (b64enc x)"
    "wf_token m" "wf_token p" "v \<le> 1" "\<forall>l\<in>set ls. header_text_line l"
  shows "\<exists>ls'. fst (inject_basic_auth pr b64dec b64enc (head_text (request_line m p v) ls @ body) h bs)
    = head_text (request_line m p v) ls' @ body \<and> length ls' = length ls
      \<and> (\<forall>l\<in>set ls'. header_text_line l)"
proof -
  let ?d = "head_text (request_line m p v) ls @ body"
  have "\<forall>l\<in>set ls. l \<noteq> [] \<and> no_crlf l" using assms(6) header_text_line_ok by blast
  with assms(1,3,4,5) consider "pr ?d = Parse_error"
    | hs where "pr ?d = Complete (length (head_text (request_line m p v) ls))
          \<lparr>req_method = Some m, req_path = Some p, req_version = Some v, req_headers = hs\<rparr>"
        "length hs = length ls" "\<forall>h\<in>set hs. hdr_name h \<noteq> [] \<and> no_crlf (hdr_name h) \<and> no_crlf (hdr_value h)"
    unfolding request_parser_def by meson
  then show ?thesis
  proof cases
    case 1
    then show ?thesis using assms(6) by (auto simp: inject_basic_auth_def Let_def)
  next
    case (2 hs)
    let ?app = "filter (bound_to h) bs"
    let ?ls = "map fst (map (inject_basic_header b64dec b64enc ?app) hs)"
    have "fst (inject_basic_auth pr b64dec b64enc ?d h bs) = ?d
        \<or> fst (inject_basic_auth pr b64dec b64enc ?d h bs) = head_text (request_line m p v) ?ls @ body"
      using 2 by (simp add: inject_basic_auth_def Let_def)
    moreover have "\<forall>l\<in>set ?ls. header_text_line l"
      using 2 inject_basic_header_line[OF assms(2)] by auto
    moreover have "length ?ls = length ls" using 2 by simp
    ultimately show ?thesis using assms(6) by blast
  qed
qed

lemma inject_head:
  assumes "request_parser pr" "\<forall>x. no_crlf (b64enc x)"
    "wf_token m" "wf_token p" "v \<le> 1" "\<forall>l\<in>set ls. header_text_line l" "\<forall>b\<in>set bs. header_safe b"
  shows "\<exists>ls'. fst (inject pr b64dec b64enc (head_text (request_line m p v) ls @ body) h bs)
    = head_text (request_line m p v) ls' @ body \<and> length ls' = length ls
      \<and> (\<forall>l\<in>set ls'. header_text_line l)"
proof -
  let ?ls = "map (replace_pairs (inject_pairs h bs)) ls"
  have "no_crlf (request_line m p v)" using assms(3,4) request_line_no_crlf by blast
  then have lit: "fst (inject_literal (head_text (request_line m p v) ls @ body) h bs)
      = head_text (request_line m p v) ?ls @ body"
    using assms(6,7) by (intro inject_literal_head)
  have "\<forall>l\<in>set ?ls. header_text_line l"
    using assms(6) replace_pairs_line_ok[of "inject_pairs h bs"] inject_pairs_safe[OF assms(7), of h]
    by (fastforce simp: header_text_line_def)
  then obtain ls' where "fst (inject_basic_auth pr b64dec b64enc (head_text (request_line m p v) ?ls @ body) h bs)
    = head_text (request_line m p v) ls' @ body" "length ls' = length ls" "\<forall>l\<in>set ls'. header_text_line l"
    using inject_basic_auth_head[OF assms(1-5), of ?ls b64dec body h bs] by auto
  then show ?thesis
    using lit assms(6)
    by (cases "inject_literal (head_text (request_line m p v) ls @ body) h bs") (auto simp: inject_def split: prod.splits)
qed

subsection \<open>The rewritten request\<close>

definition is_header :: "string \<Rightarrow> http_header \<Rightarrow> bool" where
  "is_header name h \<longleftrightarrow> eq_ignore_ascii_case (hdr_name h) name"

definition close_header :: http_header where
  "close_header = \<lparr>hdr_name = ''Connection'', hdr_value = ''close''\<rparr>"

definition hardened_headers :: "http_header list \<Rightarrow> http_header list" where
  "hardened_headers hs =
     map (\<lambda>h. if is_header ''connection'' h then close_header else h)
       (filter (\<lambda>h. \<not> is_header ''accept-encoding'' h) hs)
     @ (if list_ex (is_header ''connection'') hs then [] else [close_header])"

lemma close_header_line: "header_line close_header = ''Connection: close''"
  by (simp add: header_line_def close_header_def)

lemma connection_not_accept: "is_header ''connection'' h \<Longrightarrow> \<not> is_header ''accept-encoding'' h"
  by (auto simp: is_header_def eq_ignore_ascii_case_def to_ascii_lowercase_def ascii_lower_char_def
      is_ascii_upper_def char_code_def)

lemma rewrite_header_lines:
  "rewrite_header_lines hs c =
     (map header_line (map (\<lambda>h. if is_header ''connection'' h then close_header else h)
        (filter (\<lambda>h. \<not> is_header ''accept-encoding'' h) hs)),
      c \<or> list_ex (is_header ''connection'') hs)"
proof (induction hs arbitrary: c)
  case (Cons h hs)
  then show ?case
    using connection_not_accept[of h]
    by (auto simp: is_header_def close_header_def header_line_def split: prod.splits)
qed simp

lemma rewrite_request_complete:
  "pr data = Complete n \<lparr>req_method = Some m, req_path = Some p, req_version = Some v, req_headers = hs\<rparr> \<Longrightarrow>
   rewrite_request_headers pr data
     = head_text (request_line m p v) (map header_line (hardened_headers hs)) @ drop n data"
  by (simp add: rewrite_request_headers_def rewrite_header_lines hardened_headers_def close_header_line)

lemma is_header_close [simp]: "is_header ''connection'' close_header"
  by (simp add: is_header_def close_header_def eq_ignore_ascii_case_def to_ascii_lowercase_def
      ascii_lower_char_def is_ascii_upper_def char_code_def char_of_def bit_0)

lemma hardened_no_accept: "h \<in> set (hardened_headers hs) \<Longrightarrow> \<not> is_header ''accept-encoding'' h"
  using connection_not_accept[of close_header] by (auto simp: hardened_headers_def split: if_splits)

lemma hardened_connection:
  "h \<in> set (hardened_headers hs) \<Longrightarrow> is_header ''connection'' h \<Longrightarrow> h = close_header"
  by (auto simp: hardened_headers_def split: if_splits)

lemma hardened_has_close: "close_header \<in> set (hardened_headers hs)"
  using connection_not_accept by (force simp: hardened_headers_def list_ex_iff)

lemma hardened_keeps:
  "\<not> is_header name close_header \<Longrightarrow> \<not> eq_ignore_ascii_case name ''accept-encoding'' \<Longrightarrow>
   \<not> eq_ignore_ascii_case name ''connection'' \<Longrightarrow>
   filter (is_header name) (hardened_headers hs) = filter (is_header name) hs"
  by (induction hs)
     (auto simp: hardened_headers_def is_header_def eq_ignore_ascii_case_def)

lemma hardened_idem: "hardened_headers (hardened_headers hs) = hardened_headers hs"
proof -
  have "filter (\<lambda>h. \<not> is_header ''accept-encoding'' h) (hardened_headers hs) = hardened_headers hs"
    using hardened_no_accept by (auto simp: filter_id_conv)
  moreover have "map (\<lambda>h. if is_header ''connection'' h then close_header else h) (hardened_headers hs)
      = hardened_headers hs"
    by (intro map_idI) (auto dest: hardened_connection)
  moreover have "list_ex (is_header ''connection'') (hardened_headers hs)"
    using hardened_has_close[of hs] is_header_close unfolding list_ex_iff by blast
  ultimately show ?thesis by (simp add: hardened_headers_def[of "hardened_headers hs"])
qed

lemma is_header_close_iff: "is_header name close_header \<longleftrightarrow> eq_ignore_ascii_case name ''connection''"
  using is_header_close by (auto simp: is_header_def eq_ignore_ascii_case_def)

lemma length_hardened: "length (hardened_headers hs) \<le> Suc (length hs)"
  by (simp add: hardened_headers_def le_SucI)

lemma close_header_wf: "wf_header close_header"
  by code_simp

lemma hardened_wf: "list_all wf_header hs \<Longrightarrow> list_all wf_header (hardened_headers hs)"
  using close_header_wf by (auto simp: hardened_headers_def list_all_iff)

lemma rewrite_request_canonical:
  "request_parser pr \<Longrightarrow> wf_token m \<Longrightarrow> wf_token p \<Longrightarrow> v \<le> 1 \<Longrightarrow> list_all wf_header hs \<Longrightarrow> length hs \<le> 128 \<Longrightarrow>
   rewrite_request_headers pr (head_text (request_line m p v) (map header_line hs) @ body)
     = head_text (request_line m p v) (map header_line (hardened_headers hs)) @ body"
  by (subst rewrite_request_complete) (auto simp: request_parser_def)

subsection \<open>Properties\<close>

definition demo_binding :: secret_binding where
  "demo_binding = \<lparr>placeholder = ''redan_ph_key_0a1b'', real_value = ''sk-live-77'',
     allowed_hosts = [''api.test'']\<rparr>"

definition demo_other :: secret_binding where
  "demo_other = \<lparr>placeholder = ''redan_ph_tok_2c3d'', real_value = ''ghp_zz9'',
     allowed_hosts = [''api.test'', ''git.test'']\<rparr>"

text \<open>
  Injection and scrubbing are scoped to the host. They read nothing of a binding whose hosts do
  not contain the name of the connection: two sets of bindings with the same bindings for the host
  give the same result, and with none the data is returned unchanged.
\<close>
lemma secrets_scoped_to_host:
  "filter (bound_to hostname) bs = filter (bound_to hostname) bs' \<Longrightarrow>
   inject pr b64dec b64enc data hostname bs = inject pr b64dec b64enc data hostname bs'
   \<and> scrub data hostname bs = scrub data hostname bs'
   \<and> (filter (bound_to hostname) bs = [] \<longrightarrow>
        inject pr b64dec b64enc data hostname bs = (data, 0) \<and> scrub data hostname bs = (data, 0))"
proof -
  assume eq: "filter (bound_to hostname) bs = filter (bound_to hostname) bs'"
  have "inject pr b64dec b64enc data hostname bs = inject pr b64dec b64enc data hostname bs'"
    using inject_filter[of pr b64dec b64enc data hostname bs]
      inject_filter[of pr b64dec b64enc data hostname bs'] eq by simp
  moreover have "scrub data hostname bs = scrub data hostname bs'"
    using scrub_filter[of data hostname bs] scrub_filter[of data hostname bs'] eq by simp
  moreover have "inject pr b64dec b64enc data hostname [] = (data, 0)" "scrub data hostname [] = (data, 0)"
    by (simp_all add: inject_def inject_literal_def inject_basic_auth_def scrub_def split: prod.splits)
  ultimately show ?thesis
    using inject_filter[of pr b64dec b64enc data hostname bs] scrub_filter[of data hostname bs] by auto
qed

text \<open>
  C14: injection keeps the structure of the request. For a head of CRLF lines and bindings as
  \<^verbatim>\<open>SecretBinding::new\<close> makes them, the injected request has the same request line, the same
  number of header lines, none of them empty or broken, and the same body: no secret value can add
  a header, end the head early or reach the request line or the body.
\<close>
theorem inject_keeps_structure:
  assumes "request_parser pr" "\<forall>x. no_crlf (b64enc x)"
    "wf_token m" "wf_token p" "v \<le> 1" "\<forall>l\<in>set ls. header_text_line l"
    "\<forall>b\<in>set secrets. \<exists>rnd env real hosts to_lower. new_binding to_lower rnd env real hosts = Inr b
        \<and> no_crlf (to_lower env) \<and> CHR '':'' \<notin> set (to_lower env)"
  shows "\<exists>ls'. fst (inject pr b64dec b64enc (head_text (request_line m p v) ls @ body) hostname secrets)
      = head_text (request_line m p v) ls' @ body
    \<and> length ls' = length ls \<and> (\<forall>l\<in>set ls'. header_text_line l)"
  using inject_head[OF assms(1-6), of secrets b64dec body hostname] new_binding_header_safe assms(7)
  by blast

theorem inject_keeps_structure_witness:
  "\<exists>ls'. fst (inject simple_request (\<lambda>_. None) hex_encode
        (head_text (request_line ''GET'' ''/v1'' 1) [''Host: api.test'', ''X-Key: redan_ph_k_0a''] @ ''body'')
        ''api.test'' [\<lparr>placeholder = ''redan_ph_k_0a'', real_value = ''sk-7'', allowed_hosts = [''api.test'']\<rparr>])
      = head_text (request_line ''GET'' ''/v1'' 1) ls' @ ''body''
    \<and> length ls' = length [''Host: api.test'', ''X-Key: redan_ph_k_0a''] \<and> (\<forall>l\<in>set ls'. header_text_line l)"
proof (rule inject_keeps_structure[OF simple_request_parser])
  show "\<forall>x. no_crlf (hex_encode x)" using hexdigits_safe[OF hex_encode_hexdigits] by blast
  have "new_binding (\<lambda>s. to_ascii_lowercase s) (Inr [CHR 0x0A]) ''K'' ''sk-7'' [''api.test'']
      = Inr \<lparr>placeholder = ''redan_ph_k_0a'', real_value = ''sk-7'', allowed_hosts = [''api.test'']\<rparr>"
    "no_crlf (to_ascii_lowercase ''K'')" "CHR '':'' \<notin> set (to_ascii_lowercase ''K'')"
    by code_simp+
  then show "\<forall>b\<in>set [\<lparr>placeholder = ''redan_ph_k_0a'', real_value = ''sk-7'', allowed_hosts = [''api.test'']\<rparr>].
      \<exists>rnd env real hosts to_lower. new_binding to_lower rnd env real hosts = Inr b
        \<and> no_crlf (to_lower env) \<and> CHR '':'' \<notin> set (to_lower env)"
    unfolding list.set ball_simps by blast
qed code_simp+



text \<open>
  C32: a rewritten request asks for an uncompressed response and a closing connection. On a complete
  parse no \<^verbatim>\<open>Accept-Encoding\<close> header is left, every \<^verbatim>\<open>Connection\<close> header is \<^verbatim>\<open>close\<close> and there is
  one, the headers of every other name are kept in order, request line and body are kept, and
  rewriting the result again changes nothing.
\<close>
theorem rewrite_request_hardens:
  assumes "request_parser pr" "wf_token m" "wf_token p" "v \<le> 1" "list_all wf_header hs" "length hs < 128"
  shows "rewrite_request_headers pr (head_text (request_line m p v) (map header_line hs) @ body)
      = head_text (request_line m p v) (map header_line (hardened_headers hs)) @ body
    \<and> (\<forall>h\<in>set (hardened_headers hs). \<not> is_header ''accept-encoding'' h
         \<and> (is_header ''connection'' h \<longrightarrow> h = close_header))
    \<and> close_header \<in> set (hardened_headers hs)
    \<and> (\<forall>name. \<not> eq_ignore_ascii_case name ''connection'' \<longrightarrow> \<not> eq_ignore_ascii_case name ''accept-encoding'' \<longrightarrow>
         filter (is_header name) (hardened_headers hs) = filter (is_header name) hs)
    \<and> rewrite_request_headers pr (rewrite_request_headers pr (head_text (request_line m p v) (map header_line hs) @ body))
      = rewrite_request_headers pr (head_text (request_line m p v) (map header_line hs) @ body)"
proof -
  let ?in = "head_text (request_line m p v) (map header_line hs) @ body"
  let ?out = "head_text (request_line m p v) (map header_line (hardened_headers hs)) @ body"
  have 1: "rewrite_request_headers pr ?in = ?out"
    by (rule rewrite_request_canonical) (use assms in auto)
  have "rewrite_request_headers pr ?out
      = head_text (request_line m p v) (map header_line (hardened_headers (hardened_headers hs))) @ body"
    by (rule rewrite_request_canonical) (use assms hardened_wf[of hs] length_hardened[of hs] in auto)
  then have 2: "rewrite_request_headers pr ?out = ?out" by (simp add: hardened_idem)
  show ?thesis
    using 1 2 hardened_no_accept hardened_connection hardened_has_close hardened_keeps
    by (simp add: is_header_close_iff)
qed

theorem rewrite_request_hardens_witness:
  "rewrite_request_headers simple_request
     (head_text (request_line ''GET'' ''/'' 1)
        (map header_line [\<lparr>hdr_name = ''Host'', hdr_value = ''a.test''\<rparr>,
           \<lparr>hdr_name = ''accept-encoding'', hdr_value = ''gzip''\<rparr>]) @ ''x'')
   = head_text (request_line ''GET'' ''/'' 1)
        [''Host: a.test'', ''Connection: close''] @ ''x''"
proof -
  have w: "wf_token ''GET''" "wf_token ''/''" "(1::nat) \<le> 1"
    "list_all wf_header [\<lparr>hdr_name = ''Host'', hdr_value = ''a.test''\<rparr>, \<lparr>hdr_name = ''accept-encoding'', hdr_value = ''gzip''\<rparr>]"
    "length [\<lparr>hdr_name = ''Host'', hdr_value = ''a.test''\<rparr>, \<lparr>hdr_name = ''accept-encoding'', hdr_value = ''gzip''\<rparr>] < 128"
    by code_simp+
  have "map header_line (hardened_headers [\<lparr>hdr_name = ''Host'', hdr_value = ''a.test''\<rparr>,
      \<lparr>hdr_name = ''accept-encoding'', hdr_value = ''gzip''\<rparr>]) = [''Host: a.test'', ''Connection: close'']"
    by code_simp
  with rewrite_request_hardens[OF simple_request_parser w, of "''x''"] show ?thesis by argo
qed

end
