(* ===== verification/Forward.thy ===== *)
theory Forward
  imports Prelude
begin

text \<open>
  TCP port forwarding specifications, \<^verbatim>\<open>parse_forward_spec\<close> of \<^verbatim>\<open>src/src/proxy.rs\<close>. Ports keep
  their width of 16 bits.
\<close>

definition RESERVED_PORTS :: "16 word list" where
  "RESERVED_PORTS = [22, 53, 80, 443]"

record forward_spec =
  guest_port :: "16 word"
  host_port :: "16 word"

datatype forward_error =
  Invalid_guest_port string | Invalid_host_port string | Guest_port_zero | Host_port_zero
| Guest_port_reserved "16 word"

definition split_spec :: "string \<Rightarrow> string \<times> string" where
  "split_spec spec = (case split_once (CHR '':'') spec of Some (g, h) \<Rightarrow> (g, h) | None \<Rightarrow> (spec, spec))"

definition parse_forward_spec :: "string \<Rightarrow> forward_error + forward_spec" where
  "parse_forward_spec spec =
     (case split_spec spec of (guest_str, host_str) \<Rightarrow>
        bindR (ok_or (parse_u16 guest_str) (Invalid_guest_port guest_str)) (\<lambda>guest.
        bindR (ok_or (parse_u16 host_str) (Invalid_host_port host_str)) (\<lambda>host.
          if guest = 0 then Inl Guest_port_zero
          else if host = 0 then Inl Host_port_zero
          else if guest \<in> set RESERVED_PORTS then Inl (Guest_port_reserved guest)
          else Inr \<lparr>guest_port = guest, host_port = host\<rparr>)))"

text \<open>The warning about a privileged host port is logged and changes nothing.\<close>

definition show_forward :: "forward_spec \<Rightarrow> string" where
  "show_forward f = show_nat (unat (guest_port f)) @ '':'' @ show_nat (unat (host_port f))"

definition forward_ok :: "forward_spec \<Rightarrow> bool" where
  "forward_ok f \<longleftrightarrow> guest_port f \<noteq> 0 \<and> host_port f \<noteq> 0 \<and> guest_port f \<notin> set RESERVED_PORTS"

lemma colon_show_nat [simp]: "CHR '':'' \<notin> set (show_nat n)"
  by (rule notin_show_nat) (simp add: is_ascii_digit_def char_code_def)

lemma parse_forward_spec_Inr:
  "parse_forward_spec spec = Inr f \<longleftrightarrow>
     (case split_spec spec of (g, h) \<Rightarrow>
        parse_u16 g = Some (guest_port f) \<and> parse_u16 h = Some (host_port f)) \<and> forward_ok f"
  by (cases f) (auto simp: parse_forward_spec_def forward_ok_def res_inv split: prod.splits if_splits)

lemma split_spec_show: "split_spec (show_forward f) = (show_nat (unat (guest_port f)), show_nat (unat (host_port f)))"
  by (simp add: split_spec_def show_forward_def split_once_append)

lemma split_spec_single: "split_spec (show_nat n) = (show_nat n, show_nat n)"
  by (simp add: split_spec_def split_once_None[THEN iffD2])

lemma parse_u16_colon: "CHR '':'' \<in> set s \<Longrightarrow> parse_u16 s = None"
  by (simp add: parse_u16_def parse_unsigned_colon)

text \<open>
  \<^verbatim>\<open>parse_forward_spec\<close> accepts exactly the specifications whose two sides are port numbers, and
  what it returns is never port 0 and never forwards one of the proxy's own guest ports. Printing
  an allowed forwarding and parsing it gives it back, and a single number stands for both sides.
\<close>
lemma forward_spec_exact:
  "(parse_forward_spec spec = Inr f \<longleftrightarrow>
      (case split_spec spec of (g, h) \<Rightarrow>
         parse_u16 g = Some (guest_port f) \<and> parse_u16 h = Some (host_port f)) \<and> forward_ok f)
   \<and> (forward_ok f \<longrightarrow> parse_forward_spec (show_forward f) = Inr f)
   \<and> (forward_ok \<lparr>guest_port = n, host_port = n\<rparr> \<longrightarrow>
        parse_forward_spec (show_nat (unat n)) = Inr \<lparr>guest_port = n, host_port = n\<rparr>)"
  by (simp add: parse_forward_spec_Inr split_spec_show split_spec_single parse_u16_show)

end
