(* ===== verification/Vm.thy ===== *)
theory Vm
  imports Host
begin

text \<open>
  The micro-VM of \<^verbatim>\<open>src/src/vm.rs\<close>: its configuration, the sequence of libkrun calls that configures
  and starts it (\<^verbatim>\<open>run_vm\<close>), the exit code of the child process and the shell commands of the boot
  script. Every libkrun function is a parameter, namely the integer it returns; the calls are
  recorded in order.
\<close>

record vm_config =
  vm_rootfs :: string
  vm_vcpus :: "8 word"
  vm_ram_mib :: "32 word"
  vm_command :: string
  vm_env :: "string list"
  vm_mounts :: "(string \<times> string \<times> bool) list"  \<comment> \<open>tag, host path, read only\<close>
  vm_interactive :: bool

definition EXIT_VMM_ERROR :: int where
  "EXIT_VMM_ERROR = 125"

text \<open>A wait status, by what the \<^verbatim>\<open>WIF*\<close> macros say of it.\<close>

datatype wait_status = Exited "8 word" | Signaled "7 word" | Stopped

definition exit_code_from_wait_status :: "wait_status \<Rightarrow> int" where
  "exit_code_from_wait_status s =
     (case s of Exited c \<Rightarrow> uint c | Signaled sig \<Rightarrow> 128 + uint sig | Stopped \<Rightarrow> EXIT_VMM_ERROR)"

text \<open>What the two \<^verbatim>\<open>waitpid\<close> calls of \<^verbatim>\<open>shutdown\<close> return: the child, nothing yet, or an error. The
  result says whether the child was killed.\<close>

datatype wait_result = Reaped wait_status | Still_running | Wait_error

definition shutdown :: "wait_result \<Rightarrow> wait_result \<Rightarrow> int \<times> bool" where
  "shutdown first second =
     (case first of
        Reaped s \<Rightarrow> (exit_code_from_wait_status s, False)
      | Wait_error \<Rightarrow> (EXIT_VMM_ERROR, False)
      | Still_running \<Rightarrow>
          ((case second of Reaped s \<Rightarrow> exit_code_from_wait_status s | _ \<Rightarrow> EXIT_VMM_ERROR), True))"

subsection \<open>Configuring libkrun\<close>

datatype krun_call = Init_log nat | Create_ctx | Set_vm_config "8 word" "32 word" | Set_root string
| Set_workdir string | Add_net | Add_virtiofs string string bool | Set_rlimits string
| Set_exec string "string list" "string list" | Start_enter

datatype vm_outcome = Returned int | Panicked

text \<open>A run is the outcome, if it has ended, and the calls so far.\<close>

type_synonym vm_run = "vm_outcome option \<times> krun_call list"

definition to_cstring :: "string \<Rightarrow> string option" where
  "to_cstring s = (if CHR 0x00 \<in> set s then None else Some s)"

definition krun_log_level :: "string option \<Rightarrow> nat" where
  "krun_log_level rust_log =
     (case rust_log of
        None \<Rightarrow> 0
      | Some s \<Rightarrow> if str_contains s ''trace'' then 5 else if str_contains s ''debug'' then 4 else 0)"

definition krun_check :: "(krun_call \<Rightarrow> int) \<Rightarrow> krun_call \<Rightarrow> vm_run \<Rightarrow> vm_run" where
  "krun_check ret c r =
     (case r of
        (Some x, tr) \<Rightarrow> (Some x, tr)
      | (None, tr) \<Rightarrow> (if ret c \<ge> 0 then None else Some Panicked, tr @ [c]))"

definition fail_unless :: "bool \<Rightarrow> vm_run \<Rightarrow> vm_run" where
  "fail_unless b r =
     (case r of (Some x, tr) \<Rightarrow> (Some x, tr) | (None, tr) \<Rightarrow> (if b then None else Some (Returned EXIT_VMM_ERROR), tr))"

definition create_ctx :: "(krun_call \<Rightarrow> int) \<Rightarrow> vm_run \<Rightarrow> vm_run" where
  "create_ctx ret r =
     (case r of
        (Some x, tr) \<Rightarrow> (Some x, tr)
      | (None, tr) \<Rightarrow> (if ret Create_ctx \<ge> 0 then None else Some (Returned EXIT_VMM_ERROR), tr @ [Create_ctx]))"

definition is_cstring :: "string \<Rightarrow> bool" where
  "is_cstring s \<longleftrightarrow> to_cstring s \<noteq> None"

fun add_mounts :: "(krun_call \<Rightarrow> int) \<Rightarrow> (string \<times> string \<times> bool) list \<Rightarrow> vm_run \<Rightarrow> vm_run" where
  "add_mounts ret [] r = r"
| "add_mounts ret ((tag, p, ro) # ms) r =
     add_mounts ret ms (krun_check ret (Add_virtiofs tag p ro) (fail_unless (is_cstring tag \<and> is_cstring p) r))"

text \<open>A failing \<^verbatim>\<open>krun_set_rlimits\<close> is only a warning.\<close>

definition call_unchecked :: "krun_call \<Rightarrow> vm_run \<Rightarrow> vm_run" where
  "call_unchecked c r = (case r of (Some x, tr) \<Rightarrow> (Some x, tr) | (None, tr) \<Rightarrow> (None, tr @ [c]))"

definition start_enter :: "(krun_call \<Rightarrow> int) \<Rightarrow> vm_run \<Rightarrow> vm_run" where
  "start_enter ret r =
     (case r of (Some x, tr) \<Rightarrow> (Some x, tr) | (None, tr) \<Rightarrow> (Some (Returned (ret Start_enter)), tr @ [Start_enter]))"

definition run_vm :: "(krun_call \<Rightarrow> int) \<Rightarrow> string option \<Rightarrow> vm_config \<Rightarrow> vm_run" where
  "run_vm ret rust_log cfg =
     (let r = krun_check ret (Init_log (krun_log_level rust_log)) (None, []);
          r = create_ctx ret r;
          r = fail_unless (is_cstring (vm_rootfs cfg)) r;
          r = krun_check ret (Set_vm_config (vm_vcpus cfg) (vm_ram_mib cfg)) r;
          r = krun_check ret (Set_root (vm_rootfs cfg)) r;
          r = krun_check ret (Set_workdir ''/'') r;
          r = krun_check ret Add_net r;
          r = add_mounts ret (vm_mounts cfg) r;
          r = call_unchecked (Set_rlimits ''7=65536:65536'') r;
          r = fail_unless (is_cstring (vm_command cfg)) r;
          r = fail_unless (list_all is_cstring (vm_env cfg)) r;
          r = krun_check ret (Set_exec ''/bin/sh'' [''-c'', vm_command cfg] (vm_env cfg)) r
      in start_enter ret r)"

text \<open>The child: it gives up unless it is armed to die with its parent and still has it. A started
  guest ends the process with its own exit code (\<open>takeover\<close>); it never unwinds, and every return of
  \<^verbatim>\<open>run_vm\<close> is the VMM error code.\<close>

definition boot_child ::
  "(krun_call \<Rightarrow> int) \<Rightarrow> string option \<Rightarrow> bool \<Rightarrow> bool \<Rightarrow> int option \<Rightarrow> vm_config \<Rightarrow> int \<times> krun_call list" where
  "boot_child ret rust_log armed parent_alive takeover cfg =
     (if \<not> armed \<or> \<not> parent_alive then (EXIT_VMM_ERROR, [])
      else (let calls = snd (run_vm ret rust_log cfg)
            in (case takeover of
                  Some code \<Rightarrow> if last calls = Start_enter then code else EXIT_VMM_ERROR
                | None \<Rightarrow> EXIT_VMM_ERROR, calls)))"

subsection \<open>Boot commands\<close>

definition net_setup_commands :: "string \<Rightarrow> string \<Rightarrow> string" where
  "net_setup_commands gateway_ip guest_ip =
     ''ulimit -n 65536 2>/dev/null; ip link set eth0 up; ip addr add '' @ guest_ip
     @ ''/24 dev eth0; ip route add default via '' @ gateway_ip
     @ ''; echo '' @ [CHR 0x27] @ ''nameserver '' @ gateway_ip @ [CHR 0x27] @ '' > /etc/resolv.conf''"

definition ca_update_commands :: string where
  "ca_update_commands = ''update-ca-certificates 2>/dev/null; update-ca-trust 2>/dev/null; true''"

subsection \<open>The calls of a started VM\<close>

definition config_calls :: "string option \<Rightarrow> vm_config \<Rightarrow> krun_call list" where
  "config_calls rust_log cfg =
     [Init_log (krun_log_level rust_log), Create_ctx, Set_vm_config (vm_vcpus cfg) (vm_ram_mib cfg),
      Set_root (vm_rootfs cfg), Set_workdir ''/'', Add_net]
     @ map (\<lambda>(tag, p, ro). Add_virtiofs tag p ro) (vm_mounts cfg)
     @ [Set_rlimits ''7=65536:65536'', Set_exec ''/bin/sh'' [''-c'', vm_command cfg] (vm_env cfg)]"

definition vm_strings :: "vm_config \<Rightarrow> string list" where
  "vm_strings cfg = vm_rootfs cfg # vm_command cfg # vm_env cfg @ map fst (vm_mounts cfg) @ map (fst \<circ> snd) (vm_mounts cfg)"

lemmas vm_steps = krun_check_def fail_unless_def create_ctx_def call_unchecked_def start_enter_def

text \<open>A run that has not ended made exactly the calls so far, all of them successful.\<close>

lemma add_mounts_None:
  "fst (add_mounts ret ms r) = None \<longleftrightarrow>
     fst r = None \<and> list_all (\<lambda>(t, p, ro). is_cstring t \<and> is_cstring p \<and> 0 \<le> ret (Add_virtiofs t p ro)) ms"
proof (induction ret ms r rule: add_mounts.induct)
  case (2 ret tag p ro ms r)
  obtain x tr where "r = (x, tr)" by fastforce
  then show ?case using 2 by (cases x) (auto simp: vm_steps)
qed simp

lemma add_mounts_calls:
  "fst (add_mounts ret ms r) = None \<Longrightarrow>
   snd (add_mounts ret ms r) = snd r @ map (\<lambda>(t, p, ro). Add_virtiofs t p ro) ms"
proof (induction ret ms r rule: add_mounts.induct)
  case (2 ret tag p ro ms r)
  let ?r = "krun_check ret (Add_virtiofs tag p ro) (fail_unless (is_cstring tag \<and> is_cstring p) r)"
  have "fst ?r = None" using 2(2) add_mounts_None[of ret ms ?r] by simp
  moreover obtain x tr where "r = (x, tr)" by fastforce
  ultimately have "snd ?r = snd r @ [Add_virtiofs tag p ro]"
    by (cases x) (auto simp: vm_steps split: if_splits)
  then show ?case using 2 by simp
qed simp

text \<open>The steps before the mounts and after them.\<close>

definition before_mounts :: "(krun_call \<Rightarrow> int) \<Rightarrow> string option \<Rightarrow> vm_config \<Rightarrow> vm_run" where
  "before_mounts ret rust_log cfg =
     krun_check ret Add_net (krun_check ret (Set_workdir ''/'') (krun_check ret (Set_root (vm_rootfs cfg))
       (krun_check ret (Set_vm_config (vm_vcpus cfg) (vm_ram_mib cfg)) (fail_unless (is_cstring (vm_rootfs cfg))
         (create_ctx ret (krun_check ret (Init_log (krun_log_level rust_log)) (None, [])))))))"

definition after_mounts :: "(krun_call \<Rightarrow> int) \<Rightarrow> vm_config \<Rightarrow> vm_run \<Rightarrow> vm_run" where
  "after_mounts ret cfg r =
     krun_check ret (Set_exec ''/bin/sh'' [''-c'', vm_command cfg] (vm_env cfg))
       (fail_unless (list_all is_cstring (vm_env cfg)) (fail_unless (is_cstring (vm_command cfg))
         (call_unchecked (Set_rlimits ''7=65536:65536'') r)))"

lemma run_vm_parts:
  "run_vm ret rust_log cfg =
     start_enter ret (after_mounts ret cfg (add_mounts ret (vm_mounts cfg) (before_mounts ret rust_log cfg)))"
  by (simp add: run_vm_def before_mounts_def after_mounts_def Let_def)

lemma before_mounts_None:
  assumes "fst (before_mounts ret rust_log cfg) = None"
  shows "snd (before_mounts ret rust_log cfg) = take 6 (config_calls rust_log cfg) \<and> is_cstring (vm_rootfs cfg)
    \<and> list_all (\<lambda>c. 0 \<le> ret c) (take 6 (config_calls rust_log cfg))"
  using assms by (auto simp: before_mounts_def config_calls_def vm_steps split: if_splits)

lemma after_mounts_None:
  assumes "fst (after_mounts ret cfg r) = None"
  shows "fst r = None \<and> is_cstring (vm_command cfg) \<and> list_all is_cstring (vm_env cfg)
    \<and> snd (after_mounts ret cfg r) = snd r @ [Set_rlimits ''7=65536:65536'', Set_exec ''/bin/sh'' [''-c'', vm_command cfg] (vm_env cfg)]
    \<and> 0 \<le> ret (Set_exec ''/bin/sh'' [''-c'', vm_command cfg] (vm_env cfg))"
proof -
  obtain x tr where "r = (x, tr)" by fastforce
  then show ?thesis using assms by (cases x) (auto simp: after_mounts_def vm_steps split: if_splits)
qed

lemma no_start_before: "Start_enter \<notin> set (snd (before_mounts ret rust_log cfg))"
  by (simp add: before_mounts_def vm_steps split: if_splits)

lemma no_start_mounts: "Start_enter \<notin> set (snd r) \<Longrightarrow> Start_enter \<notin> set (snd (add_mounts ret ms r))"
proof (induction ret ms r rule: add_mounts.induct)
  case (2 ret tag p ro ms r)
  obtain x tr where "r = (x, tr)" by fastforce
  then show ?case using 2 by (cases x) (auto simp: vm_steps)
qed simp

lemma no_start_after: "Start_enter \<notin> set (snd r) \<Longrightarrow> Start_enter \<notin> set (snd (after_mounts ret cfg r))"
proof -
  assume a: "Start_enter \<notin> set (snd r)"
  obtain x tr where "r = (x, tr)" by fastforce
  then show ?thesis using a by (cases x) (auto simp: after_mounts_def vm_steps)
qed

subsection \<open>Properties\<close>

text \<open>
  C25: the guest starts exactly as configured or not at all. When libkrun is entered, every string is
  free of NUL bytes, every checked call before it succeeded, and the calls are those of the
  configuration, in order: the root, each mount with its read-only flag, the shell with the boot
  command, and the environment of the configuration and nothing else (never the host's).
\<close>
theorem run_vm_starts_as_configured:
  assumes "Start_enter \<in> set (snd (run_vm ret rust_log cfg))"
  shows "snd (run_vm ret rust_log cfg) = config_calls rust_log cfg @ [Start_enter]
    \<and> fst (run_vm ret rust_log cfg) = Some (Returned (ret Start_enter))
    \<and> list_all (\<lambda>s. CHR 0x00 \<notin> set s) (vm_strings cfg)
    \<and> list_all (\<lambda>c. if c = Set_rlimits ''7=65536:65536'' then True else 0 \<le> ret c) (config_calls rust_log cfg)"
proof -
  let ?b = "before_mounts ret rust_log cfg"
  let ?m = "add_mounts ret (vm_mounts cfg) ?b"
  let ?a = "after_mounts ret cfg ?m"
  have "Start_enter \<notin> set (snd ?a)" by (intro no_start_after no_start_mounts no_start_before)
  then have a: "fst ?a = None" using assms by (cases ?a) (auto simp: run_vm_parts start_enter_def split: option.splits)
  then have r: "run_vm ret rust_log cfg = (Some (Returned (ret Start_enter)), snd ?a @ [Start_enter])"
    by (cases ?a) (simp add: run_vm_parts start_enter_def)
  note A = after_mounts_None[OF a]
  have m: "fst ?m = None" using A by blast
  have M: "fst ?b = None" "list_all (\<lambda>(t, p, ro). is_cstring t \<and> is_cstring p \<and> 0 \<le> ret (Add_virtiofs t p ro)) (vm_mounts cfg)"
    using m by (simp_all only: add_mounts_None)
  note B = before_mounts_None[OF M(1)]
  have calls: "snd ?a = config_calls rust_log cfg"
    using A B add_mounts_calls[OF m] by (simp add: config_calls_def)
  have nul: "is_cstring s \<longleftrightarrow> CHR 0x00 \<notin> set s" for s by (simp add: is_cstring_def to_cstring_def)
  have "list_all (\<lambda>s. CHR 0x00 \<notin> set s) (vm_strings cfg)"
    using A B M(2) by (auto simp: vm_strings_def nul list_all_iff)
  moreover have "list_all (\<lambda>c. if c = Set_rlimits ''7=65536:65536'' then True else 0 \<le> ret c) (config_calls rust_log cfg)"
    using A B M(2) by (auto simp: config_calls_def list_all_iff)
  ultimately show ?thesis using r calls by simp
qed

definition demo_vm :: vm_config where
  "demo_vm = \<lparr>vm_rootfs = ''/img'', vm_vcpus = 4, vm_ram_mib = 512, vm_command = ''make'', vm_env = [''REDAN=1''],
     vm_mounts = [(''fs0'', ''/w'', True)], vm_interactive = False\<rparr>"

theorem run_vm_starts_as_configured_witness:
  "snd (run_vm (\<lambda>_. 0) None demo_vm) = config_calls None demo_vm @ [Start_enter]"
proof -
  have "Start_enter \<in> set (snd (run_vm (\<lambda>_. 0) None demo_vm))"
    by (simp add: run_vm_def demo_vm_def vm_steps is_cstring_def to_cstring_def Let_def)
  from run_vm_starts_as_configured[OF this] show ?thesis by blast
qed

end
