(* ===== verification/ScrubStream.thy ===== *)
theory ScrubStream
  imports Secret
begin

text \<open>
  The streaming scrubber of \<^verbatim>\<open>src/src/proxy.rs\<close> (\<^verbatim>\<open>write_scrubbed_chunk\<close>, with the
  \<^verbatim>\<open>max_secret_len\<close> that \<^verbatim>\<open>tls_connection_thread\<close> computes and its final flush): the body of a
  response arrives in chunks, and the last \<^verbatim>\<open>max_secret_len - 1\<close> bytes of each scrubbed window are
  held back so that a secret cut by a chunk boundary is still found. The writer is a parameter
  with the interface \<open>writer\<close>.
\<close>

definition MAX_SCRUB_SECRET_LEN :: nat where
  "MAX_SCRUB_SECRET_LEN = 8192"

definition max_secret_len :: "secret_binding list \<Rightarrow> nat" where
  "max_secret_len secrets =
     min (foldr max (map (\<lambda>b. length (real_value b)) secrets) 0) MAX_SCRUB_SECRET_LEN"

definition write_scrubbed_chunk ::
  "('w \<Rightarrow> bytes \<Rightarrow> 'e + 'w) \<Rightarrow> 'w \<Rightarrow> bytes \<Rightarrow> string \<Rightarrow> secret_binding list \<Rightarrow> nat \<Rightarrow> bytes
     \<Rightarrow> 'e + ('w \<times> bytes)" where
  "write_scrubbed_chunk write_all out chunk hostname secrets max_len scrub_overlap =
     (if max_len = 0 \<or> secrets = [] then bindR (write_all out chunk) (\<lambda>out. Inr (out, scrub_overlap))
      else (let window = scrub_overlap @ chunk;
                scrubbed = fst (scrub window hostname secrets);
                overlap_size = max_len - 1
            in if length scrubbed > overlap_size
               then (let safe_end = length scrubbed - overlap_size
                     in bindR (write_all out (take safe_end scrubbed))
                          (\<lambda>out. Inr (out, drop safe_end scrubbed)))
               else Inr (out, scrubbed)))"

fun write_scrubbed_chunks ::
  "('w \<Rightarrow> bytes \<Rightarrow> 'e + 'w) \<Rightarrow> 'w \<Rightarrow> bytes list \<Rightarrow> string \<Rightarrow> secret_binding list \<Rightarrow> nat \<Rightarrow> bytes
     \<Rightarrow> 'e + ('w \<times> bytes)" where
  "write_scrubbed_chunks write_all out [] hostname secrets max_len overlap = Inr (out, overlap)"
| "write_scrubbed_chunks write_all out (c # cs) hostname secrets max_len overlap =
     bindR (write_scrubbed_chunk write_all out c hostname secrets max_len overlap)
       (\<lambda>(out, overlap). write_scrubbed_chunks write_all out cs hostname secrets max_len overlap)"

definition flush_overlap :: "('w \<Rightarrow> bytes \<Rightarrow> 'e + 'w) \<Rightarrow> 'w \<Rightarrow> bytes \<Rightarrow> 'e + 'w" where
  "flush_overlap write_all out overlap = (if overlap \<noteq> [] then write_all out overlap else Inr out)"

definition scrub_body ::
  "('w \<Rightarrow> bytes \<Rightarrow> 'e + 'w) \<Rightarrow> 'w \<Rightarrow> bytes list \<Rightarrow> string \<Rightarrow> secret_binding list \<Rightarrow> 'e + 'w" where
  "scrub_body write_all out chunks hostname secrets =
     bindR (write_scrubbed_chunks write_all out chunks hostname secrets (max_secret_len secrets) [])
       (\<lambda>(out, overlap). flush_overlap write_all out overlap)"

subsection \<open>The pure step and its invariant\<close>

definition scrub_step :: "(bytes \<times> bytes) list \<Rightarrow> nat \<Rightarrow> bytes \<times> bytes \<Rightarrow> bytes \<Rightarrow> bytes \<times> bytes" where
  "scrub_step ps k st chunk =
     (let S = replace_pairs ps (snd st @ chunk)
      in if length S > k then (fst st @ take (length S - k) S, drop (length S - k) S)
         else (fst st, S))"

definition has_placeholder :: "(bytes \<times> bytes) list \<Rightarrow> bytes \<Rightarrow> bool" where
  "has_placeholder ps x \<longleftrightarrow> list_ex (\<lambda>(s, p). sublist p x) ps"

definition stream_inv :: "(bytes \<times> bytes) list \<Rightarrow> nat \<Rightarrow> bytes \<times> bytes \<Rightarrow> bool" where
  "stream_inv ps k st \<longleftrightarrow>
     list_all (\<lambda>(s, p). length s \<le> Suc k \<longrightarrow> \<not> sublist s (fst st @ snd st)) ps
     \<and> (fst st = [] \<or> k \<le> length (snd st) \<or> has_placeholder ps (snd st))"

lemma scrub_step_append: "fst (scrub_step ps k st c) @ snd (scrub_step ps k st c)
    = fst st @ replace_pairs ps (snd st @ c)"
  by (simp add: scrub_step_def Let_def)

lemma has_placeholderI: "(s, p) \<in> set ps \<Longrightarrow> sublist p x \<Longrightarrow> has_placeholder ps x"
  by (auto simp: has_placeholder_def list_ex_iff)

lemma has_placeholder_mono: "has_placeholder ps x \<Longrightarrow> sublist x y \<Longrightarrow> has_placeholder ps y"
  using sublist_order.order.trans by (fastforce simp: has_placeholder_def list_ex_iff)

text \<open>A placeholder survives the scrubbing, and scrubbing changes nothing or leaves one.\<close>

lemma greedy_keeps_fenced: "fence s q \<Longrightarrow> sublist q x \<Longrightarrow> sublist q (greedy s p x)"
  using greedy_fence_app[of s q p] by (auto simp: sublist_def)

lemma replace_pairs_keeps_fenced:
  "\<forall>(s, p)\<in>set ps. fence s q \<Longrightarrow> sublist q x \<Longrightarrow> sublist q (replace_pairs ps x)"
  by (induction ps arbitrary: x) (auto simp: greedy_keeps_fenced)

lemma replace_pairs_dichotomy:
  "\<forall>(s, p)\<in>set ps. s \<noteq> [] \<and> (\<forall>(s', p')\<in>set ps'. fence s p') \<Longrightarrow> set ps \<subseteq> set ps' \<Longrightarrow>
   replace_pairs ps x = x \<or> has_placeholder ps' (replace_pairs ps x)"
proof (induction ps arbitrary: x)
  case (Cons a ps)
  obtain s p where a: "a = (s, p)" by fastforce
  show ?case
  proof (cases "greedy s p x = x")
    case True
    then show ?thesis using Cons a by auto
  next
    case False
    then have "sublist p (greedy s p x)" using greedy_dichotomy[of s p x] Cons.prems a by auto
    moreover have "\<forall>(s', p')\<in>set ps. fence s' p" using Cons.prems a by auto
    ultimately have "sublist p (replace_pairs ps (greedy s p x))"
      by (intro replace_pairs_keeps_fenced)
    then show ?thesis using Cons.prems a by (auto intro: has_placeholderI)
  qed
qed simp

lemma prefix_replace_pairs:
  "\<forall>(t, p)\<in>set ps. fence s p \<and> t \<noteq> [] \<Longrightarrow> suffix r s \<Longrightarrow> prefix r (replace_pairs ps x) \<Longrightarrow> prefix r x"
  by (induction ps arbitrary: x) (auto intro: prefix_greedy[of s])

lemma pairs_fenced_dichotomy:
  "pairs_fenced ps \<Longrightarrow> replace_pairs ps x = x \<or> has_placeholder ps (replace_pairs ps x)"
  by (rule replace_pairs_dichotomy) (auto dest: pairs_fenced_all pairs_fencedD)

text \<open>Whatever part of a secret stands at the front of the next window was there before, and inside
  the part of the window that has already been looked at together with the emitted bytes.\<close>

lemma window_prefix:
  assumes F: "pairs_fenced ps" and s: "(s, p) \<in> set ps" and r: "suffix r s" "length r \<le> k"
    and O: "k \<le> length ov \<or> has_placeholder ps ov" and pre: "prefix r (replace_pairs ps (ov @ c))"
  shows "prefix r ov"
proof -
  have w: "prefix r (ov @ c)"
    using prefix_replace_pairs[OF pairs_fenced_all[OF F s] r(1) pre] .
  from O show ?thesis
  proof
    assume "k \<le> length ov"
    then show ?thesis using w r(2) prefix_length_prefix[of r "ov @ c" ov] by simp
  next
    assume "has_placeholder ps ov"
    then obtain t q where q: "(t, q) \<in> set ps" "sublist q ov"
      by (auto simp: has_placeholder_def list_ex_iff)
    then obtain u v where ov: "ov = u @ q @ v" by (auto simp: sublist_def)
    have "prefix r u"
      using prefix_suffix_fence_app[OF pairs_fencedD[OF F s q(1)] r(1), of u "v @ c"] w ov by simp
    then show ?thesis using ov by simp
  qed
qed

lemma stream_inv_step:
  assumes F: "pairs_fenced ps" and I: "stream_inv ps k st"
  shows "stream_inv ps k (scrub_step ps k st c)"
proof -
  obtain em ov where st: "st = (em, ov)" by fastforce
  define S where "S = replace_pairs ps (ov @ c)"
  have clean: "\<not> sublist s (em @ S)" if s: "(s, p) \<in> set ps" and len: "length s \<le> Suc k" for s p
  proof
    assume "sublist s (em @ S)"
    have old: "\<not> sublist s (em @ ov)" using I s len st by (auto simp: stream_inv_def list_all_iff)
    then have "\<not> sublist s em" by (metis sublist_append)
    moreover have "\<not> sublist s S" using scrub_pairs_clean[OF F s] by (simp add: S_def)
    ultimately obtain a b where ab: "s = a @ b" "suffix a em" "prefix b S"
      using \<open>sublist s (em @ S)\<close> by (auto simp: sublist_append)
    have "a \<noteq> []" using ab \<open>\<not> sublist s S\<close> by auto
    then have "em \<noteq> []" "length b \<le> k" using ab len by (cases a; auto)+
    then have "prefix b ov"
      using window_prefix[OF F s, of b k ov c] I ab st by (auto simp: stream_inv_def S_def suffix_def)
    then have "sublist s (em @ ov)" using ab by (auto simp: sublist_append)
    with old show False ..
  qed
  have "fst (scrub_step ps k st c) = [] \<or> k \<le> length (snd (scrub_step ps k st c))
    \<or> has_placeholder ps (snd (scrub_step ps k st c))"
  proof (cases "length S > k")
    case True
    then show ?thesis by (simp add: scrub_step_def st S_def[symmetric])
  next
    case False
    then have step: "scrub_step ps k st c = (em, S)" by (simp add: scrub_step_def st S_def[symmetric])
    have "S = ov @ c \<or> has_placeholder ps S"
      using pairs_fenced_dichotomy[OF F, of "ov @ c"] by (simp add: S_def)
    then show ?thesis
      using I st step has_placeholder_mono[of ps ov "ov @ c"] by (auto simp: stream_inv_def)
  qed
  then show ?thesis
    using clean scrub_step_append[of ps k st c] by (auto simp: stream_inv_def list_all_iff S_def st)
qed

lemma stream_inv_fold:
  "pairs_fenced ps \<Longrightarrow> stream_inv ps k st \<Longrightarrow> stream_inv ps k (foldl (scrub_step ps k) st cs)"
  by (induction cs arbitrary: st) (simp_all del: split_paired_All add: stream_inv_step)

lemma stream_clean:
  assumes "pairs_fenced ps" "(s, p) \<in> set ps" "length s \<le> Suc k"
  shows "\<not> sublist s (case foldl (scrub_step ps k) ([], []) cs of (em, ov) \<Rightarrow> em @ ov)"
proof -
  have "\<not> sublist s []" using fenceD(4)[OF pairs_fencedD[OF assms(1,2,2)]] by simp
  moreover have "\<forall>(s, p)\<in>set ps. s \<noteq> []" using pairs_fenced_all[OF assms(1,2)] by auto
  ultimately have "stream_inv ps k ([], [])" by (auto simp: stream_inv_def list_all_iff)
  then have "stream_inv ps k (foldl (scrub_step ps k) ([], []) cs)"
    by (rule stream_inv_fold[OF assms(1)])
  then show ?thesis using assms(2,3) by (auto simp: stream_inv_def list_all_iff split_def)
qed

subsection \<open>One secret: the stream is the scrubbed whole\<close>

text \<open>With a single secret the chunks make no difference at all: the output is the scrubbed
  concatenation of the chunks.\<close>

lemma greedy_front_clean:
  assumes "fence s p" "\<not> sublist s y"
  shows "greedy s p (y @ p @ z) = y @ p @ greedy s p z"
  using greedy_fence_app[OF assms(1), of p y z] greedy_clean[OF assms(2)] by simp

lemma greedy_idem_append:
  assumes F: "fence s p"
  shows "greedy s p (greedy s p x @ c) = greedy s p (x @ c)"
proof (induction s\<equiv>s p\<equiv>p x rule: greedy.induct)
  case (2 x xs)
  have s: "s \<noteq> []" using fenceD(4)[OF F] .
  show ?case
  proof (cases "prefix s (x # xs)")
    case True
    then obtain r where r: "x # xs = s @ r" by (auto simp: prefix_def)
    then have "greedy s p (greedy s p r @ c) = greedy s p (r @ c)" using 2(1) True s by simp
    moreover have "greedy s p ((x # xs) @ c) = p @ greedy s p (r @ c)"
      using s by (simp add: r greedy_match del: append_Cons)
    ultimately show ?thesis
      using s greedy_front_clean[OF F, of "[]" "greedy s p r @ c"]
      by (simp add: r greedy_match del: append_Cons)
  next
    case False
    then have g: "greedy s p (x # xs) = x # greedy s p xs" by (rule greedy_skip)
    have IH: "greedy s p (greedy s p xs @ c) = greedy s p (xs @ c)" using 2(2) False by simp
    show ?thesis
    proof (cases "greedy s p xs = xs")
      case True
      then show ?thesis using g by simp
    next
      case changed: False
      obtain h hs where gs: "gaps s xs = h # hs" using gaps_not_Nil neq_Nil_conv by metis
      with changed s have "hs \<noteq> []"
        using join_gaps[OF s, of xs] by (auto simp: greedy_join_gaps)
      then have xs: "xs = h @ s @ join_list s hs" and gx: "greedy s p xs = h @ p @ join_list p hs"
        using s gs join_gaps[OF s, of xs] by (simp_all add: greedy_join_gaps join_list_Cons)
      have "\<not> sublist s (x # h)"
      proof
        assume "sublist s (x # h)"
        moreover have "\<not> sublist s h" using gaps_clean[OF s, of h xs] gs by simp
        ultimately have "prefix s (x # h)" by (simp add: sublist_Cons_right)
        then show False using \<open>\<not> prefix s (x # xs)\<close> by (simp add: xs prefix_append[of s "x # h", simplified])
      qed
      then have "\<not> sublist s h" by (simp add: sublist_Cons_right)
      have "\<not> prefix s (x # xs @ c)"
      proof
        assume "prefix s (x # xs @ c)"
        moreover have "length s \<le> length (x # xs)" by (simp add: xs)
        ultimately have "prefix s (x # xs)" using prefix_length_prefix[of s "x # xs @ c" "x # xs"] by simp
        with \<open>\<not> prefix s (x # xs)\<close> show False ..
      qed
      then have "greedy s p (x # xs @ c) = x # greedy s p (xs @ c)" by (rule greedy_skip)
      moreover have "greedy s p (x # greedy s p xs @ c) = x # greedy s p (greedy s p xs @ c)"
        using greedy_front_clean[OF F \<open>\<not> sublist s (x # h)\<close>, of "join_list p hs @ c"]
          greedy_front_clean[OF F \<open>\<not> sublist s h\<close>, of "join_list p hs @ c"] gx by simp
      ultimately show ?thesis using g IH by simp
    qed
  qed
qed simp

text \<open>No match begins in the emitted bytes, so the window can be scrubbed on its own.\<close>

lemma greedy_emitted:
  assumes F: "fence s p" and I: "stream_inv [(s, p)] k (em, ov)" and len: "length s \<le> Suc k"
  shows "greedy s p (em @ ov @ c) = em @ greedy s p (ov @ c)"
proof (rule greedy_no_start)
  fix i assume i: "i < length em"
  have old: "\<not> sublist s (em @ ov)" using I len by (simp add: stream_inv_def)
  have P: "pairs_fenced [(s, p)]" using F by (simp add: pairs_fenced_def)
  show "\<not> prefix s (drop i (em @ ov @ c))"
  proof
    assume "prefix s (drop i (em @ ov @ c))"
    then have pre: "prefix s (drop i em @ ov @ c)" using i by simp
    then consider "prefix s (drop i em)" | b where "s = drop i em @ b" "prefix b (ov @ c)"
      by (auto simp: prefix_append)
    then show False
    proof cases
      case 1
      then have "sublist s (em @ ov)"
        by (metis prefix_imp_sublist sublist_append sublist_drop sublist_order.order.trans)
      with old show ?thesis ..
    next
      case 2
      have lb: "length b \<le> k" using arg_cong[OF 2(1), of length] i len by simp
      have sb: "suffix b s" using 2(1) unfolding suffix_def by blast
      have "k \<le> length ov \<or> sublist p ov"
        using I i by (auto simp: stream_inv_def has_placeholder_def)
      then have "prefix b ov"
      proof
        assume "k \<le> length ov"
        then show ?thesis using 2(2) lb prefix_length_prefix[of b "ov @ c" ov] by simp
      next
        assume "sublist p ov"
        then obtain u v where ov: "ov = u @ p @ v" by (auto simp: sublist_def)
        then show ?thesis using prefix_suffix_fence_app[OF F sb, of u "v @ c"] 2(2) by simp
      qed
      then obtain w where "ov = b @ w" by (auto simp: prefix_def)
      then have "em @ ov = take i em @ s @ w" using 2(1) by (metis append.assoc append_take_drop_id)
      then show ?thesis using old by (auto simp: sublist_def)
    qed
  qed
qed

lemma single_step:
  assumes F: "fence s p" and I: "stream_inv [(s, p)] k st" and len: "length s \<le> Suc k"
    and E: "fst st @ snd st = greedy s p x"
  shows "fst (scrub_step [(s, p)] k st c) @ snd (scrub_step [(s, p)] k st c) = greedy s p (x @ c)"
  using greedy_emitted[OF F, of k "fst st" "snd st" c] greedy_idem_append[OF F, of x c] I len E
  by (simp add: scrub_step_append) (metis append.assoc)

lemma single_stream:
  assumes F: "fence s p" and len: "length s \<le> Suc k"
  shows "stream_inv [(s, p)] k st \<Longrightarrow> fst st @ snd st = greedy s p x \<Longrightarrow>
    (case foldl (scrub_step [(s, p)] k) st cs of (em, ov) \<Rightarrow> em @ ov) = greedy s p (x @ concat cs)"
proof (induction cs arbitrary: st x)
  case (Cons c cs)
  have P: "pairs_fenced [(s, p)]" using F by (simp add: pairs_fenced_def)
  show ?case
    using Cons.IH[OF stream_inv_step[OF P Cons.prems(1), of c] single_step[OF F Cons.prems(1) len Cons.prems(2), of c]]
    by simp
qed (simp add: split_def)

subsection \<open>Writers\<close>

text \<open>What the scrubber needs of a writer: a successful \<^verbatim>\<open>write_all\<close> appends the whole buffer to
  what the peer sees.\<close>

locale writer =
  fixes write_all :: "'w \<Rightarrow> bytes \<Rightarrow> 'e + 'w" and seen :: "'w \<Rightarrow> bytes"
  assumes seen_write: "write_all w b = Inr w' \<Longrightarrow> seen w' = seen w @ b"
begin

lemma seen_chunk:
  assumes "write_scrubbed_chunk write_all w c h bs (Suc k) ov = Inr (w', ov')" "bs \<noteq> []"
  shows "\<exists>em. seen w' = seen w @ em \<and> scrub_step (scrub_pairs h bs) k (e, ov) c = (e @ em, ov')"
  using assms seen_write
  by (auto simp: write_scrubbed_chunk_def scrub_step_def fst_scrub Let_def res_inv split: if_splits)

lemma seen_chunks:
  "write_scrubbed_chunks write_all w cs h bs (Suc k) ov = Inr (w', ov') \<Longrightarrow> bs \<noteq> [] \<Longrightarrow>
   \<exists>em. seen w' = seen w @ em \<and> foldl (scrub_step (scrub_pairs h bs) k) (e, ov) cs = (e @ em, ov')"
proof (induction cs arbitrary: w ov e)
  case (Cons c cs)
  then obtain w1 ov1 where c: "write_scrubbed_chunk write_all w c h bs (Suc k) ov = Inr (w1, ov1)"
    and r: "write_scrubbed_chunks write_all w1 cs h bs (Suc k) ov1 = Inr (w', ov')"
    by (auto simp: res_inv)
  obtain em where em: "seen w1 = seen w @ em" "scrub_step (scrub_pairs h bs) k (e, ov) c = (e @ em, ov1)"
    using seen_chunk[OF c Cons.prems(2)] by blast
  with Cons.IH[OF r Cons.prems(2), of "e @ em"] show ?case by auto
qed simp

lemma seen_plain:
  "write_scrubbed_chunks write_all w cs h bs 0 ov = Inr (w', ov') \<Longrightarrow> seen w' = seen w @ concat cs \<and> ov' = ov"
proof (induction cs arbitrary: w ov)
  case (Cons c cs)
  then show ?case by (fastforce simp: write_scrubbed_chunk_def res_inv dest: seen_write)
qed simp

lemma seen_flush: "flush_overlap write_all w ov = Inr w' \<Longrightarrow> seen w' = seen w @ ov"
  by (auto simp: flush_overlap_def dest: seen_write split: if_splits)

lemma seen_body:
  assumes "scrub_body write_all w cs h bs = Inr w'" "max_secret_len bs = Suc k"
  shows "seen w' = seen w @ (case foldl (scrub_step (scrub_pairs h bs) k) ([], []) cs of (em, ov) \<Rightarrow> em @ ov)"
proof -
  have "bs \<noteq> []" using assms(2) by (auto simp: max_secret_len_def)
  then show ?thesis
    using assms seen_chunks[of w cs h bs k "[]" _ _ "[]"] seen_flush
    by (fastforce simp: scrub_body_def res_inv)
qed

lemma seen_body_clean:
  assumes "scrub_body write_all w cs h bs = Inr w'" "fenced_for h bs"
    "b \<in> set bs" "bound_to h b" "real_value b \<noteq> []" "length (real_value b) \<le> MAX_SCRUB_SECRET_LEN"
  shows "\<exists>body. seen w' = seen w @ body \<and> \<not> sublist (real_value b) body"
proof -
  have "length (real_value b) \<le> foldr max (map (\<lambda>b. length (real_value b)) bs) 0"
    using assms(3) by (induction bs) auto
  then have m: "length (real_value b) \<le> max_secret_len bs" using assms(6) by (simp add: max_secret_len_def)
  with assms(5) obtain k where k: "max_secret_len bs = Suc k" by (cases "max_secret_len bs") auto
  have "(real_value b, placeholder b) \<in> set (scrub_pairs h bs)"
    using assms by (auto simp: scrub_pairs_def)
  then show ?thesis
    using seen_body[OF assms(1) k] stream_clean[of "scrub_pairs h bs" "real_value b" "placeholder b" k cs]
      assms(2) m k by (auto simp: fenced_for_def)
qed

lemma seen_body_single:
  assumes "scrub_body write_all w cs h [b] = Inr w'" "fence (real_value b) (placeholder b)"
    "bound_to h b" "length (real_value b) \<le> MAX_SCRUB_SECRET_LEN"
  shows "seen w' = seen w @ fst (scrub (concat cs) h [b])"
proof -
  have s: "real_value b \<noteq> []" using fenceD(4)[OF assms(2)] .
  then obtain k where k: "max_secret_len [b] = Suc k" "length (real_value b) = Suc k"
    using assms(4) by (cases "length (real_value b)") (auto simp: max_secret_len_def)
  have ps: "scrub_pairs h [b] = [(real_value b, placeholder b)]" using assms(3) s by (simp add: scrub_pairs_def)
  then have "stream_inv (scrub_pairs h [b]) k ([], [])" using s by (simp add: stream_inv_def)
  then show ?thesis
    using seen_body[OF assms(1) k(1)] single_stream[OF assms(2), of k "([], [])" "[]" cs] k ps
    by (simp add: fst_scrub)
qed

end

text \<open>A writer that keeps what it is given, the view of the peer at the other end of the
  connection.\<close>

definition record_bytes :: "bytes \<Rightarrow> bytes \<Rightarrow> unit + bytes" where
  "record_bytes w b = Inr (w @ b)"

interpretation rb: writer record_bytes "\<lambda>w. w"
  by unfold_locales (simp add: record_bytes_def)

lemma write_chunks_record: "\<exists>r. write_scrubbed_chunks record_bytes w cs h bs m ov = Inr r"
proof (induction cs arbitrary: w ov)
  case (Cons c cs)
  then show ?case
    by (simp add: write_scrubbed_chunk_def record_bytes_def Let_def)
qed simp

lemma scrub_body_records: "\<exists>out. scrub_body record_bytes w cs h bs = Inr out"
  using write_chunks_record[of w cs h bs "max_secret_len bs" "[]"]
  by (auto simp: scrub_body_def flush_overlap_def record_bytes_def)

subsection \<open>Properties\<close>

text \<open>
  C6: no secret survives the streaming scrubber. However the body is cut into chunks, the bytes
  written to the guest contain no bound secret of at most 8192 bytes, when the bound secrets are
  fenced from the placeholders; in particular not one that is cut by chunk boundaries.
\<close>
theorem stream_removes_secrets:
  assumes "fenced_for hostname secrets" "b \<in> set secrets" "bound_to hostname b" "real_value b \<noteq> []"
    "length (real_value b) \<le> MAX_SCRUB_SECRET_LEN"
  shows "\<exists>out. scrub_body record_bytes [] chunks hostname secrets = Inr out \<and> \<not> sublist (real_value b) out"
proof -
  obtain out where "scrub_body record_bytes [] chunks hostname secrets = Inr out"
    using scrub_body_records by blast
  then show ?thesis using rb.seen_body_clean[OF _ assms] by fastforce
qed

theorem stream_removes_secrets_witness:
  "\<exists>out. scrub_body record_bytes [] [''ab sk-li'', ''ve-7'', ''7 cd gh'', ''p_zz9''] ''api.test''
      [demo_binding, demo_other] = Inr out
    \<and> \<not> sublist (real_value demo_binding) out"
  by (rule stream_removes_secrets) code_simp+

text \<open>
  With one secret the chunking is invisible. The streamed output is the scrubbed concatenation
  of the chunks, for every way to cut the body.
\<close>
lemma stream_is_whole_scrub:
  assumes "fence (real_value b) (placeholder b)" "bound_to hostname b"
    "length (real_value b) \<le> MAX_SCRUB_SECRET_LEN"
  shows "scrub_body record_bytes [] chunks hostname [b] = Inr (fst (scrub (concat chunks) hostname [b]))"
proof -
  obtain out where "scrub_body record_bytes [] chunks hostname [b] = Inr out"
    using scrub_body_records by blast
  then show ?thesis using rb.seen_body_single[OF _ assms, of "[]" chunks out] by simp
qed

end
