(* ===== verification/Conn.thy ===== *)
theory Conn
  imports ScrubStream "HOL-Library.Monad_Syntax"
begin

text \<open>
  One proxied connection of \<^verbatim>\<open>src/src/proxy.rs\<close>: \<^verbatim>\<open>ProxyConn\<close> with its state machine
  (\<^verbatim>\<open>shuttle_bytes\<close>, \<^verbatim>\<open>drain_to_socket\<close>), which moves bytes between the guest's TCP socket and the
  thread of the connection, and \<^verbatim>\<open>ChannelStream\<close>, the other end of the two channels. The smoltcp
  socket is a parameter (\<open>tcp_ops\<close>); a channel is its queue and whether the other end is alive.
\<close>

record 's tcp_ops =
  may_recv :: "'s \<Rightarrow> bool"
  recv_slice :: "nat \<Rightarrow> 's \<Rightarrow> bytes option \<times> 's"
  send_capacity :: "'s \<Rightarrow> nat"
  send_queue :: "'s \<Rightarrow> nat"
  send_slice :: "bytes \<Rightarrow> 's \<Rightarrow> nat option \<times> 's"
  is_active :: "'s \<Rightarrow> bool"
  close_socket :: "'s \<Rightarrow> 's"

record chan =
  queue :: "bytes list"
  peer_alive :: bool

datatype conn_kind = Http | Tls_mitm | Ssh_relay string bool | Tcp_forward "16 word"

datatype conn_state = Waiting_for_data | Shuttling | Draining | Closing | Done

record proxy_conn =
  handle :: nat
  to_thread :: "chan option"
  from_thread :: "chan option"
  pending_send :: bytes
  send_offset :: nat
  state :: conn_state

definition open_chan :: chan where
  "open_chan = \<lparr>queue = [], peer_alive = True\<rparr>"

text \<open>\<^verbatim>\<open>ProxyConn::new\<close>; the thread that it spawns is returned as the kind whose thread runs.\<close>

definition new_conn :: "nat \<Rightarrow> conn_kind \<Rightarrow> proxy_conn \<times> conn_kind option" where
  "new_conn h kind =
     (let conn = \<lparr>handle = h, to_thread = None, from_thread = None, pending_send = [],
                  send_offset = 0, state = Waiting_for_data\<rparr>
      in case kind of
           Http \<Rightarrow> (conn, None)
         | _ \<Rightarrow> (conn\<lparr>to_thread := Some open_chan, from_thread := Some open_chan, state := Shuttling\<rparr>, Some kind))"

definition chan_send :: "bytes \<Rightarrow> chan \<Rightarrow> chan option" where
  "chan_send data c = (if peer_alive c then Some (c\<lparr>queue := queue c @ [data]\<rparr>) else None)"

subsection \<open>Writing to the socket\<close>

partial_function (option) drain_loop ::
  "'s tcp_ops \<Rightarrow> 's \<Rightarrow> bytes \<Rightarrow> nat \<Rightarrow> ('s \<times> nat \<times> bool) option" where
  "drain_loop ops sock pending offset =
     (let remaining = drop offset pending
      in if remaining = [] then Some (sock, offset, True)
         else let can_send = send_capacity ops sock - send_queue ops sock
         in if can_send = 0 then Some (sock, offset, False)
         else let n = min (min (length remaining) can_send) 65535
         in case send_slice ops (take n remaining) sock of
              (None, sock) \<Rightarrow> Some (sock, offset, False)
            | (Some sent, sock) \<Rightarrow> drain_loop ops sock pending (offset + sent))"

text \<open>An early return (everything sent) skips the compaction.\<close>

definition drain_to_socket :: "'s tcp_ops \<Rightarrow> 's \<Rightarrow> proxy_conn \<Rightarrow> ('s \<times> proxy_conn) option" where
  "drain_to_socket ops sock conn =
     do {
       (sock, offset, finished) \<leftarrow> drain_loop ops sock (pending_send conn) (send_offset conn);
       (if \<not> finished \<and> offset > length (pending_send conn) div 2 \<and> offset > 65536
        then Some (sock, conn\<lparr>pending_send := drop offset (pending_send conn), send_offset := 0\<rparr>)
        else Some (sock, conn\<lparr>send_offset := offset\<rparr>))
     }"

subsection \<open>One turn of a connection\<close>

definition misdirected_response :: bytes where
  "misdirected_response = ''HTTP/1.1 421 Misdirected Request'' @ CRLF @ ''Content-Type: text/plain'' @ CRLF
     @ ''Connection: close'' @ CRLF @ CRLF @ ''redan: use HTTPS. Plaintext HTTP is not proxied.'' @ [CHR 0x0A]"

definition shuttle_waiting :: "'s tcp_ops \<Rightarrow> 's \<Rightarrow> proxy_conn \<Rightarrow> 's \<times> proxy_conn" where
  "shuttle_waiting ops sock conn =
     (if \<not> may_recv ops sock then (sock, conn)
      else (case recv_slice ops 4096 sock of
          (None, sock) \<Rightarrow> (sock, conn)
        | (Some data, sock) \<Rightarrow>
            if data = [] then (sock, conn)
            else (sock, conn\<lparr>pending_send := misdirected_response, send_offset := 0, state := Draining\<rparr>)))"

text \<open>Guest to thread.\<close>

definition feed_thread :: "'s tcp_ops \<Rightarrow> 's \<Rightarrow> proxy_conn \<Rightarrow> 's \<times> proxy_conn" where
  "feed_thread ops sock conn =
     (case recv_slice ops 65535 sock of (r, sock) \<Rightarrow>
        (let data = unwrap_or r []
         in case to_thread conn of
              Some tx \<Rightarrow> if data \<noteq> [] then (sock, conn\<lparr>to_thread := chan_send data tx\<rparr>) else (sock, conn)
            | None \<Rightarrow> (sock, conn)))"

text \<open>Thread to guest: everything queued, then the end of the channel if the thread is gone.\<close>

fun recv_queued :: "bytes list \<Rightarrow> bytes \<Rightarrow> bytes" where
  "recv_queued [] pending = pending"
| "recv_queued (data # q) pending = recv_queued q (pending @ data)"

definition collect_thread :: "'s tcp_ops \<Rightarrow> 's \<Rightarrow> proxy_conn \<Rightarrow> 's \<times> proxy_conn" where
  "collect_thread ops sock conn =
     (case from_thread conn of
        None \<Rightarrow> (sock, conn)
      | Some rx \<Rightarrow>
          (let conn = conn\<lparr>pending_send := recv_queued (queue rx) (pending_send conn),
                           from_thread := Some (rx\<lparr>queue := []\<rparr>)\<rparr>
           in if peer_alive rx then (sock, conn)
              else (let conn = conn\<lparr>from_thread := None, to_thread := None\<rparr>
                    in if pending_send conn = [] then (close_socket ops sock, conn\<lparr>state := Closing\<rparr>)
                       else (sock, conn\<lparr>state := Draining\<rparr>))))"

definition shuttle_running :: "'s tcp_ops \<Rightarrow> 's \<Rightarrow> proxy_conn \<Rightarrow> ('s \<times> proxy_conn) option" where
  "shuttle_running ops sock conn =
     (case feed_thread ops sock conn of (sock, conn) \<Rightarrow>
      case collect_thread ops sock conn of (sock, conn) \<Rightarrow>
        do {
          (sock, conn) \<leftarrow> drain_to_socket ops sock conn;
          Some (if \<not> is_active ops sock \<and> \<not> may_recv ops sock
                then (sock, conn\<lparr>to_thread := None, from_thread := None, state := Done\<rparr>)
                else (sock, conn))
        })"

definition shuttle_bytes :: "'s tcp_ops \<Rightarrow> 's \<Rightarrow> proxy_conn \<Rightarrow> ('s \<times> proxy_conn) option" where
  "shuttle_bytes ops sock conn =
     (case state conn of
        Waiting_for_data \<Rightarrow> Some (shuttle_waiting ops sock conn)
      | Shuttling \<Rightarrow> shuttle_running ops sock conn
      | Draining \<Rightarrow>
          do {
            (sock, conn) \<leftarrow> drain_to_socket ops sock conn;
            Some (if send_offset conn \<ge> length (pending_send conn)
                  then (close_socket ops sock, conn\<lparr>state := Closing\<rparr>) else (sock, conn))
          }
      | Closing \<Rightarrow> Some (if \<not> is_active ops sock then (sock, conn\<lparr>state := Done\<rparr>) else (sock, conn))
      | Done \<Rightarrow> Some (sock, conn))"

text \<open>\<^verbatim>\<open>reap_done\<close>: the finished connections leave the table, and their sockets are removed.\<close>

definition reap_done :: "(nat \<times> proxy_conn) list \<Rightarrow> nat list \<Rightarrow> (nat \<times> proxy_conn) list \<times> nat list" where
  "reap_done connections sockets =
     (filter (\<lambda>(h, c). state c \<noteq> Done) connections,
      filter (\<lambda>h. \<not> list_ex (\<lambda>(h', c). h' = h \<and> state c = Done) connections) sockets)"

subsection \<open>The channel stream of the thread\<close>

datatype chan_error = Timed_out | Connection_reset | Broken_pipe

record channel_stream =
  cs_rx :: chan
  cs_tx :: chan
  read_buf :: bytes
  read_pos :: nat

definition new_stream :: "chan \<Rightarrow> chan \<Rightarrow> channel_stream" where
  "new_stream rx tx = \<lparr>cs_rx = rx, cs_tx = tx, read_buf = [], read_pos = 0\<rparr>"

definition channel_read :: "nat \<Rightarrow> channel_stream \<Rightarrow> (chan_error + bytes) \<times> channel_stream" where
  "channel_read len s =
     (if read_pos s < length (read_buf s)
      then (let available = drop (read_pos s) (read_buf s); n = min len (length available)
            in (Inr (take n available), s\<lparr>read_pos := read_pos s + n\<rparr>))
      else (case queue (cs_rx s) of
              [] \<Rightarrow> (Inl (if peer_alive (cs_rx s) then Timed_out else Connection_reset), s)
            | data # q \<Rightarrow>
                (let n = min len (length data)
                 in (Inr (take n data), s\<lparr>cs_rx := (cs_rx s)\<lparr>queue := q\<rparr>, read_buf := data, read_pos := n\<rparr>))))"

definition channel_write :: "channel_stream \<Rightarrow> bytes \<Rightarrow> chan_error + channel_stream" where
  "channel_write s buf =
     (case chan_send buf (cs_tx s) of
        Some tx \<Rightarrow> Inr (s\<lparr>cs_tx := tx\<rparr>)
      | None \<Rightarrow> Inl Broken_pipe)"

text \<open>\<^verbatim>\<open>Write::write_all\<close> writes nothing for an empty buffer, and one \<^verbatim>\<open>write\<close> takes the whole buffer.\<close>

definition channel_write_all :: "channel_stream \<Rightarrow> bytes \<Rightarrow> chan_error + channel_stream" where
  "channel_write_all s buf = (if buf = [] then Inr s else channel_write s buf)"

subsection \<open>Draining\<close>

text \<open>What the code relies on of the socket: a send takes a front part of the buffer, at least one
  byte when there is room, and nothing else touches the bytes on the wire.\<close>

definition tcp_contract :: "'s tcp_ops \<Rightarrow> ('s \<Rightarrow> bytes) \<Rightarrow> bool" where
  "tcp_contract ops wire \<longleftrightarrow>
     (\<forall>b s n s'. send_slice ops b s = (Some n, s') \<longrightarrow>
        n \<le> length b \<and> wire s' = wire s @ take n b
        \<and> (b \<noteq> [] \<and> send_queue ops s < send_capacity ops s \<longrightarrow> 0 < n))
     \<and> (\<forall>b s s'. send_slice ops b s = (None, s') \<longrightarrow> wire s' = wire s)
     \<and> (\<forall>n s. wire (snd (recv_slice ops n s)) = wire s)
     \<and> (\<forall>s. wire (close_socket ops s) = wire s)"

lemma tcp_send:
  assumes "tcp_contract ops wire" "send_slice ops b s = (Some n, s')"
  shows "n \<le> length b" "wire s' = wire s @ take n b"
    "b \<noteq> [] \<Longrightarrow> send_queue ops s < send_capacity ops s \<Longrightarrow> 0 < n"
  using assms unfolding tcp_contract_def by blast+

lemma tcp_other:
  assumes "tcp_contract ops wire"
  shows "send_slice ops b s = (None, s') \<Longrightarrow> wire s' = wire s"
    "recv_slice ops n s = (r, s') \<Longrightarrow> wire s' = wire s" "wire (close_socket ops s) = wire s"
  using assms unfolding tcp_contract_def by (blast, metis snd_conv, blast)

lemma drain_loop_spec:
  assumes C: "tcp_contract ops wire"
  shows "off \<le> length p \<Longrightarrow> \<exists>s' o' f. drain_loop ops s p off = Some (s', o', f)
    \<and> off \<le> o' \<and> o' \<le> length p \<and> wire s' = wire s @ take (o' - off) (drop off p) \<and> (f \<longleftrightarrow> o' = length p)"
proof (induction "length p - off" arbitrary: off s rule: less_induct)
  case less
  show ?case
  proof (cases "drop off p = []")
    case True
    then show ?thesis using less.prems by (subst drain_loop.simps) simp
  next
    case False
    then have off: "off < length p" by simp
    let ?can = "send_capacity ops s - send_queue ops s"
    show ?thesis
    proof (cases "?can = 0")
      case True
      then show ?thesis using off by (subst drain_loop.simps) (simp add: Let_def)
    next
      case can: False
      define n where "n = min (min (length (drop off p)) ?can) 65535"
      define b where "b = take n (drop off p)"
      have n: "0 < n" using can off by (simp add: n_def)
      have b: "b \<noteq> []" "length b = n" using n off by (simp_all add: b_def n_def)
      have step: "drain_loop ops s p off = (case send_slice ops b s of (None, s) \<Rightarrow> Some (s, off, False)
          | (Some sent, s) \<Rightarrow> drain_loop ops s p (off + sent))"
        using False can by (subst drain_loop.simps) (simp add: Let_def n_def b_def)
      obtain r s1 where r: "send_slice ops b s = (r, s1)" by fastforce
      show ?thesis
      proof (cases r)
        case None
        then show ?thesis using step r tcp_other(1)[OF C] off by fastforce
      next
        case (Some sent)
        have sent: "sent \<le> n" "wire s1 = wire s @ take sent b" "0 < sent"
          using tcp_send[OF C, of b s sent s1] r Some b can by auto
        have "sent \<le> length p - off" using sent(1) by (simp add: n_def)
        then have le: "off + sent \<le> length p" using off by linarith
        have "length p - (off + sent) < length p - off" using sent(3) off by linarith
        from less.hyps[OF this le, of s1] obtain s' o' f where IH: "drain_loop ops s1 p (off + sent) = Some (s', o', f)"
            "off + sent \<le> o'" "o' \<le> length p" "wire s' = wire s1 @ take (o' - (off + sent)) (drop (off + sent) p)"
            "f \<longleftrightarrow> o' = length p"
          by blast
        have "take sent b = take sent (drop off p)" using sent(1) by (simp add: b_def)
        moreover have "take (o' - off) (drop off p)
            = take sent (drop off p) @ take (o' - (off + sent)) (drop (off + sent) p)"
          using take_add[of sent "o' - (off + sent)" "drop off p"] IH(2) by (simp add: add.commute)
        ultimately show ?thesis using IH step r Some sent(2) by simp
      qed
    qed
  qed
qed

definition outstanding :: "proxy_conn \<Rightarrow> bytes" where
  "outstanding c = drop (send_offset c) (pending_send c)"

definition in_flight :: "proxy_conn \<Rightarrow> bytes" where
  "in_flight c = outstanding c @ (case from_thread c of None \<Rightarrow> [] | Some ch \<Rightarrow> concat (queue ch))"

lemma drain_to_socket_spec:
  assumes C: "tcp_contract ops wire" and o: "send_offset c \<le> length (pending_send c)"
  shows "\<exists>s' c'. drain_to_socket ops s c = Some (s', c') \<and> wire s' @ outstanding c' = wire s @ outstanding c
    \<and> send_offset c' \<le> length (pending_send c') \<and> from_thread c' = from_thread c \<and> to_thread c' = to_thread c
    \<and> state c' = state c \<and> handle c' = handle c"
proof -
  obtain s' o' f where d: "drain_loop ops s (pending_send c) (send_offset c) = Some (s', o', f)"
      "send_offset c \<le> o'" "o' \<le> length (pending_send c)"
      "wire s' = wire s @ take (o' - send_offset c) (drop (send_offset c) (pending_send c))"
    using drain_loop_spec[OF C o, of s] by blast
  have "drop (send_offset c) (pending_send c)
      = take (o' - send_offset c) (drop (send_offset c) (pending_send c)) @ drop o' (pending_send c)"
    using d(2) by (metis append_take_drop_id drop_drop le_add_diff_inverse2)
  then have w: "wire s' @ drop o' (pending_send c) = wire s @ outstanding c"
    using d(4) by (simp add: outstanding_def)
  show ?thesis
  proof (cases "\<not> f \<and> o' > length (pending_send c) div 2 \<and> o' > 65536")
    case True
    then have "drain_to_socket ops s c
        = Some (s', c\<lparr>pending_send := drop o' (pending_send c), send_offset := 0\<rparr>)"
      using d(1) by (simp add: drain_to_socket_def)
    then show ?thesis using w by (simp add: outstanding_def)
  next
    case False
    then have "drain_to_socket ops s c = Some (s', c\<lparr>send_offset := o'\<rparr>)"
      using d(1) by (auto simp: drain_to_socket_def)
    then show ?thesis using w d(3) by (simp add: outstanding_def)
  qed
qed

text \<open>When everything could be sent the loop returns before the compaction, so the buffer keeps every
  byte that was ever sent through it.\<close>

lemma drained_buffer_never_compacted:
  assumes C: "tcp_contract ops wire" and o: "send_offset c \<le> length (pending_send c)"
    and r: "drain_to_socket ops s c = Some (s', c')" and all: "outstanding c' = []" "pending_send c \<noteq> []"
  shows "pending_send c' = pending_send c"
proof -
  obtain s1 o1 f where d: "drain_loop ops s (pending_send c) (send_offset c) = Some (s1, o1, f)"
      "o1 \<le> length (pending_send c)" "f \<longleftrightarrow> o1 = length (pending_send c)"
    using drain_loop_spec[OF C o, of s] by blast
  then show ?thesis
    using r all by (auto simp: drain_to_socket_def outstanding_def split: if_splits)
qed

subsection \<open>The state machine\<close>

definition conn_inv :: "proxy_conn \<Rightarrow> bool" where
  "conn_inv c \<longleftrightarrow> send_offset c \<le> length (pending_send c)
     \<and> (state c \<noteq> Shuttling \<longrightarrow> to_thread c = None \<and> from_thread c = None)
     \<and> (state c = Shuttling \<longrightarrow> from_thread c \<noteq> None)
     \<and> (state c = Waiting_for_data \<longrightarrow> pending_send c = [])
     \<and> (state c = Closing \<longrightarrow> outstanding c = [])"

fun state_rank :: "conn_state \<Rightarrow> nat" where
  "state_rank Waiting_for_data = 0"
| "state_rank Shuttling = 0"
| "state_rank Draining = 1"
| "state_rank Closing = 2"
| "state_rank Done = 3"

lemma new_conn_inv: "conn_inv (fst (new_conn h kind))"
  by (cases kind) (simp_all add: new_conn_def conn_inv_def Let_def)

lemma recv_queued_concat: "recv_queued q pending = pending @ concat q"
  by (induction q pending rule: recv_queued.induct) auto

lemma feed_thread_spec:
  "tcp_contract ops wire \<Longrightarrow> feed_thread ops s c = (s', c') \<Longrightarrow>
   wire s' = wire s \<and> (\<exists>t. c' = c\<lparr>to_thread := t\<rparr> \<and> (to_thread c = None \<longrightarrow> t = None))"
  by (auto simp: feed_thread_def Let_def dest: tcp_other(2) split: prod.splits option.splits if_splits
      intro: exI[of _ None] exI[of _ "to_thread c"])

lemma collect_thread_spec:
  assumes C: "tcp_contract ops wire" and I: "conn_inv c" and S: "state c = Shuttling"
    and r: "collect_thread ops s c = (s', c')"
  shows "wire s' = wire s \<and> conn_inv c' \<and> outstanding c' = in_flight c
    \<and> (case from_thread c' of None \<Rightarrow> True | Some ch \<Rightarrow> queue ch = []) \<and> 0 \<le> state_rank (state c')"
proof -
  obtain ch where ch: "from_thread c = Some ch" using I S by (auto simp: conn_inv_def)
  have o: "send_offset c \<le> length (pending_send c)" using I by (simp add: conn_inv_def)
  then show ?thesis
    using r ch S tcp_other(3)[OF C]
    by (auto simp: collect_thread_def Let_def recv_queued_concat conn_inv_def outstanding_def in_flight_def
        split: if_splits)
qed

text \<open>One turn: no byte is lost, doubled or reordered, and the state only moves forward.\<close>

lemma shuttle_waiting_spec:
  assumes C: "tcp_contract ops wire" and I: "conn_inv c" and S: "state c = Waiting_for_data"
    and r: "shuttle_waiting ops s c = (s', c')"
  shows "conn_inv c' \<and> wire s' = wire s \<and> (c' = c \<or> state c' = Draining \<and> outstanding c' = misdirected_response)"
  using r I S tcp_other(2)[OF C]
  by (auto simp: shuttle_waiting_def conn_inv_def outstanding_def split: if_splits prod.splits option.splits)

lemma drain_inv:
  assumes C: "tcp_contract ops wire" and I: "conn_inv c"
  shows "\<exists>s' c'. drain_to_socket ops s c = Some (s', c') \<and> wire s' @ outstanding c' = wire s @ outstanding c
    \<and> conn_inv c' \<and> from_thread c' = from_thread c \<and> state c' = state c"
proof -
  have o: "send_offset c \<le> length (pending_send c)" using I by (simp add: conn_inv_def)
  obtain s' c' where d: "drain_to_socket ops s c = Some (s', c')"
      "wire s' @ outstanding c' = wire s @ outstanding c" "send_offset c' \<le> length (pending_send c')"
      "from_thread c' = from_thread c" "to_thread c' = to_thread c" "state c' = state c"
    using drain_to_socket_spec[OF C o, of s] by blast
  have "pending_send c = [] \<Longrightarrow> pending_send c' = []" "outstanding c = [] \<Longrightarrow> outstanding c' = []"
    using d(1) I by (auto simp: drain_to_socket_def outstanding_def conn_inv_def drain_loop.simps split: if_splits)
  then show ?thesis using d I by (auto simp: conn_inv_def)
qed

lemma shuttle_running_spec:
  assumes C: "tcp_contract ops wire" and I: "conn_inv c" and S: "state c = Shuttling"
  shows "\<exists>s' c'. shuttle_running ops s c = Some (s', c') \<and> conn_inv c' \<and> wire s' @ in_flight c' = wire s @ in_flight c"
proof -
  obtain s1 c1 where f: "feed_thread ops s c = (s1, c1)" by fastforce
  then obtain t where t: "wire s1 = wire s" "c1 = c\<lparr>to_thread := t\<rparr>" "to_thread c = None \<longrightarrow> t = None"
    using feed_thread_spec[OF C] by blast
  have I1: "conn_inv c1" "state c1 = Shuttling" "in_flight c1 = in_flight c"
    using I S t by (auto simp: conn_inv_def in_flight_def outstanding_def)
  obtain s2 c2 where g: "collect_thread ops s1 c1 = (s2, c2)" by fastforce
  then have c2: "wire s2 = wire s1" "conn_inv c2" "outstanding c2 = in_flight c1"
      "case from_thread c2 of None \<Rightarrow> True | Some ch \<Rightarrow> queue ch = []"
    using collect_thread_spec[OF C I1(1,2)] by blast+
  obtain s3 c3 where d: "drain_to_socket ops s2 c2 = Some (s3, c3)"
      "wire s3 @ outstanding c3 = wire s2 @ outstanding c2" "conn_inv c3" "from_thread c3 = from_thread c2"
    using drain_inv[OF C c2(2), of s2] by blast
  have "in_flight c3 = outstanding c3" using c2(4) d(4) by (auto simp: in_flight_def split: option.splits)
  then have w: "wire s3 @ in_flight c3 = wire s @ in_flight c" using d(2) c2 I1 t by simp
  show ?thesis
  proof (cases "\<not> is_active ops s3 \<and> \<not> may_recv ops s3")
    case True
    then show ?thesis
      using d f g w \<open>in_flight c3 = outstanding c3\<close>
      by (auto simp: shuttle_running_def conn_inv_def in_flight_def outstanding_def)
  next
    case False
    then show ?thesis using d f g w by (auto simp: shuttle_running_def)
  qed
qed

lemma shuttle_spec:
  assumes C: "tcp_contract ops wire" and I: "conn_inv c"
  shows "\<exists>s' c'. shuttle_bytes ops s c = Some (s', c') \<and> conn_inv c'
    \<and> (wire s' @ in_flight c' = wire s @ in_flight c
       \<or> state c = Waiting_for_data \<and> wire s' @ in_flight c' = wire s @ misdirected_response)"
proof (cases "state c")
  case Waiting_for_data
  obtain s' c' where r: "shuttle_waiting ops s c = (s', c')" by fastforce
  show ?thesis
    using shuttle_waiting_spec[OF C I Waiting_for_data r] r Waiting_for_data I
    by (auto simp: shuttle_bytes_def conn_inv_def in_flight_def)
next
  case Shuttling
  then show ?thesis using shuttle_running_spec[OF C I Shuttling, of s] by (auto simp: shuttle_bytes_def)
next
  case Draining
  obtain s' c' where d: "drain_to_socket ops s c = Some (s', c')"
      "wire s' @ outstanding c' = wire s @ outstanding c" "conn_inv c'" "from_thread c' = from_thread c" "state c' = Draining"
    using drain_inv[OF C I, of s] Draining by auto
  then show ?thesis
    using Draining I tcp_other(3)[OF C]
    by (cases "send_offset c' \<ge> length (pending_send c')")
       (auto simp: shuttle_bytes_def conn_inv_def in_flight_def outstanding_def)
next
  case Closing
  then show ?thesis using I by (auto simp: shuttle_bytes_def conn_inv_def in_flight_def outstanding_def)
next
  case Done
  then show ?thesis using I by (auto simp: shuttle_bytes_def)
qed

subsection \<open>A connection and its thread\<close>

text \<open>The steps of a connection with everything around it: a turn of the poll loop, the thread
  sending a chunk, taking a chunk or ending, and the network changing the socket.\<close>

record 's conn_system =
  cs_sock :: 's
  cs_conn :: proxy_conn
  cs_sent :: bytes

inductive conn_step :: "'s tcp_ops \<Rightarrow> ('s \<Rightarrow> bytes) \<Rightarrow> 's conn_system \<Rightarrow> 's conn_system \<Rightarrow> bool"
  for ops :: "'s tcp_ops" and wire :: "'s \<Rightarrow> bytes" where
  turn: "shuttle_bytes ops (cs_sock x) (cs_conn x) = Some (s', c') \<Longrightarrow>
    conn_step ops wire x (x\<lparr>cs_sock := s', cs_conn := c'\<rparr>)"
| thread_sends: "from_thread (cs_conn x) = Some ch \<Longrightarrow> chan_send d ch = Some ch' \<Longrightarrow>
    conn_step ops wire x (x\<lparr>cs_conn := (cs_conn x)\<lparr>from_thread := Some ch'\<rparr>, cs_sent := cs_sent x @ d\<rparr>)"
| thread_takes: "to_thread (cs_conn x) = Some ch \<Longrightarrow> queue ch = d # q \<Longrightarrow>
    conn_step ops wire x (x\<lparr>cs_conn := (cs_conn x)\<lparr>to_thread := Some (ch\<lparr>queue := q\<rparr>)\<rparr>\<rparr>)"
| thread_ends: "from_thread (cs_conn x) = Some ch \<Longrightarrow>
    conn_step ops wire x (x\<lparr>cs_conn := (cs_conn x)\<lparr>from_thread := Some (ch\<lparr>peer_alive := False\<rparr>),
      to_thread := map_option (\<lambda>c. c\<lparr>peer_alive := False\<rparr>) (to_thread (cs_conn x))\<rparr>\<rparr>)"
| network: "wire s' = wire (cs_sock x) \<Longrightarrow> conn_step ops wire x (x\<lparr>cs_sock := s'\<rparr>)"

inductive_cases conn_stepE: "conn_step ops wire x y"

definition relay_inv :: "('s \<Rightarrow> bytes) \<Rightarrow> 's conn_system \<Rightarrow> bool" where
  "relay_inv wire x \<longleftrightarrow> conn_inv (cs_conn x) \<and> state (cs_conn x) \<noteq> Waiting_for_data
     \<and> wire (cs_sock x) @ in_flight (cs_conn x) = cs_sent x"

lemma shuttle_not_waiting:
  assumes "tcp_contract ops wire" "conn_inv c" "shuttle_bytes ops s c = Some (s', c')" "state c \<noteq> Waiting_for_data"
  shows "state c' \<noteq> Waiting_for_data"
proof -
  have "drain_to_socket ops s c = Some (s', c') \<Longrightarrow> state c' = state c" for s c s' c'
    by (auto simp: drain_to_socket_def split: bind_splits if_splits)
  then show ?thesis
    using assms(3,4)
    by (auto simp: shuttle_bytes_def shuttle_running_def feed_thread_def collect_thread_def Let_def
        split: conn_state.splits bind_splits prod.splits option.splits if_splits)
qed

lemma relay_inv_step:
  assumes C: "tcp_contract ops wire" and st: "conn_step ops wire x y" and I: "relay_inv wire x"
  shows "relay_inv wire y"
  using st
proof (cases rule: conn_step.cases)
  case (turn s' c')
  have "conn_inv (cs_conn x)" "state (cs_conn x) \<noteq> Waiting_for_data" using I by (simp_all add: relay_inv_def)
  then show ?thesis
    using shuttle_spec[OF C, of "cs_conn x" "cs_sock x"] turn I shuttle_not_waiting[OF C _ turn(2)]
    by (auto simp: relay_inv_def)
next
  case (thread_sends ch d ch')
  then show ?thesis
    using I by (auto simp: relay_inv_def conn_inv_def in_flight_def outstanding_def chan_send_def split: if_splits)
next
  case (thread_takes ch d q)
  then show ?thesis using I by (auto simp: relay_inv_def conn_inv_def in_flight_def outstanding_def)
next
  case (thread_ends ch)
  then show ?thesis using I by (auto simp: relay_inv_def conn_inv_def in_flight_def outstanding_def)
next
  case (network s')
  then show ?thesis using I by (simp add: relay_inv_def)
qed

lemma relay_inv_reachable:
  assumes "tcp_contract ops wire" "(conn_step ops wire)\<^sup>*\<^sup>* x y" "relay_inv wire x"
  shows "relay_inv wire y"
  using assms(2,3) by (induction rule: rtranclp_induct) (auto intro: relay_inv_step[OF assms(1)])

subsection \<open>The channel stream\<close>

definition unread :: "channel_stream \<Rightarrow> bytes" where
  "unread s = drop (read_pos s) (read_buf s) @ concat (queue (cs_rx s))"

lemma take_drop_split: "take n (drop k x) @ drop (k + n) x = drop k x"
  by (metis add.commute append_take_drop_id drop_drop)

lemma channel_read_spec:
  "channel_read n s = (Inr bs, s') \<Longrightarrow>
   length bs \<le> n \<and> bs @ unread s' = unread s \<and> cs_tx s' = cs_tx s"
  by (auto simp: channel_read_def unread_def Let_def min_def take_drop_split split: if_splits list.splits)

lemma channel_write_all_seen:
  "channel_write_all s b = Inr s' \<Longrightarrow> concat (queue (cs_tx s')) = concat (queue (cs_tx s)) @ b"
  by (auto simp: channel_write_all_def channel_write_def chan_send_def split: if_splits)

interpretation chan_out: writer channel_write_all "\<lambda>s. concat (queue (cs_tx s))"
  by unfold_locales (rule channel_write_all_seen)

subsection \<open>Properties\<close>

text \<open>
  C17: a relayed connection delivers the thread's bytes to the guest in order, without loss or
  repetition. In every state that is reached by turns of the poll loop, sends, receives and exits of
  the thread and changes of the socket, the bytes on the wire followed by those in flight are
  exactly what the thread sent; and when the proxy closes the connection nothing is left over.
\<close>
theorem relay_delivers_in_order:
  assumes "tcp_contract ops wire" "wire sock = []" "kind \<noteq> Http"
    "(conn_step ops wire)\<^sup>*\<^sup>* \<lparr>cs_sock = sock, cs_conn = fst (new_conn h kind), cs_sent = []\<rparr> y"
  shows "wire (cs_sock y) @ in_flight (cs_conn y) = cs_sent y
    \<and> (state (cs_conn y) = Closing \<longrightarrow> wire (cs_sock y) = cs_sent y)"
proof -
  have "relay_inv wire \<lparr>cs_sock = sock, cs_conn = fst (new_conn h kind), cs_sent = []\<rparr>"
    using assms(2,3) new_conn_inv[of h kind]
    by (cases kind) (auto simp: relay_inv_def new_conn_def Let_def in_flight_def outstanding_def open_chan_def)
  then have "relay_inv wire y" using relay_inv_reachable[OF assms(1,4)] by blast
  then show ?thesis by (auto simp: relay_inv_def conn_inv_def in_flight_def)
qed

text \<open>A concrete socket: a send buffer of four bytes that the network empties.\<close>

record demo_tcp =
  dt_in :: bytes
  dt_buffered :: nat
  dt_wire :: bytes
  dt_open :: bool

definition demo_ops :: "demo_tcp tcp_ops" where
  "demo_ops = \<lparr>may_recv = dt_open, recv_slice = (\<lambda>n s. (Some (take n (dt_in s)), s\<lparr>dt_in := drop n (dt_in s)\<rparr>)),
     send_capacity = (\<lambda>_. 4), send_queue = dt_buffered,
     send_slice = (\<lambda>b s. let n = min (length b) (4 - dt_buffered s)
        in (Some n, s\<lparr>dt_buffered := dt_buffered s + n, dt_wire := dt_wire s @ take n b\<rparr>)),
     is_active = dt_open, close_socket = (\<lambda>s. s\<lparr>dt_open := False\<rparr>)\<rparr>"

lemma demo_tcp_contract: "tcp_contract demo_ops dt_wire"
  by (auto simp: tcp_contract_def demo_ops_def Let_def)

theorem relay_delivers_in_order_witness:
  "\<exists>s' c'. shuttle_bytes demo_ops \<lparr>dt_in = ''hi'', dt_buffered = 0, dt_wire = [], dt_open = True\<rparr>
       ((fst (new_conn 7 Tls_mitm))\<lparr>from_thread := Some \<lparr>queue = [''abcdef''], peer_alive = True\<rparr>\<rparr>) = Some (s', c')
     \<and> dt_wire s' @ in_flight c' = ''abcdef''"
proof -
  let ?s = "\<lparr>dt_in = ''hi'', dt_buffered = 0, dt_wire = [], dt_open = True\<rparr>"
  let ?c = "fst (new_conn 7 Tls_mitm)"
  let ?c1 = "?c\<lparr>from_thread := Some \<lparr>queue = [''abcdef''], peer_alive = True\<rparr>\<rparr>"
  have I: "conn_inv ?c1" by (simp add: conn_inv_def new_conn_def Let_def)
  obtain s' c' where sh: "shuttle_bytes demo_ops ?s ?c1 = Some (s', c')"
    using shuttle_spec[OF demo_tcp_contract I, of ?s] by blast
  have 1: "conn_step demo_ops dt_wire \<lparr>cs_sock = ?s, cs_conn = ?c, cs_sent = []\<rparr>
      \<lparr>cs_sock = ?s, cs_conn = ?c1, cs_sent = ''abcdef''\<rparr>"
    using conn_step.thread_sends[of "\<lparr>cs_sock = ?s, cs_conn = ?c, cs_sent = []\<rparr>" open_chan "''abcdef''"
        "\<lparr>queue = [''abcdef''], peer_alive = True\<rparr>" demo_ops dt_wire]
    by (simp add: new_conn_def open_chan_def chan_send_def Let_def)
  have 2: "conn_step demo_ops dt_wire \<lparr>cs_sock = ?s, cs_conn = ?c1, cs_sent = ''abcdef''\<rparr>
      \<lparr>cs_sock = s', cs_conn = c', cs_sent = ''abcdef''\<rparr>"
    using conn_step.turn[of demo_ops "\<lparr>cs_sock = ?s, cs_conn = ?c1, cs_sent = ''abcdef''\<rparr>" s' c' dt_wire] sh by simp
  have "(conn_step demo_ops dt_wire)\<^sup>*\<^sup>* \<lparr>cs_sock = ?s, cs_conn = ?c, cs_sent = []\<rparr>
      \<lparr>cs_sock = s', cs_conn = c', cs_sent = ''abcdef''\<rparr>"
    using 1 2 by (meson converse_rtranclp_into_rtranclp r_into_rtranclp)
  from relay_delivers_in_order[OF demo_tcp_contract _ _ this] sh show ?thesis by simp
qed

lemma shuttle_rank:
  assumes "shuttle_bytes ops s c = Some (s', c')"
  shows "state_rank (state c) \<le> state_rank (state c')"
proof -
  have "drain_to_socket ops s c = Some (s', c') \<Longrightarrow> state c' = state c" for s c s' c'
    by (auto simp: drain_to_socket_def split: bind_splits if_splits)
  then show ?thesis
    using assms
    by (auto simp: shuttle_bytes_def shuttle_waiting_def split: conn_state.splits bind_splits prod.splits
        option.splits if_splits)
qed

text \<open>
  C36: every turn of a connection ends, keeps the connection well formed and moves its state only
  forward (waiting or shuttling, draining, closing, done); a plaintext HTTP connection gets the
  fixed 421 response and nothing else, and no other turn changes the bytes delivered or in flight.
\<close>
theorem connection_turn:
  assumes "tcp_contract ops wire" "conn_inv c"
  shows "\<exists>s' c'. shuttle_bytes ops s c = Some (s', c') \<and> conn_inv c'
    \<and> state_rank (state c) \<le> state_rank (state c')
    \<and> (wire s' @ in_flight c' = wire s @ in_flight c
       \<or> state c = Waiting_for_data \<and> wire s' @ in_flight c' = wire s @ misdirected_response)"
  using shuttle_spec[OF assms, of s] shuttle_rank[of ops s c] by blast

theorem connection_turn_witness:
  "\<exists>s' c'. shuttle_bytes demo_ops \<lparr>dt_in = ''GET'', dt_buffered = 0, dt_wire = [], dt_open = True\<rparr>
      (fst (new_conn 1 Http)) = Some (s', c') \<and> conn_inv c'"
  using connection_turn[OF demo_tcp_contract new_conn_inv] by blast

end
