(* ===== verification/Http.thy ===== *)
theory Http
  imports Secret
begin

text \<open>
  The HTTP helpers at the end of \<^verbatim>\<open>src/src/proxy.rs\<close>: when a buffered request is complete, the
  checks that reject a request (conflicting lengths, chunked bodies, CONNECT, Upgrade), the host of
  a request, the host patterns of the allowlist, and the rewriting of response headers. Every
  helper parses its data again, as the code does; the parsers are the parameters \<open>pr\<close> (requests)
  and \<open>pp\<close> (responses).
\<close>

definition MAX_REQUEST_BODY :: nat where
  "MAX_REQUEST_BODY = 16 * 1024 * 1024"

definition MAX_RESPONSE_SIZE :: nat where
  "MAX_RESPONSE_SIZE = 256 * 1024 * 1024"

definition parse_usize :: "string \<Rightarrow> nat option" where
  "parse_usize s = parse_unsigned 18446744073709551615 s"

definition content_length_of :: "http_header \<Rightarrow> nat option" where
  "content_length_of h =
     (if is_header ''content-length'' h
      then parse_usize (str_trim (unwrap_or (from_utf8 (hdr_value h)) ''0'')) else None)"

fun complete_by_headers :: "nat \<Rightarrow> http_header list \<Rightarrow> bool" where
  "complete_by_headers have_body [] = True"
| "complete_by_headers have_body (h # hs) =
     (case content_length_of h of
        Some cl \<Rightarrow> if cl > MAX_REQUEST_BODY then False else cl \<le> have_body
      | None \<Rightarrow> complete_by_headers have_body hs)"

definition http_request_complete :: "(bytes \<Rightarrow> http_request parsed) \<Rightarrow> bytes \<Rightarrow> bool" where
  "http_request_complete pr data =
     (case pr data of
        Complete body_offset req \<Rightarrow> complete_by_headers (length data - body_offset) (req_headers req)
      | _ \<Rightarrow> False)"

fun conflicting_lengths :: "bytes option \<Rightarrow> http_header list \<Rightarrow> bool" where
  "conflicting_lengths seen [] = False"
| "conflicting_lengths seen (h # hs) =
     (if is_header ''content-length'' h
      then (case seen of
              None \<Rightarrow> conflicting_lengths (Some (hdr_value h)) hs
            | Some prev \<Rightarrow> if prev = hdr_value h then conflicting_lengths seen hs else True)
      else conflicting_lengths seen hs)"

definition parsed_headers :: "(bytes \<Rightarrow> http_request parsed) \<Rightarrow> bytes \<Rightarrow> http_header list" where
  "parsed_headers pr data = (case parsed_value (pr data) of None \<Rightarrow> [] | Some r \<Rightarrow> req_headers r)"

definition has_duplicate_content_length :: "(bytes \<Rightarrow> http_request parsed) \<Rightarrow> bytes \<Rightarrow> bool" where
  "has_duplicate_content_length pr data = conflicting_lengths None (parsed_headers pr data)"

definition request_has_chunked_te :: "(bytes \<Rightarrow> http_request parsed) \<Rightarrow> bytes \<Rightarrow> bool" where
  "request_has_chunked_te pr data =
     list_ex (\<lambda>h. is_header ''transfer-encoding'' h
        \<and> str_contains (to_ascii_lowercase (unwrap_or (from_utf8 (hdr_value h)) [])) ''chunked'')
       (parsed_headers pr data)"

definition has_content_encoding :: "(bytes \<Rightarrow> http_response parsed) \<Rightarrow> bytes \<Rightarrow> bool" where
  "has_content_encoding pp data =
     (case parsed_value (pp data) of None \<Rightarrow> False | Some r \<Rightarrow>
        list_ex (\<lambda>h. is_header ''content-encoding'' h
          \<and> \<not> eq_ignore_ascii_case (str_trim (unwrap_or (from_utf8 (hdr_value h)) [])) ''identity'')
          (resp_headers r))"

definition request_is_connect :: "(bytes \<Rightarrow> http_request parsed) \<Rightarrow> bytes \<Rightarrow> bool" where
  "request_is_connect pr data =
     (case parsed_value (pr data) of None \<Rightarrow> False | Some r \<Rightarrow>
        (case req_method r of None \<Rightarrow> False | Some m \<Rightarrow> eq_ignore_ascii_case m ''CONNECT''))"

definition request_has_upgrade :: "(bytes \<Rightarrow> http_request parsed) \<Rightarrow> bytes \<Rightarrow> bool" where
  "request_has_upgrade pr data = list_ex (is_header ''upgrade'') (parsed_headers pr data)"

definition host_matches :: "string \<Rightarrow> string \<Rightarrow> bool" where
  "host_matches pattern hostname =
     (case strip_prefix ''*.'' pattern of
        None \<Rightarrow> eq_ignore_ascii_case pattern hostname
      | Some suf \<Rightarrow> suffix (''.'' @ to_ascii_lowercase suf) (to_ascii_lowercase hostname))"

definition extract_host_header :: "(bytes \<Rightarrow> http_request parsed) \<Rightarrow> bytes \<Rightarrow> string option" where
  "extract_host_header pr data =
     map_option (\<lambda>h. from_utf8_lossy (hdr_value h))
       (find (is_header ''host'') (parsed_headers pr data))"

fun close_lines :: "http_header list \<Rightarrow> bool \<Rightarrow> bytes list \<times> bool" where
  "close_lines [] has_connection = ([], has_connection)"
| "close_lines (h # hs) has_connection =
     (if is_header ''connection'' h
      then (case close_lines hs True of (ls, c) \<Rightarrow> (''Connection: close'' # ls, c))
      else (case close_lines hs has_connection of
              (ls, c) \<Rightarrow> ((hdr_name h @ '': '' @ hdr_value h) # ls, c)))"

definition rewrite_connection_close :: "(bytes \<Rightarrow> http_response parsed) \<Rightarrow> bytes \<Rightarrow> bytes" where
  "rewrite_connection_close pp data =
     (case pp data of
        Complete body_offset resp \<Rightarrow>
          (case close_lines (resp_headers resp) False of (ls, has_connection) \<Rightarrow>
             head_text (status_line (unwrap_or (resp_version resp) 1) (unwrap_or (resp_code resp) 200)
                          (unwrap_or (resp_reason resp) ''OK''))
               (ls @ (if has_connection then [] else [''Connection: close'']))
             @ drop body_offset data)
      | _ \<Rightarrow> data)"

subsection \<open>Host patterns\<close>

lemma eq_ignore_case_append:
  "length b = length d \<Longrightarrow>
   eq_ignore_ascii_case (a @ b) (c @ d) \<longleftrightarrow> eq_ignore_ascii_case a c \<and> eq_ignore_ascii_case b d"
  by (auto simp: eq_ignore_ascii_case_def dest!: append_eq_append_conv[THEN iffD1, rotated])

lemma suffix_lowercase:
  "suffix (to_ascii_lowercase a) (to_ascii_lowercase b) \<longleftrightarrow>
   (\<exists>u v. b = u @ v \<and> eq_ignore_ascii_case a v)"
proof
  assume "suffix (to_ascii_lowercase a) (to_ascii_lowercase b)"
  then obtain u where u: "to_ascii_lowercase b = u @ to_ascii_lowercase a" by (auto simp: suffix_def)
  then have "to_ascii_lowercase (drop (length u) b) = to_ascii_lowercase a"
    unfolding to_ascii_lowercase_def by (metis append_eq_conv_conj drop_map)
  then show "\<exists>u v. b = u @ v \<and> eq_ignore_ascii_case a v"
    by (metis append_take_drop_id eq_ignore_ascii_case_def)
qed (auto simp: suffix_def eq_ignore_ascii_case_def)

lemma lowercase_dot [simp]: "to_ascii_lowercase (CHR ''.'' # s) = CHR ''.'' # to_ascii_lowercase s"
  by (simp add: to_ascii_lowercase_def ascii_lower_char_def is_ascii_upper_def char_code_def)

lemma host_matches_wildcard:
  "host_matches (''*.'' @ suf) hostname \<longleftrightarrow>
   (\<exists>sub dom. hostname = sub @ ''.'' @ dom \<and> eq_ignore_ascii_case suf dom)"
proof -
  have "host_matches (''*.'' @ suf) hostname \<longleftrightarrow>
      suffix (to_ascii_lowercase (''.'' @ suf)) (to_ascii_lowercase hostname)"
    by (simp add: host_matches_def strip_prefix_append[of "''*.''", simplified])
  also have "\<dots> \<longleftrightarrow> (\<exists>u v. hostname = u @ v \<and> eq_ignore_ascii_case (''.'' @ suf) v)"
    by (rule suffix_lowercase)
  also have "\<dots> \<longleftrightarrow> (\<exists>sub dom. hostname = sub @ ''.'' @ dom \<and> eq_ignore_ascii_case suf dom)"
  proof -
    have "eq_ignore_ascii_case (''.'' @ suf) v \<longleftrightarrow> (\<exists>d. v = ''.'' @ d \<and> eq_ignore_ascii_case suf d)" for v
    proof (cases v)
      case (Cons c d)
      have "ascii_lower_char c = CHR ''.'' \<longleftrightarrow> c = CHR ''.''"
        by (rule ascii_lower_char_eq) (simp_all add: ascii_defs char_code_def)
      then show ?thesis using Cons by (auto simp: eq_ignore_ascii_case_def) (auto simp: to_ascii_lowercase_def)
    qed (simp add: eq_ignore_ascii_case_def to_ascii_lowercase_def)
    then show ?thesis by auto
  qed
  finally show ?thesis .
qed

lemma host_matches_exact:
  "strip_prefix ''*.'' pattern = None \<Longrightarrow> host_matches pattern hostname \<longleftrightarrow> eq_ignore_ascii_case pattern hostname"
  by (simp add: host_matches_def)

lemma host_matches_case:
  "eq_ignore_ascii_case h h' \<Longrightarrow> host_matches p h \<longleftrightarrow> host_matches p h'"
  by (auto simp: host_matches_def eq_ignore_ascii_case_def split: option.splits)

subsection \<open>Lengths\<close>

definition same_lengths :: "http_header list \<Rightarrow> bool" where
  "same_lengths hs \<longleftrightarrow> (\<forall>h\<in>set hs. \<forall>h'\<in>set hs. is_header ''content-length'' h \<longrightarrow>
     is_header ''content-length'' h' \<longrightarrow> hdr_value h = hdr_value h')"

lemma conflicting_lengths_Some:
  "conflicting_lengths (Some v) hs \<longleftrightarrow> (\<exists>h\<in>set hs. is_header ''content-length'' h \<and> hdr_value h \<noteq> v)"
  by (induction hs) auto

lemma conflicting_lengths_None: "conflicting_lengths None hs \<longleftrightarrow> \<not> same_lengths hs"
proof (induction hs)
  case (Cons h hs)
  show ?case
  proof (cases "is_header ''content-length'' h")
    case True
    then have "same_lengths (h # hs)
        \<longleftrightarrow> (\<forall>h'\<in>set hs. is_header ''content-length'' h' \<longrightarrow> hdr_value h' = hdr_value h)"
    proof (intro iffI)
      assume R: "\<forall>h'\<in>set hs. is_header ''content-length'' h' \<longrightarrow> hdr_value h' = hdr_value h"
      then have "h' \<in> set (h # hs) \<Longrightarrow> is_header ''content-length'' h' \<Longrightarrow> hdr_value h' = hdr_value h" for h'
        by (cases "h' = h") simp_all
      then show "same_lengths (h # hs)" by (simp only: same_lengths_def Ball_def) simp
    next
      assume L: "same_lengths (h # hs)"
      have "hdr_value h' = hdr_value h" if "h' \<in> set hs" "is_header ''content-length'' h'" for h'
        using L[unfolded same_lengths_def, rule_format, of h' h] that True by simp
      then show "\<forall>h'\<in>set hs. is_header ''content-length'' h' \<longrightarrow> hdr_value h' = hdr_value h" by blast
    qed
    with True show ?thesis by (simp add: conflicting_lengths_Some)
  next
    case False
    then have "same_lengths (h # hs) \<longleftrightarrow> same_lengths hs"
      unfolding same_lengths_def set_simps ball_simps by blast
    with False Cons show ?thesis by simp
  qed
qed (simp add: same_lengths_def)

lemma complete_by_headers_first:
  "complete_by_headers n hs \<longleftrightarrow>
     (case List.map_filter content_length_of hs of
        [] \<Rightarrow> True
      | cl # _ \<Rightarrow> cl \<le> MAX_REQUEST_BODY \<and> cl \<le> n)"
  by (induction hs) (auto simp: List.map_filter_simps split: option.splits)

text \<open>When no conflict is reported, the length the completeness check used is the length every
  other reader of the request will see.\<close>

lemma set_map_filter_Some: "set (List.map_filter f xs) = {y. \<exists>x\<in>set xs. f x = Some y}"
  by (induction xs) (auto simp: List.map_filter_simps split: option.splits)

lemma content_length_of_Some:
  "content_length_of h = Some n \<Longrightarrow> is_header ''content-length'' h"
  by (simp add: content_length_of_def split: if_splits)

lemma lengths_agree:
  assumes "\<not> conflicting_lengths None hs" "cl \<in> set (List.map_filter content_length_of hs)"
  shows "set (List.map_filter content_length_of hs) = {cl}"
proof -
  obtain h where h: "h \<in> set hs" "content_length_of h = Some cl"
    using assms(2) by (auto simp: set_map_filter_Some)
  have "n = cl" if h': "h' \<in> set hs" "content_length_of h' = Some n" for h' n
  proof -
    have "hdr_value h' = hdr_value h"
      using assms(1) h h' content_length_of_Some
      unfolding conflicting_lengths_None same_lengths_def by blast
    then show ?thesis
      using h(2) h'(2) content_length_of_Some[OF h(2)] content_length_of_Some[OF h'(2)]
      by (simp add: content_length_of_def)
  qed
  then show ?thesis using h unfolding set_map_filter_Some by blast
qed

subsection \<open>The rewritten response\<close>

definition closed_headers :: "http_header list \<Rightarrow> http_header list" where
  "closed_headers hs = map (\<lambda>h. if is_header ''connection'' h then close_header else h) hs
     @ (if list_ex (is_header ''connection'') hs then [] else [close_header])"

lemma close_lines_map:
  "close_lines hs c =
     (map header_line (map (\<lambda>h. if is_header ''connection'' h then close_header else h) hs),
      c \<or> list_ex (is_header ''connection'') hs)"
proof (induction hs arbitrary: c)
  case (Cons h hs)
  then show ?case
    by (cases "is_header ''connection'' h") (simp_all add: close_header_line header_line_def[of h])
qed simp

lemma rewrite_response_complete:
  "pp data = Complete n \<lparr>resp_version = Some v, resp_code = Some code, resp_reason = Some reason,
     resp_headers = hs\<rparr> \<Longrightarrow>
   rewrite_connection_close pp data
     = head_text (status_line v code reason) (map header_line (closed_headers hs)) @ drop n data"
  by (simp add: rewrite_connection_close_def close_lines_map closed_headers_def close_header_line)

lemma closed_connection:
  "h \<in> set (closed_headers hs) \<Longrightarrow> is_header ''connection'' h \<Longrightarrow> h = close_header"
  by (auto simp: closed_headers_def split: if_splits)

lemma closed_has_close: "close_header \<in> set (closed_headers hs)"
  by (force simp: closed_headers_def list_ex_iff)

lemma closed_keeps:
  "\<not> eq_ignore_ascii_case name ''connection'' \<Longrightarrow>
   filter (is_header name) (closed_headers hs) = filter (is_header name) hs"
proof -
  assume n: "\<not> eq_ignore_ascii_case name ''connection''"
  have "eq_ignore_ascii_case (hdr_name close_header) ''connection''"
    using is_header_close by (simp only: is_header_def)
  with n show ?thesis
    by (induction hs) (auto simp: closed_headers_def is_header_def eq_ignore_ascii_case_def)
qed

end
