(* ===== verification/HostMap.thy ===== *)
theory HostMap
  imports Prelude
begin

text \<open>
  The per-session host pool of \<^verbatim>\<open>src/src/proxy.rs\<close> (\<^verbatim>\<open>HostMap\<close>): every host name the guest
  resolves gets an address of its own in 192.168.127.10--254, so that a connection to that address
  can be mapped back to the name. \<open>host_pool\<close> is the interface that the DNS server and the SSH
  relay use.
\<close>

definition GATEWAY_IP :: ipv4 where
  "GATEWAY_IP = (192, 168, 127, 1)"

definition GUEST_IP :: ipv4 where
  "GUEST_IP = (192, 168, 127, 2)"

definition LOOPBACK_IP :: ipv4 where
  "LOOPBACK_IP = (127, 0, 0, 1)"

definition HOST_POOL_START :: octet where
  "HOST_POOL_START = 10"

definition HOST_POOL_END :: octet where
  "HOST_POOL_END = 254"

definition pool_ip :: "octet \<Rightarrow> ipv4" where
  "pool_ip n = (192, 168, 127, n)"

record host_map =
  forward :: "string \<Rightarrow> ipv4 option"
  reverse :: "ipv4 \<Rightarrow> string option"
  next_host :: octet

definition new_host_map :: host_map where
  "new_host_map = \<lparr>forward = (\<lambda>_. None), reverse = (\<lambda>_. None), next_host = HOST_POOL_START\<rparr>"

definition alloc :: "host_map \<Rightarrow> string \<Rightarrow> (ipv4 \<times> bool) \<times> host_map" where
  "alloc m hostname =
     (case forward m hostname of
        Some ip \<Rightarrow> ((ip, False), m)
      | None \<Rightarrow>
          if next_host m > HOST_POOL_END then ((GATEWAY_IP, False), m)
          else (let ip = pool_ip (next_host m)
                in ((ip, True), m\<lparr>next_host := next_host m + 1,
                                  forward := (forward m)(hostname \<mapsto> ip),
                                  reverse := (reverse m)(ip \<mapsto> hostname)\<rparr>)))"

definition hostname_for_ip :: "host_map \<Rightarrow> ipv4 \<Rightarrow> string option" where
  "hostname_for_ip m ip = reverse m ip"

subsection \<open>The invariant\<close>

definition in_pool :: "host_map \<Rightarrow> ipv4 \<Rightarrow> bool" where
  "in_pool m ip \<longleftrightarrow> (\<exists>k. ip = pool_ip k \<and> HOST_POOL_START \<le> k \<and> k < next_host m)"

definition host_map_inv :: "host_map \<Rightarrow> bool" where
  "host_map_inv m \<longleftrightarrow>
     HOST_POOL_START \<le> next_host m
     \<and> (\<forall>h ip. forward m h = Some ip \<longleftrightarrow> reverse m ip = Some h)
     \<and> (\<forall>ip. reverse m ip \<noteq> None \<longleftrightarrow> in_pool m ip)"

lemma new_host_map_inv: "host_map_inv new_host_map"
  by (auto simp: host_map_inv_def new_host_map_def in_pool_def)

lemma pool_ip_inject [simp]: "pool_ip a = pool_ip b \<longleftrightarrow> a = b"
  by (simp add: pool_ip_def)

lemma next_plus_one: "n \<le> HOST_POOL_END \<Longrightarrow> unat (n + 1) = unat n + 1"
  by (simp add: HOST_POOL_END_def word_le_nat_alt unat_word_ariths)

lemma in_pool_bounds:
  assumes "in_pool m ip"
  shows "ip \<noteq> GATEWAY_IP" "ip \<noteq> GUEST_IP" "ip \<noteq> LOOPBACK_IP"
  using assms
  by (auto simp: in_pool_def pool_ip_def GATEWAY_IP_def GUEST_IP_def LOOPBACK_IP_def
      HOST_POOL_START_def word_le_nat_alt)

lemma host_map_invD:
  assumes "host_map_inv m"
  shows "forward m h = Some ip \<longleftrightarrow> reverse m ip = Some h" "\<not> in_pool m ip \<Longrightarrow> reverse m ip = None"
  using assms unfolding host_map_inv_def by blast+

lemma next_not_in_pool: "\<not> in_pool m (pool_ip (next_host m))"
  by (simp add: in_pool_def)

lemma alloc_fresh:
  assumes I: "host_map_inv m" and f: "forward m h = None" and n: "next_host m \<le> HOST_POOL_END"
  shows "host_map_inv (m\<lparr>next_host := next_host m + 1, forward := (forward m)(h \<mapsto> pool_ip (next_host m)),
    reverse := (reverse m)(pool_ip (next_host m) \<mapsto> h)\<rparr>)"
proof -
  have u: "unat (next_host m + 1) = unat (next_host m) + 1" by (rule next_plus_one[OF n])
  have fresh: "reverse m (pool_ip (next_host m)) = None"
    using host_map_invD(2)[OF I] next_not_in_pool by blast
  have "in_pool (m\<lparr>next_host := next_host m + 1, forward := (forward m)(h \<mapsto> pool_ip (next_host m)),
      reverse := (reverse m)(pool_ip (next_host m) \<mapsto> h)\<rparr>) ip
      \<longleftrightarrow> ip = pool_ip (next_host m) \<or> in_pool m ip" for ip
    using I u by (auto simp: in_pool_def host_map_inv_def word_le_nat_alt word_less_nat_alt
        less_Suc_eq word_unat_eq_iff)
  moreover have "HOST_POOL_START \<le> next_host m + 1"
    using I u by (simp add: host_map_inv_def word_le_nat_alt)
  moreover have "reverse m ip \<noteq> Some h" for ip using host_map_invD(1)[OF I, of h ip] f by simp
  ultimately show ?thesis
    using I f fresh by (auto simp: host_map_inv_def simp del: split_paired_All)
qed

lemma alloc_inv:
  assumes "host_map_inv m"
  shows "host_map_inv (snd (alloc m h))"
  using assms alloc_fresh[OF assms, of h]
  by (auto simp: alloc_def Let_def split: option.splits)

lemma alloc_forward:
  "host_map_inv m \<Longrightarrow> alloc m h = ((ip, fresh), m') \<Longrightarrow> ip \<noteq> GATEWAY_IP \<Longrightarrow> forward m' h = Some ip"
  by (auto simp: alloc_def Let_def split: option.splits if_splits)

lemma alloc_monotone:
  "host_map_inv m \<Longrightarrow> reverse m ip = Some g \<Longrightarrow> reverse (snd (alloc m h)) ip = Some g"
  using host_map_invD(2)[OF _ next_not_in_pool, of m]
  by (auto simp: alloc_def Let_def split: option.splits)

lemma alloc_fresh_ip: "host_map_inv m \<Longrightarrow> pool_ip (next_host m) \<noteq> GATEWAY_IP"
  by (auto simp: host_map_inv_def pool_ip_def GATEWAY_IP_def HOST_POOL_START_def word_le_nat_alt)

lemma pool_octet_bound: "unat (k::octet) < unat (n::octet) \<Longrightarrow> unat k \<le> 254"
  using unsigned_less[of n, where 'a = nat] by simp

subsection \<open>The interface\<close>

text \<open>A session resolves a sequence of names.\<close>

definition alloc_all :: "('s \<Rightarrow> string \<Rightarrow> (ipv4 \<times> bool) \<times> 's) \<Rightarrow> 's \<Rightarrow> string list \<Rightarrow> 's" where
  "alloc_all pool_alloc s hs = foldl (\<lambda>s h. snd (pool_alloc s h)) s hs"

lemma alloc_all_simps [simp]:
  "alloc_all pool_alloc s [] = s"
  "alloc_all pool_alloc s (h # hs) = alloc_all pool_alloc (snd (pool_alloc s h)) hs"
  by (simp_all add: alloc_all_def)

locale host_pool =
  fixes pool_inv :: "'s \<Rightarrow> bool"
    and pool_alloc :: "'s \<Rightarrow> string \<Rightarrow> (ipv4 \<times> bool) \<times> 's"
    and host_of :: "'s \<Rightarrow> ipv4 \<Rightarrow> string option"
    and fallback :: ipv4
  assumes inv_alloc: "pool_inv s \<Longrightarrow> pool_inv (snd (pool_alloc s h))"
    and fallback_unmapped: "pool_inv s \<Longrightarrow> host_of s fallback = None"
    and alloc_maps: "pool_inv s \<Longrightarrow> pool_alloc s h = ((ip, fresh), s') \<Longrightarrow> ip \<noteq> fallback \<Longrightarrow> host_of s' ip = Some h"
    and alloc_keeps: "pool_inv s \<Longrightarrow> host_of s ip = Some g \<Longrightarrow> host_of (snd (pool_alloc s h)) ip = Some g"
    and alloc_again: "pool_inv s \<Longrightarrow> host_of s ip = Some h \<Longrightarrow> pool_alloc s h = ((ip, False), s)"
    and alloc_fresh: "pool_inv s \<Longrightarrow> pool_alloc s h = ((ip, True), s') \<Longrightarrow> host_of s ip = None \<and> ip \<noteq> fallback"
begin

lemma alloc_all_inv: "pool_inv s \<Longrightarrow> pool_inv (alloc_all pool_alloc s hs)"
  by (induction hs arbitrary: s) (auto intro: inv_alloc)

lemma alloc_all_keeps: "pool_inv s \<Longrightarrow> host_of s ip = Some g \<Longrightarrow> host_of (alloc_all pool_alloc s hs) ip = Some g"
  by (induction hs arbitrary: s) (auto intro: inv_alloc alloc_keeps)

text \<open>An answer given once stays valid: the address leads back to the name for the rest of the
  session, and asking again returns it.\<close>

lemma answer_stays:
  assumes "pool_inv s" "pool_alloc s h = ((ip, fresh), s')" "ip \<noteq> fallback"
  shows "host_of (alloc_all pool_alloc s' hs) ip = Some h" "pool_alloc (alloc_all pool_alloc s' hs) h = ((ip, False), alloc_all pool_alloc s' hs)"
proof -
  have "pool_inv s'" using inv_alloc[OF assms(1), of h] assms(2) by simp
  then show "host_of (alloc_all pool_alloc s' hs) ip = Some h"
    using alloc_all_keeps alloc_maps[OF assms] by blast
  then show "pool_alloc (alloc_all pool_alloc s' hs) h = ((ip, False), alloc_all pool_alloc s' hs)"
    using alloc_again alloc_all_inv \<open>pool_inv s'\<close> by blast
qed

text \<open>Two names never share an address other than the fallback.\<close>

lemma answers_differ:
  assumes "pool_inv s" "pool_alloc s g = ((ip, f1), s1)" "pool_alloc (alloc_all pool_alloc s1 hs) h = ((ip, f2), s2)"
    "ip \<noteq> fallback"
  shows "g = h"
proof -
  have I: "pool_inv s1" using inv_alloc[OF assms(1), of g] assms(2) by simp
  have "host_of s2 ip = Some h" using alloc_maps[OF alloc_all_inv[OF I] assms(3,4)] .
  moreover have "host_of (alloc_all pool_alloc s1 (hs @ [h])) ip = Some g"
    using answer_stays(1)[OF assms(1,2,4)] .
  moreover have "alloc_all pool_alloc s1 (hs @ [h]) = s2" using assms(3) by (simp add: alloc_all_def)
  ultimately show ?thesis by simp
qed

end

interpretation hm: host_pool host_map_inv alloc hostname_for_ip GATEWAY_IP
proof
  fix m h ip fresh m' g
  show "host_map_inv m \<Longrightarrow> host_map_inv (snd (alloc m h))" by (rule alloc_inv)
  show "host_map_inv m \<Longrightarrow> hostname_for_ip m GATEWAY_IP = None"
    using in_pool_bounds(1)[of m GATEWAY_IP] by (auto simp: hostname_for_ip_def dest: host_map_invD(2))
  show "host_map_inv m \<Longrightarrow> alloc m h = ((ip, fresh), m') \<Longrightarrow> ip \<noteq> GATEWAY_IP \<Longrightarrow> hostname_for_ip m' ip = Some h"
    using alloc_forward[of m h ip fresh m'] alloc_inv[of m h] by (simp add: host_map_invD hostname_for_ip_def)
  show "host_map_inv m \<Longrightarrow> hostname_for_ip m ip = Some g \<Longrightarrow> hostname_for_ip (snd (alloc m h)) ip = Some g"
    using alloc_monotone by (simp add: hostname_for_ip_def)
  show "host_map_inv m \<Longrightarrow> hostname_for_ip m ip = Some h \<Longrightarrow> alloc m h = ((ip, False), m)"
    by (simp add: hostname_for_ip_def alloc_def host_map_invD(1)[symmetric])
  show "host_map_inv m \<Longrightarrow> alloc m h = ((ip, True), m') \<Longrightarrow> hostname_for_ip m ip = None \<and> ip \<noteq> GATEWAY_IP"
    using host_map_invD(2)[OF _ next_not_in_pool, of m] alloc_fresh_ip[of m]
    by (auto simp: hostname_for_ip_def alloc_def Let_def split: option.splits if_splits)
qed

text \<open>
  The host pool is a bijection for the life of a session. After any names have been resolved,
  an address given out lies in 192.168.127.10--254 (never the gateway, the guest or the loopback
  address), leads back to its name, is given again for that name, and is never given for another;
  the octet counter does not overflow.
\<close>
lemma host_pool_bijective:
  assumes "alloc (alloc_all alloc new_host_map before) g = ((ip, fresh), m)" "ip \<noteq> GATEWAY_IP"
  shows "hostname_for_ip (alloc_all alloc m after) ip = Some g
    \<and> alloc (alloc_all alloc m after) g = ((ip, False), alloc_all alloc m after)
    \<and> (\<forall>h fresh' m'. alloc (alloc_all alloc m after) h = ((ip, fresh'), m') \<longrightarrow> h = g)
    \<and> (\<exists>k. ip = (192, 168, 127, k) \<and> 10 \<le> k \<and> k \<le> 254)
    \<and> (10 \<le> next_host (alloc_all alloc m after))"
proof -
  have I: "host_map_inv (alloc_all alloc new_host_map before)"
    by (rule hm.alloc_all_inv[OF new_host_map_inv])
  have Im: "host_map_inv m" using alloc_inv[OF I, of g] assms(1) by simp
  have "reverse m ip = Some g" using hm.answer_stays(1)[OF I assms, of "[]"] by (simp add: hostname_for_ip_def)
  then have "in_pool m ip" using host_map_invD(2)[OF Im] by fastforce
  then have "\<exists>k. ip = (192, 168, 127, k) \<and> 10 \<le> k \<and> k \<le> 254"
    by (auto simp: in_pool_def pool_ip_def HOST_POOL_START_def word_le_nat_alt word_less_nat_alt
        intro: pool_octet_bound)
  moreover have "10 \<le> next_host (alloc_all alloc m after)"
    using hm.alloc_all_inv[OF Im, of after] by (simp add: host_map_inv_def HOST_POOL_START_def)
  ultimately show ?thesis
    using hm.answer_stays[OF I assms, of after] hm.answers_differ[OF I assms(1) _ assms(2)] by blast
qed

end
