(* ===== verification/Tls.thy ===== *)
theory Tls
  imports HostMap
begin

text \<open>
  The upstream side of the proxy, \<^verbatim>\<open>src/src/tls.rs\<close>: the address classes that are refused
  (\<^verbatim>\<open>is_private_ip\<close>) and \<^verbatim>\<open>connect_upstream\<close>. Name resolution, the TCP connect and the rustls client
  are parameters.
\<close>

definition is_private_ip :: "ipv4 \<Rightarrow> bool" where
  "is_private_ip ip = (case ip of (a, b, c, d) \<Rightarrow>
     a = 10
     \<or> a = 172 \<and> 16 \<le> b \<and> b \<le> 31
     \<or> a = 192 \<and> b = 168
     \<or> a = 169 \<and> b = 254
     \<or> a = 127
     \<or> a = 0
     \<or> a = 100 \<and> 64 \<le> b \<and> b \<le> 127
     \<or> a = 192 \<and> b = 0 \<and> c = 0
     \<or> a = 192 \<and> b = 88 \<and> c = 99
     \<or> a = 198 \<and> 18 \<le> b \<and> b \<le> 19
     \<or> 224 \<le> a \<and> a \<le> 239
     \<or> 240 \<le> a \<and> a \<le> 255)"

datatype socket_addr = V4 ipv4 "16 word" | V6 "octet list" "16 word"

fun is_ipv4 :: "socket_addr \<Rightarrow> bool" where
  "is_ipv4 (V4 ip port) = True"
| "is_ipv4 (V6 ip port) = False"

datatype connect_error = Resolve_failed string | Dns_not_found | Private_ip ipv4 | Connect_failed string
| Bad_server_name string | Tls_setup_failed string

definition connect_upstream ::
  "(string \<Rightarrow> 16 word \<Rightarrow> connect_error + socket_addr list) \<Rightarrow> (socket_addr \<Rightarrow> connect_error + 'stream) \<Rightarrow>
   (string \<Rightarrow> connect_error + 'tls) \<Rightarrow> string \<Rightarrow> 16 word \<Rightarrow> bool \<Rightarrow> connect_error + ('stream \<times> 'tls)" where
  "connect_upstream resolve connect client hostname port allow_private =
     bindR (resolve hostname port) (\<lambda>addrs.
     bindR (ok_or (find is_ipv4 addrs) Dns_not_found) (\<lambda>addr.
     case addr of
       V4 ip p \<Rightarrow>
         if \<not> allow_private \<and> is_private_ip ip then Inl (Private_ip ip)
         else bindR (connect addr) (\<lambda>stream. bindR (client hostname) (\<lambda>conn. Inr (stream, conn)))
     | V6 ip p \<Rightarrow> bindR (connect addr) (\<lambda>stream. bindR (client hostname) (\<lambda>conn. Inr (stream, conn)))))"

subsection \<open>The reserved blocks\<close>

definition ip_number :: "ipv4 \<Rightarrow> nat" where
  "ip_number ip = (case ip of (a, b, c, d) \<Rightarrow>
     16777216 * unat a + 65536 * unat b + 256 * unat c + unat d)"

definition in_block :: "ipv4 \<Rightarrow> ipv4 \<times> nat \<Rightarrow> bool" where
  "in_block ip blk \<longleftrightarrow> ip_number ip div 2 ^ (32 - snd blk) = ip_number (fst blk) div 2 ^ (32 - snd blk)"

text \<open>The registered special-purpose blocks that the comments of the code name.\<close>

definition reserved_blocks :: "(ipv4 \<times> nat) list" where
  "reserved_blocks = [((10, 0, 0, 0), 8), ((172, 16, 0, 0), 12), ((192, 168, 0, 0), 16),
     ((169, 254, 0, 0), 16), ((127, 0, 0, 0), 8), ((0, 0, 0, 0), 8), ((100, 64, 0, 0), 10),
     ((192, 0, 0, 0), 24), ((192, 88, 99, 0), 24), ((198, 18, 0, 0), 15), ((224, 0, 0, 0), 4),
     ((240, 0, 0, 0), 4)]"

lemma octet_less: "unat (w :: octet) < 256"
  using unsigned_less[of w, where 'a = nat] by simp

lemma ip_number_div:
  fixes a b c d :: octet
  shows "ip_number (a, b, c, d) div 16777216 = unat a"
    "ip_number (a, b, c, d) div 65536 = 256 * unat a + unat b"
    "ip_number (a, b, c, d) div 256 = 65536 * unat a + 256 * unat b + unat c"
  using octet_less[of b] octet_less[of c] octet_less[of d] by (simp_all add: ip_number_def)

lemma ip_number_div_fine:
  fixes a b c d :: octet
  shows "ip_number (a, b, c, d) div 268435456 = unat a div 16"
    "ip_number (a, b, c, d) div 1048576 = 16 * unat a + unat b div 16"
    "ip_number (a, b, c, d) div 4194304 = 4 * unat a + unat b div 64"
    "ip_number (a, b, c, d) div 131072 = 128 * unat a + unat b div 2"
proof -
  have "ip_number (a, b, c, d) div 268435456 = ip_number (a, b, c, d) div 16777216 div 16"
    "ip_number (a, b, c, d) div 1048576 = ip_number (a, b, c, d) div 65536 div 16"
    "ip_number (a, b, c, d) div 4194304 = ip_number (a, b, c, d) div 65536 div 64"
    "ip_number (a, b, c, d) div 131072 = ip_number (a, b, c, d) div 65536 div 2"
    by (simp_all add: div_mult2_eq[symmetric])
  note a = this
  have b: "(256 * x + y) div 16 = 16 * x + y div 16" "(256 * x + y) div 64 = 4 * x + y div 64"
    "(256 * x + y) div 2 = 128 * x + y div 2" for x y :: nat
    by linarith+
  show "ip_number (a, b, c, d) div 268435456 = unat a div 16"
    "ip_number (a, b, c, d) div 1048576 = 16 * unat a + unat b div 16"
    "ip_number (a, b, c, d) div 4194304 = 4 * unat a + unat b div 64"
    "ip_number (a, b, c, d) div 131072 = 128 * unat a + unat b div 2"
    by (simp_all only: a ip_number_div b)
qed

lemma word_eq_unat: "(w :: octet) = numeral k \<longleftrightarrow> unat w = unat (numeral k :: octet)"
  "(w :: octet) = 0 \<longleftrightarrow> unat w = 0"
  by (simp_all add: word_unat_eq_iff)

lemma is_private_ip_unat:
  "is_private_ip (a, b, c, d) \<longleftrightarrow>
     unat a = 10 \<or> unat a = 172 \<and> 16 \<le> unat b \<and> unat b \<le> 31 \<or> unat a = 192 \<and> unat b = 168
     \<or> unat a = 169 \<and> unat b = 254 \<or> unat a = 127 \<or> unat a = 0
     \<or> unat a = 100 \<and> 64 \<le> unat b \<and> unat b \<le> 127
     \<or> unat a = 192 \<and> unat b = 0 \<and> unat c = 0 \<or> unat a = 192 \<and> unat b = 88 \<and> unat c = 99
     \<or> unat a = 198 \<and> 18 \<le> unat b \<and> unat b \<le> 19 \<or> 224 \<le> unat a"
proof -
  have "(224 \<le> a \<and> a \<le> 239 \<or> 240 \<le> a \<and> a \<le> 255) \<longleftrightarrow> 224 \<le> unat a"
    using octet_less[of a] by (simp add: word_le_nat_alt) linarith
  then show ?thesis
    unfolding is_private_ip_def prod.case by (simp add: word_eq_unat word_le_nat_alt)
qed

lemma digits_eq:
  fixes k x q x' q' :: nat
  assumes "q < k" "q' < k"
  shows "k * x + q = k * x' + q' \<longleftrightarrow> x = x' \<and> q = q'"
proof
  assume eq: "k * x + q = k * x' + q'"
  have "(k * x + q) div k = x" "(k * x' + q') div k = x'" using assms by simp_all
  then show "x = x' \<and> q = q'" using eq by simp
qed simp

lemma div_range: "(y::nat) div 16 = Suc 0 \<longleftrightarrow> 16 \<le> y \<and> y \<le> 31"
  "y div 64 = Suc 0 \<longleftrightarrow> 64 \<le> y \<and> y \<le> 127" "y div 2 = 9 \<longleftrightarrow> 18 \<le> y \<and> y \<le> 19"
  by linarith+

lemma block_arith:
  fixes x y :: nat
  assumes "y < 256"
  shows "16 * x + y div 16 = 2753 \<longleftrightarrow> x = 172 \<and> 16 \<le> y \<and> y \<le> 31"
    "4 * x + y div 64 = 401 \<longleftrightarrow> x = 100 \<and> 64 \<le> y \<and> y \<le> 127"
    "128 * x + y div 2 = 25353 \<longleftrightarrow> x = 198 \<and> 18 \<le> y \<and> y \<le> 19"
    "y div 16 = 14 \<or> y div 16 = 15 \<longleftrightarrow> 224 \<le> y"
    "256 * x + y = 49320 \<longleftrightarrow> x = 192 \<and> y = 168"
    "256 * x + y = 43518 \<longleftrightarrow> x = 169 \<and> y = 254"
proof -
  have lt: "y div 16 < 16" "y div 64 < 4" "y div 2 < 128" using assms by simp_all
  show "16 * x + y div 16 = 2753 \<longleftrightarrow> x = 172 \<and> 16 \<le> y \<and> y \<le> 31"
    using digits_eq[OF lt(1), of 1 x 172] by (simp add: div_range)
  show "4 * x + y div 64 = 401 \<longleftrightarrow> x = 100 \<and> 64 \<le> y \<and> y \<le> 127"
    using digits_eq[OF lt(2), of 1 x 100] by (simp add: div_range)
  show "128 * x + y div 2 = 25353 \<longleftrightarrow> x = 198 \<and> 18 \<le> y \<and> y \<le> 19"
    using digits_eq[OF lt(3), of 9 x 198] by (simp add: div_range)
  show "256 * x + y = 49320 \<longleftrightarrow> x = 192 \<and> y = 168"
    using digits_eq[OF assms, of 168 x 192] by simp
  show "256 * x + y = 43518 \<longleftrightarrow> x = 169 \<and> y = 254"
    using digits_eq[OF assms, of 254 x 169] by simp
  show "y div 16 = 14 \<or> y div 16 = 15 \<longleftrightarrow> 224 \<le> y"
    using assms by linarith
qed

lemma block_arith_24:
  fixes x y z :: nat
  assumes "y < 256" "z < 256"
  shows "65536 * x + 256 * y + z = 12582912 \<longleftrightarrow> x = 192 \<and> y = 0 \<and> z = 0"
    "65536 * x + 256 * y + z = 12605539 \<longleftrightarrow> x = 192 \<and> y = 88 \<and> z = 99"
proof -
  have e: "65536 * x + 256 * y + z = 256 * (256 * x + y) + z" by simp
  show "65536 * x + 256 * y + z = 12582912 \<longleftrightarrow> x = 192 \<and> y = 0 \<and> z = 0"
    unfolding e using digits_eq[OF assms(2), of 0 "256 * x + y" 49152] digits_eq[OF assms(1), of 0 x 192] by simp
  show "65536 * x + 256 * y + z = 12605539 \<longleftrightarrow> x = 192 \<and> y = 88 \<and> z = 99"
    unfolding e using digits_eq[OF assms(2), of 99 "256 * x + y" 49240] digits_eq[OF assms(1), of 88 x 192] by simp
qed

lemma is_private_ip_blocks: "is_private_ip ip \<longleftrightarrow> list_ex (in_block ip) reserved_blocks"
proof -
  obtain a b c d where ip: "ip = (a, b, c, d)" using prod_cases4 by blast
  have n: "unat b < 256" "unat c < 256" "unat a < 256" by (rule octet_less)+
  note d = in_block_def ip ip_number_div ip_number_div_fine
  have 4: "in_block ip ((172, 16, 0, 0), 12) \<longleftrightarrow> unat a = 172 \<and> 16 \<le> unat b \<and> unat b \<le> 31"
    using block_arith(1)[OF n(1), of "unat a"] by (simp add: d)
  have 5: "in_block ip ((100, 64, 0, 0), 10) \<longleftrightarrow> unat a = 100 \<and> 64 \<le> unat b \<and> unat b \<le> 127"
    using block_arith(2)[OF n(1), of "unat a"] by (simp add: d)
  have 6: "in_block ip ((198, 18, 0, 0), 15) \<longleftrightarrow> unat a = 198 \<and> 18 \<le> unat b \<and> unat b \<le> 19"
    using block_arith(3)[OF n(1), of "unat a"] by (simp add: d)
  have 7: "in_block ip ((224, 0, 0, 0), 4) \<or> in_block ip ((240, 0, 0, 0), 4) \<longleftrightarrow> 224 \<le> unat a"
    using block_arith(4)[OF n(3)] by (simp add: d)
  have 8: "in_block ip ((192, 168, 0, 0), 16) \<longleftrightarrow> unat a = 192 \<and> unat b = 168"
    "in_block ip ((169, 254, 0, 0), 16) \<longleftrightarrow> unat a = 169 \<and> unat b = 254"
    using block_arith(5,6)[OF n(1), of "unat a"] by (simp_all add: d)
  have 9: "in_block ip ((192, 0, 0, 0), 24) \<longleftrightarrow> unat a = 192 \<and> unat b = 0 \<and> unat c = 0"
    "in_block ip ((192, 88, 99, 0), 24) \<longleftrightarrow> unat a = 192 \<and> unat b = 88 \<and> unat c = 99"
    using block_arith_24[OF n(1,2), of "unat a"] by (simp_all add: d)
  have 10: "in_block ip ((10, 0, 0, 0), 8) \<longleftrightarrow> unat a = 10" "in_block ip ((127, 0, 0, 0), 8) \<longleftrightarrow> unat a = 127"
    "in_block ip ((0, 0, 0, 0), 8) \<longleftrightarrow> unat a = 0"
    by (simp_all add: d)
  have P: "is_private_ip ip \<longleftrightarrow> is_private_ip (a, b, c, d)" by (simp add: ip)
  show ?thesis
    unfolding P is_private_ip_unat reserved_blocks_def list_ex_Cons_iff list_ex_Nil_iff 4 5 6 8 9 10 using 7 by blast
qed

subsection \<open>Properties\<close>

text \<open>
  C34: the address patterns of the code are the reserved blocks its comments name. An address is
  private iff it lies in one of the twelve CIDR blocks, compared as 32-bit numbers.
\<close>
theorem private_ip_is_reserved_block:
  "is_private_ip ip \<longleftrightarrow> list_ex (in_block ip) reserved_blocks"
  by (rule is_private_ip_blocks)

text \<open>
  No upstream connection to a private address. Unless private addresses are allowed, whatever
  the resolver answers, the result does not depend on what connecting to a private address would
  give, so no such connection is attempted; a result comes from the first IPv4 address of the
  answer, with its own port.
\<close>
lemma connect_upstream_no_ssrf:
  assumes "\<And>ip p. \<not> is_private_ip ip \<Longrightarrow> connect (V4 ip p) = connect' (V4 ip p)"
  shows "connect_upstream resolve connect client hostname port False
      = connect_upstream resolve connect' client hostname port False
    \<and> (connect_upstream resolve connect client hostname port allow = Inr (stream, conn) \<longrightarrow>
        (\<exists>addrs ip p. resolve hostname port = Inr addrs \<and> find is_ipv4 addrs = Some (V4 ip p)
           \<and> connect (V4 ip p) = Inr stream \<and> client hostname = Inr conn
           \<and> (allow \<or> \<not> is_private_ip ip)))"
proof -
  have "is_ipv4 a \<Longrightarrow> \<exists>ip p. a = V4 ip p" for a by (cases a) auto
  then have find: "find is_ipv4 addrs = Some a \<Longrightarrow> \<exists>ip p. a = V4 ip p" for addrs a
    by (auto simp: find_Some_iff)
  have "connect_upstream resolve connect client hostname port False
      = connect_upstream resolve connect' client hostname port False"
  proof (cases "resolve hostname port")
    case (Inr addrs)
    show ?thesis
    proof (cases "find is_ipv4 addrs")
      case (Some a)
      then obtain ip p where "a = V4 ip p" using find by blast
      with Inr Some show ?thesis by (simp add: connect_upstream_def assms)
    qed (simp add: connect_upstream_def Inr)
  qed (simp add: connect_upstream_def)
  moreover have "\<exists>addrs ip p. resolve hostname port = Inr addrs \<and> find is_ipv4 addrs = Some (V4 ip p)
           \<and> connect (V4 ip p) = Inr stream \<and> client hostname = Inr conn \<and> (allow \<or> \<not> is_private_ip ip)"
    if "connect_upstream resolve connect client hostname port allow = Inr (stream, conn)"
  proof -
    from that obtain addrs a where a: "resolve hostname port = Inr addrs" "find is_ipv4 addrs = Some a"
      by (auto simp: connect_upstream_def res_inv)
    then obtain ip p where "a = V4 ip p" using find by blast
    with that a show ?thesis
      by (auto simp: connect_upstream_def res_inv simp del: split_paired_Ex split: if_splits)
  qed
  ultimately show ?thesis by blast
qed

end
