(* ===== verification/TlsThread.thy ===== *)
theory TlsThread
  imports Conn Http Tls
begin

text \<open>
  The TLS thread of a connection, \<^verbatim>\<open>tls_connection_thread\<close> of \<^verbatim>\<open>src/src/proxy.rs\<close>, in the phases of
  the code: read a request, validate the SNI, enforce the allowlist, reject what the proxy does not
  forward, rewrite and inject, connect and hand-shake, send, and stream the response back. The two
  rustls sessions are parameters: the guest side by what its reads return and by a writer, the
  upstream side by \<open>upstream_ops\<close> and by the rounds of the response loop. A thread that never
  returns is \<open>None\<close>.
\<close>

datatype thread_error = Read_error chan_error | Write_error chan_error | Request_too_large | No_sni
| Invalid_sni | Upstream_error connect_error | Handshake_incomplete | Tls_error string | Response_too_large

type_synonym audit_event = "string \<times> (string \<times> string) list"

record http_env =
  parse_request :: "bytes \<Rightarrow> http_request parsed"
  parse_response :: "bytes \<Rightarrow> http_response parsed"
  decode64 :: "string \<Rightarrow> bytes option"
  encode64 :: "string \<Rightarrow> string"

record 'w thread_state =
  guest :: 'w
  contacted :: "string list"
  sent_upstream :: bytes
  events :: "audit_event list"
  discovered :: "string list"

definition log_event :: "string \<Rightarrow> (string \<times> string) list \<Rightarrow> 'w thread_state \<Rightarrow> 'w thread_state" where
  "log_event ev kvs st = st\<lparr>events := events st @ [(ev, kvs)]\<rparr>"

subsection \<open>Reading the request\<close>

datatype read_outcome = Request bytes | Client_closed | Read_failed thread_error

fun read_request :: "(bytes \<Rightarrow> http_request parsed) \<Rightarrow> (chan_error + bytes) list \<Rightarrow> bytes \<Rightarrow> read_outcome" where
  "read_request pr [] request = Read_failed (Read_error Timed_out)"
| "read_request pr (Inl e # reads) request = Read_failed (Read_error e)"
| "read_request pr (Inr data # reads) request =
     (if data = [] then Client_closed
      else (let request = request @ data
            in if http_request_complete pr request then Request request
               else if length request > MAX_REQUEST_BODY then Read_failed Request_too_large
               else read_request pr reads request))"

subsection \<open>The gate\<close>

definition sni_char :: "char \<Rightarrow> bool" where
  "sni_char c \<longleftrightarrow> is_ascii_alphanumeric c \<or> c = CHR ''.'' \<or> c = CHR ''-''"

definition valid_sni :: "string \<Rightarrow> bool" where
  "valid_sni sni \<longleftrightarrow> length sni \<le> 253 \<and> list_all sni_char sni"

definition host_allowed :: "string list option \<Rightarrow> string \<Rightarrow> bool" where
  "host_allowed allowed sni = (case allowed of None \<Rightarrow> True | Some hosts \<Rightarrow> list_ex (\<lambda>p. host_matches p sni) hosts)"

definition explicitly_allowed :: "string list option \<Rightarrow> string \<Rightarrow> bool" where
  "explicitly_allowed allowed sni =
     (case allowed of None \<Rightarrow> False | Some hosts \<Rightarrow> list_ex (\<lambda>p. host_matches p sni) hosts)"

definition forbidden_body :: "string \<Rightarrow> bytes" where
  "forbidden_body sni = ''redan: connection to '' @ sni @ '' blocked by network policy.'' @ [CHR 0x0A]
     @ ''Host is not in the allowlist. Add it to redan.toml:'' @ [CHR 0x0A, CHR 0x0A]
     @ ''[network]'' @ [CHR 0x0A] @ ''allow = ['' @ [CHR 0x22] @ sni @ [CHR 0x22] @ '']'' @ [CHR 0x0A]"

definition forbidden_response :: "string \<Rightarrow> bytes" where
  "forbidden_response sni = ''HTTP/1.1 403 Forbidden'' @ CRLF @ ''Content-Type: text/plain'' @ CRLF
     @ ''Content-Length: '' @ show_nat (length (forbidden_body sni)) @ CRLF
     @ ''Connection: close'' @ CRLF @ CRLF @ forbidden_body sni"

definition status_response :: "string \<Rightarrow> bytes" where
  "status_response status = ''HTTP/1.1 '' @ status @ CRLF @ ''Connection: close'' @ CRLF @ CRLF"

datatype gate_result = Pass | Refuse thread_error
| Forbid bytes "audit_event list"  \<comment> \<open>the failure of this answer is ignored\<close>
| Reject bytes "audit_event list"

definition host_header_name :: "string \<Rightarrow> string" where
  "host_header_name host = hd (split_on (CHR '':'') host)"

definition fronting_check :: "(bytes \<Rightarrow> http_request parsed) \<Rightarrow> string \<Rightarrow> bytes \<Rightarrow> bool" where
  "fronting_check pr sni request =
     (case extract_host_header pr request of
        None \<Rightarrow> True
      | Some host \<Rightarrow> eq_ignore_ascii_case (host_header_name host) sni)"

definition request_gate :: "(bytes \<Rightarrow> http_request parsed) \<Rightarrow> string \<Rightarrow> bytes \<Rightarrow> gate_result" where
  "request_gate pr sni request =
     (if request_is_connect pr request then Reject (status_response ''405 Method Not Allowed'') []
      else if request_has_upgrade pr request then Reject (status_response ''501 Not Implemented'') []
      else if has_duplicate_content_length pr request then Reject (status_response ''400 Bad Request'') []
      else if \<not> fronting_check pr sni request
      then Reject (status_response ''421 Misdirected Request'')
             [(''reject'', [(''host'', sni), (''reason'', ''domain_fronting'')])]
      else if request_has_chunked_te pr request then Reject (status_response ''411 Length Required'') []
      else Pass)"

definition gate :: "(bytes \<Rightarrow> http_request parsed) \<Rightarrow> string list option \<Rightarrow> string \<Rightarrow> bytes \<Rightarrow> gate_result" where
  "gate pr allowed sni request =
     (if sni = [] then Refuse No_sni
      else if \<not> valid_sni sni then Refuse Invalid_sni
      else if \<not> host_allowed allowed sni
      then Forbid (forbidden_response sni) [(''reject'', [(''host'', sni), (''reason'', ''not_allowed'')])]
      else request_gate pr sni request)"

subsection \<open>Injection and connection\<close>

definition prepare_request ::
  "http_env \<Rightarrow> string \<Rightarrow> secret_binding list \<Rightarrow> bytes \<Rightarrow> 'w thread_state \<Rightarrow> bytes \<times> 'w thread_state" where
  "prepare_request env sni secrets request st =
     (let request = rewrite_request_headers (parse_request env) request
      in case inject (parse_request env) (decode64 env) (encode64 env) request sni secrets of
           (request_data, inject_count) \<Rightarrow>
             (request_data,
              if inject_count > 0
              then log_event ''inject'' [(''host'', sni), (''count'', show_nat inject_count)] st else st))"

definition record_contact :: "string \<Rightarrow> 'w thread_state \<Rightarrow> 'w thread_state" where
  "record_contact sni st =
     (let st = log_event ''connect'' [(''host'', sni)] st
      in st\<lparr>discovered := discovered st @ [to_ascii_lowercase sni], contacted := contacted st @ [sni]\<rparr>)"

record 'u upstream_ops =
  is_handshaking :: "'u \<Rightarrow> bool"
  wants_write :: "'u \<Rightarrow> bool"
  wants_read :: "'u \<Rightarrow> bool"
  write_tls :: "'u \<Rightarrow> thread_error + 'u"
  read_tls :: "'u \<Rightarrow> thread_error + 'u"
  process_packets :: "'u \<Rightarrow> thread_error + 'u"
  write_plain :: "bytes \<Rightarrow> 'u \<Rightarrow> thread_error + 'u"

fun handshake :: "'u upstream_ops \<Rightarrow> nat \<Rightarrow> 'u \<Rightarrow> thread_error + 'u" where
  "handshake ops 0 u = Inr u"
| "handshake ops (Suc n) u =
     (if \<not> is_handshaking ops u then Inr u
      else bindR (if wants_write ops u then write_tls ops u else Inr u) (\<lambda>u.
           bindR (if wants_read ops u then bindR (read_tls ops u) (process_packets ops) else Inr u)
             (handshake ops n)))"

definition complete_handshake :: "'u upstream_ops \<Rightarrow> 'u \<Rightarrow> thread_error + 'u" where
  "complete_handshake ops u =
     bindR (handshake ops 1000 u) (\<lambda>u. if is_handshaking ops u then Inl Handshake_incomplete else Inr u)"

partial_function (option) flush_writes :: "'u upstream_ops \<Rightarrow> 'u \<Rightarrow> (thread_error + 'u) option" where
  "flush_writes ops u =
     (if \<not> wants_write ops u then Some (Inr u)
      else (case write_tls ops u of Inl e \<Rightarrow> Some (Inl e) | Inr u \<Rightarrow> flush_writes ops u))"

function chunks_of :: "nat \<Rightarrow> bytes \<Rightarrow> bytes list" where
  "chunks_of n xs = (if xs = [] \<or> n = 0 then [] else take n xs # chunks_of n (drop n xs))"
  by pat_completeness auto
termination by (relation "measure (\<lambda>(n, xs). length xs)") auto

declare chunks_of.simps [simp del]

fun send_chunks :: "'u upstream_ops \<Rightarrow> bytes list \<Rightarrow> 'u \<Rightarrow> bytes \<Rightarrow> ((thread_error + 'u) \<times> bytes) option" where
  "send_chunks ops [] u sent = Some (Inr u, sent)"
| "send_chunks ops (c # cs) u sent =
     (case write_plain ops c u of
        Inl e \<Rightarrow> Some (Inl e, sent)
      | Inr u \<Rightarrow> (case flush_writes ops u of
          None \<Rightarrow> None
        | Some (Inl e) \<Rightarrow> Some (Inl e, sent @ c)
        | Some (Inr u) \<Rightarrow> send_chunks ops cs u (sent @ c)))"

definition send_request :: "'u upstream_ops \<Rightarrow> bytes \<Rightarrow> 'u \<Rightarrow> ((thread_error + 'u) \<times> bytes) option" where
  "send_request ops request_data u = send_chunks ops (chunks_of 16384 request_data) u []"

subsection \<open>Relaying the response\<close>

text \<open>One round of the response loop: what \<^verbatim>\<open>read_tls\<close> and \<^verbatim>\<open>process_new_packets\<close> return, the plaintext
  chunks that become readable, whether the peer has closed, and what is still buffered then. A read
  that would block for longer than the timeout ends the loop, as an exhausted list does.\<close>

datatype raw_read = Raw_eof | Raw_data | Raw_timeout | Raw_error string

record round =
  raw :: raw_read
  packets_ok :: bool
  plaintext :: "bytes list"
  peer_has_closed :: bool
  remaining_plaintext :: "bytes list"

record 'w relay_state =
  out :: 'w
  header_buf :: bytes
  headers_sent :: bool
  total_bytes :: nat
  overlap :: bytes
  relay_events :: "audit_event list"

type_synonym 'w guest_writer = "'w \<Rightarrow> bytes \<Rightarrow> chan_error + 'w"

definition map_err :: "('e \<Rightarrow> 'f) \<Rightarrow> 'e + 'a \<Rightarrow> 'f + 'a" where
  "map_err f r = (case r of Inl e \<Rightarrow> Inl (f e) | Inr x \<Rightarrow> Inr x)"

definition guest_write :: "'w guest_writer \<Rightarrow> 'w \<Rightarrow> bytes \<Rightarrow> thread_error + 'w" where
  "guest_write wr w b = map_err Write_error (wr w b)"

definition relay_chunk ::
  "'w guest_writer \<Rightarrow> string \<Rightarrow> secret_binding list \<Rightarrow> bytes \<Rightarrow> 'w relay_state \<Rightarrow> thread_error + 'w relay_state" where
  "relay_chunk wr sni secrets chunk st =
     bindR (write_scrubbed_chunk (guest_write wr) (out st) chunk sni secrets (max_secret_len secrets) (overlap st))
       (\<lambda>(w, ov). Inr (st\<lparr>out := w, overlap := ov\<rparr>))"

definition header_events :: "(bytes \<Rightarrow> http_response parsed) \<Rightarrow> string \<Rightarrow> bytes \<Rightarrow> nat \<Rightarrow> audit_event list" where
  "header_events pp sni headers scrub_count =
     (if has_content_encoding pp headers
      then [(''warn'', [(''host'', sni), (''reason'', ''compressed_response'')])] else [])
     @ (if scrub_count > 0
        then [(''scrub'', [(''host'', sni), (''count'', show_nat scrub_count), (''location'', ''headers'')])] else [])"

text \<open>The first chunk with the end of the head: scrub and rewrite the head, then the body so far.\<close>

definition relay_head ::
  "'w guest_writer \<Rightarrow> (bytes \<Rightarrow> http_response parsed) \<Rightarrow> string \<Rightarrow> secret_binding list \<Rightarrow> nat
     \<Rightarrow> 'w relay_state \<Rightarrow> thread_error + 'w relay_state" where
  "relay_head wr pp sni secrets head_end st =
     (let headers = take head_end (header_buf st);
          body_remainder = drop head_end (header_buf st)
      in case scrub headers sni secrets of (scrubbed, scrub_count) \<Rightarrow>
         bindR (guest_write wr (out st) (rewrite_connection_close pp scrubbed)) (\<lambda>w.
           let st = st\<lparr>out := w, headers_sent := True,
                       relay_events := relay_events st @ header_events pp sni headers scrub_count\<rparr>
           in bindR (if body_remainder \<noteq> [] then relay_chunk wr sni secrets body_remainder st else Inr st)
                (\<lambda>st. Inr (st\<lparr>header_buf := []\<rparr>))))"

definition relay_data ::
  "'w guest_writer \<Rightarrow> (bytes \<Rightarrow> http_response parsed) \<Rightarrow> string \<Rightarrow> secret_binding list \<Rightarrow> bytes
     \<Rightarrow> 'w relay_state \<Rightarrow> thread_error + 'w relay_state" where
  "relay_data wr pp sni secrets chunk st =
     (let st = st\<lparr>total_bytes := total_bytes st + length chunk\<rparr>
      in if total_bytes st > MAX_RESPONSE_SIZE then Inl Response_too_large
         else if headers_sent st then relay_chunk wr sni secrets chunk st
         else (let st = st\<lparr>header_buf := header_buf st @ chunk\<rparr>
               in case find_header_end (header_buf st) of
                    Some head_end \<Rightarrow> relay_head wr pp sni secrets head_end st
                  | None \<Rightarrow> Inr st))"

fun relay_plaintext ::
  "'w guest_writer \<Rightarrow> (bytes \<Rightarrow> http_response parsed) \<Rightarrow> string \<Rightarrow> secret_binding list \<Rightarrow> bytes list
     \<Rightarrow> 'w relay_state \<Rightarrow> thread_error + 'w relay_state" where
  "relay_plaintext wr pp sni secrets [] st = Inr st"
| "relay_plaintext wr pp sni secrets (c # cs) st =
     (if c = [] then Inr st
      else bindR (relay_data wr pp sni secrets c st) (relay_plaintext wr pp sni secrets cs))"

fun drain_plaintext ::
  "'w guest_writer \<Rightarrow> string \<Rightarrow> secret_binding list \<Rightarrow> bytes list \<Rightarrow> 'w relay_state \<Rightarrow> thread_error + 'w relay_state" where
  "drain_plaintext wr sni secrets [] st = Inr st"
| "drain_plaintext wr sni secrets (c # cs) st =
     (if c = [] then Inr st
      else bindR (if headers_sent st then relay_chunk wr sni secrets c st
                  else Inr (st\<lparr>header_buf := header_buf st @ c\<rparr>))
             (drain_plaintext wr sni secrets cs))"

definition relay_closed ::
  "'w guest_writer \<Rightarrow> (bytes \<Rightarrow> http_response parsed) \<Rightarrow> string \<Rightarrow> secret_binding list \<Rightarrow> bytes list
     \<Rightarrow> 'w relay_state \<Rightarrow> thread_error + 'w relay_state" where
  "relay_closed wr pp sni secrets rest st =
     bindR (drain_plaintext wr sni secrets rest st) (\<lambda>st.
       if \<not> headers_sent st \<and> header_buf st \<noteq> []
       then bindR (guest_write wr (out st) (rewrite_connection_close pp (fst (scrub (header_buf st) sni secrets))))
              (\<lambda>w. Inr (st\<lparr>out := w\<rparr>))
       else Inr st)"

fun relay_rounds ::
  "'w guest_writer \<Rightarrow> (bytes \<Rightarrow> http_response parsed) \<Rightarrow> string \<Rightarrow> secret_binding list \<Rightarrow> round list
     \<Rightarrow> 'w relay_state \<Rightarrow> thread_error + 'w relay_state" where
  "relay_rounds wr pp sni secrets [] st = Inr st"
| "relay_rounds wr pp sni secrets (r # rs) st =
     (case raw r of
        Raw_eof \<Rightarrow> Inr st
      | Raw_timeout \<Rightarrow> Inr st
      | Raw_error e \<Rightarrow> Inl (Tls_error e)
      | Raw_data \<Rightarrow>
          if \<not> packets_ok r then Inl (Tls_error ''process_new_packets'')
          else bindR (relay_plaintext wr pp sni secrets (plaintext r) st) (\<lambda>st.
                 if peer_has_closed r then relay_closed wr pp sni secrets (remaining_plaintext r) st
                 else relay_rounds wr pp sni secrets rs st))"

definition relay_response ::
  "'w guest_writer \<Rightarrow> (bytes \<Rightarrow> http_response parsed) \<Rightarrow> string \<Rightarrow> secret_binding list \<Rightarrow> round list \<Rightarrow> 'w
     \<Rightarrow> thread_error + 'w \<times> audit_event list" where
  "relay_response wr pp sni secrets rounds w =
     bindR (relay_rounds wr pp sni secrets rounds
              \<lparr>out = w, header_buf = [], headers_sent = False, total_bytes = 0, overlap = [], relay_events = []\<rparr>)
       (\<lambda>st. bindR (flush_overlap (guest_write wr) (out st) (overlap st)) (\<lambda>w. Inr (w, relay_events st)))"

subsection \<open>The thread\<close>

record ('s, 'u) upstream_env =
  resolve_host :: "string \<Rightarrow> 16 word \<Rightarrow> connect_error + socket_addr list"
  dial :: "socket_addr \<Rightarrow> connect_error + 's"
  client_session :: "string \<Rightarrow> connect_error + ('s \<Rightarrow> 'u)"
  session_ops :: "'u upstream_ops"
  response_rounds :: "'u \<Rightarrow> round list"

definition upstream_session ::
  "('s, 'u) upstream_env \<Rightarrow> string list option \<Rightarrow> string \<Rightarrow> thread_error + 'u" where
  "upstream_session up allowed sni =
     bindR (map_err Upstream_error
              (connect_upstream (resolve_host up) (dial up) (client_session up) sni 443
                 (explicitly_allowed allowed sni)))
       (\<lambda>(stream, session). complete_handshake (session_ops up) (session stream))"

definition forward_request ::
  "'w guest_writer \<Rightarrow> http_env \<Rightarrow> ('s, 'u) upstream_env \<Rightarrow> string list option \<Rightarrow> string
     \<Rightarrow> secret_binding list \<Rightarrow> bytes \<Rightarrow> 'w thread_state \<Rightarrow> ((thread_error + unit) \<times> 'w thread_state) option" where
  "forward_request wr env up allowed sni secrets request st =
     (case prepare_request env sni secrets request st of (request_data, st) \<Rightarrow>
        (let st = record_contact sni st
         in case upstream_session up allowed sni of
              Inl e \<Rightarrow> Some (Inl e, st)
            | Inr u \<Rightarrow>
                (case send_request (session_ops up) request_data u of
                   None \<Rightarrow> None
                 | Some (Inl e, sent) \<Rightarrow> Some (Inl e, st\<lparr>sent_upstream := sent\<rparr>)
                 | Some (Inr u, sent) \<Rightarrow>
                     (let st = st\<lparr>sent_upstream := sent\<rparr>
                      in case relay_response wr (parse_response env) sni secrets (response_rounds up u) (guest st) of
                           Inl e \<Rightarrow> Some (Inl e, st)
                         | Inr (w, evs) \<Rightarrow> Some (Inr (), st\<lparr>guest := w, events := events st @ evs\<rparr>)))))"

definition tls_connection_thread ::
  "'w guest_writer \<Rightarrow> http_env \<Rightarrow> ('s, 'u) upstream_env \<Rightarrow> (chan_error + bytes) list \<Rightarrow> string
     \<Rightarrow> secret_binding list \<Rightarrow> string list option \<Rightarrow> 'w \<Rightarrow> ((thread_error + unit) \<times> 'w thread_state) option" where
  "tls_connection_thread wr env up reads sni secrets allowed w =
     (let st = \<lparr>guest = w, contacted = [], sent_upstream = [], events = [], discovered = []\<rparr>
      in case read_request (parse_request env) reads [] of
           Client_closed \<Rightarrow> Some (Inr (), st)
         | Read_failed e \<Rightarrow> Some (Inl e, st)
         | Request request \<Rightarrow>
             (case gate (parse_request env) allowed sni request of
                Refuse e \<Rightarrow> Some (Inl e, st)
              | Forbid resp evs \<Rightarrow>
                  (let st = st\<lparr>events := evs\<rparr>
                   in case wr w resp of
                        Inl e \<Rightarrow> Some (Inr (), st)
                      | Inr w \<Rightarrow> Some (Inr (), st\<lparr>guest := w\<rparr>))
              | Reject resp evs \<Rightarrow>
                  (let st = st\<lparr>events := evs\<rparr>
                   in case wr w resp of
                        Inl e \<Rightarrow> Some (Inl (Write_error e), st)
                      | Inr w \<Rightarrow> Some (Inr (), st\<lparr>guest := w\<rparr>))
              | Pass \<Rightarrow> forward_request wr env up allowed sni secrets request st))"

subsection \<open>What passes the gate\<close>

lemma gate_Pass:
  "gate pr allowed sni request = Pass \<longleftrightarrow>
     sni \<noteq> [] \<and> valid_sni sni \<and> host_allowed allowed sni
     \<and> \<not> request_is_connect pr request \<and> \<not> request_has_upgrade pr request
     \<and> \<not> has_duplicate_content_length pr request \<and> fronting_check pr sni request
     \<and> \<not> request_has_chunked_te pr request"
  by (auto simp: gate_def request_gate_def)

lemma concat_chunks_of: "0 < n \<Longrightarrow> concat (chunks_of n xs) = xs"
proof (induction n xs rule: chunks_of.induct)
  case (1 n xs)
  then show ?case by (subst chunks_of.simps) simp
qed

lemma send_chunks_prefix:
  "send_chunks ops cs u sent = Some (r, sent') \<Longrightarrow> \<exists>k. sent' = sent @ concat (take k cs)"
proof (induction cs arbitrary: u sent)
  case (Cons c cs)
  show ?case
  proof (cases "write_plain ops c u")
    case (Inl e)
    then show ?thesis using Cons.prems by (auto intro: exI[of _ 0])
  next
    case (Inr u1)
    show ?thesis
    proof (cases "flush_writes ops u1")
      case None
      then show ?thesis using Cons.prems Inr by simp
    next
      case (Some fr)
      show ?thesis
      proof (cases fr)
        case (Inl e)
        then show ?thesis using Cons.prems \<open>write_plain ops c u = Inr u1\<close> Some by (auto intro: exI[of _ 1])
      next
        case (Inr u2)
        then have "send_chunks ops cs u2 (sent @ c) = Some (r, sent')"
          using Cons.prems \<open>write_plain ops c u = Inr u1\<close> Some by simp
        then obtain k where "sent' = (sent @ c) @ concat (take k cs)" using Cons.IH by blast
        then show ?thesis by (intro exI[of _ "Suc k"]) simp
      qed
    qed
  qed
qed (auto intro: exI[of _ 0])

lemma concat_take_prefix: "prefix (concat (take k cs)) (concat cs)"
  by (metis append_take_drop_id concat_append prefixI)

lemma send_request_prefix:
  "send_request ops data u = Some (r, sent) \<Longrightarrow> prefix sent data"
proof -
  assume "send_request ops data u = Some (r, sent)"
  then obtain k where "sent = concat (take k (chunks_of 16384 data))"
    using send_chunks_prefix[of ops "chunks_of 16384 data" u "[]" r sent] by (auto simp: send_request_def)
  then show ?thesis using concat_take_prefix[of k "chunks_of 16384 data"] by (simp add: concat_chunks_of)
qed

lemma prepare_request_state:
  "prepare_request env sni secrets request st = (d, st') \<Longrightarrow>
   d = fst (inject (parse_request env) (decode64 env) (encode64 env)
         (rewrite_request_headers (parse_request env) request) sni secrets)
   \<and> guest st' = guest st \<and> contacted st' = contacted st \<and> sent_upstream st' = sent_upstream st
   \<and> discovered st' = discovered st"
  by (auto simp: prepare_request_def log_event_def Let_def split: prod.splits if_splits)

lemma record_contact_state [simp]:
  "guest (record_contact sni st) = guest st" "sent_upstream (record_contact sni st) = sent_upstream st"
  "contacted (record_contact sni st) = contacted st @ [sni]"
  "discovered (record_contact sni st) = discovered st @ [to_ascii_lowercase sni]"
  by (simp_all add: record_contact_def log_event_def Let_def)

lemma forward_request_sent:
  assumes "forward_request wr env up allowed sni secrets request st = Some (r, st')" "sent_upstream st = []"
  shows "contacted st' = contacted st @ [sni]
    \<and> prefix (sent_upstream st') (fst (inject (parse_request env) (decode64 env) (encode64 env)
         (rewrite_request_headers (parse_request env) request) sni secrets))"
proof -
  obtain d st1 where p: "prepare_request env sni secrets request st = (d, st1)" by fastforce
  note s = prepare_request_state[OF p]
  show ?thesis
    using assms p s send_request_prefix[of "session_ops up" d]
    by (auto simp: forward_request_def Let_def split: sum.splits option.splits prod.splits)
qed

lemma thread_sent:
  assumes "tls_connection_thread wr env up reads sni secrets allowed w = Some (r, st)"
    "contacted st \<noteq> [] \<or> sent_upstream st \<noteq> []"
  shows "\<exists>request. read_request (parse_request env) reads [] = Request request
    \<and> gate (parse_request env) allowed sni request = Pass \<and> contacted st = [sni]
    \<and> prefix (sent_upstream st) (fst (inject (parse_request env) (decode64 env) (encode64 env)
         (rewrite_request_headers (parse_request env) request) sni secrets))"
proof (cases "read_request (parse_request env) reads []")
  case (Request request)
  show ?thesis
  proof (cases "gate (parse_request env) allowed sni request")
    case Pass
    then show ?thesis
      using assms Request forward_request_sent[of wr env up allowed sni secrets request _ r st]
      by (auto simp: tls_connection_thread_def Let_def)
  qed (use assms Request in \<open>auto simp: tls_connection_thread_def Let_def split: sum.splits\<close>)
qed (use assms in \<open>auto simp: tls_connection_thread_def Let_def\<close>)

subsection \<open>The response\<close>

lemma guest_writer: "writer wr seen \<Longrightarrow> writer (guest_write wr) seen"
  by (auto simp: writer_def guest_write_def map_err_def split: sum.splits)

lemma write_scrubbed_chunks_snoc:
  "write_scrubbed_chunks wr w cs h bs m ov = Inr (w1, ov1) \<Longrightarrow>
   write_scrubbed_chunk wr w1 c h bs m ov1 = Inr (w2, ov2) \<Longrightarrow>
   write_scrubbed_chunks wr w (cs @ [c]) h bs m ov = Inr (w2, ov2)"
  by (induction cs arbitrary: w ov) (auto simp: res_inv)

definition head_ok :: "'w guest_writer \<Rightarrow> (bytes \<Rightarrow> http_response parsed) \<Rightarrow> string \<Rightarrow> secret_binding list \<Rightarrow> 'w \<Rightarrow> 'w \<Rightarrow> bool" where
  "head_ok wr pp sni secrets w w1 \<longleftrightarrow>
     (\<exists>headers. guest_write wr w (rewrite_connection_close pp (fst (scrub headers sni secrets))) = Inr w1)"

definition relayed :: "'w guest_writer \<Rightarrow> (bytes \<Rightarrow> http_response parsed) \<Rightarrow> string \<Rightarrow> secret_binding list \<Rightarrow> 'w \<Rightarrow> 'w relay_state \<Rightarrow> bool" where
  "relayed wr pp sni secrets w st \<longleftrightarrow>
     (if headers_sent st
      then (\<exists>w1 cs. head_ok wr pp sni secrets w w1
              \<and> write_scrubbed_chunks (guest_write wr) w1 cs sni secrets (max_secret_len secrets) [] = Inr (out st, overlap st))
      else out st = w \<and> overlap st = [])"

lemma relayed_update [simp]:
  "relayed wr pp sni secrets w (st\<lparr>total_bytes := n\<rparr>) = relayed wr pp sni secrets w st"
  "relayed wr pp sni secrets w (st\<lparr>header_buf := b\<rparr>) = relayed wr pp sni secrets w st"
  by (simp_all add: relayed_def)

lemma relayed_chunk:
  "relayed wr pp sni secrets w st \<Longrightarrow> headers_sent st \<Longrightarrow> relay_chunk wr sni secrets c st = Inr st' \<Longrightarrow>
   relayed wr pp sni secrets w st' \<and> headers_sent st'"
  using write_scrubbed_chunks_snoc[of "guest_write wr"]
  by (fastforce simp: relayed_def relay_chunk_def res_inv)

lemma relayed_head:
  assumes "\<not> headers_sent st" "relayed wr pp sni secrets w st" "relay_head wr pp sni secrets n st = Inr st'"
  shows "relayed wr pp sni secrets w st'"
proof -
  obtain s k where sc: "scrub (take n (header_buf st)) sni secrets = (s, k)" by fastforce
  obtain w1 where w1: "guest_write wr w (rewrite_connection_close pp s) = Inr w1"
    using assms sc by (auto simp: relay_head_def relayed_def Let_def res_inv)
  define st1 where "st1 = st\<lparr>out := w1, headers_sent := True,
     relay_events := relay_events st @ header_events pp sni (take n (header_buf st)) k\<rparr>"
  have "head_ok wr pp sni secrets w w1" using w1 sc by (auto simp: head_ok_def intro!: exI[of _ "take n (header_buf st)"])
  then have R: "relayed wr pp sni secrets w st1"
    using assms(1,2) by (auto simp: relayed_def st1_def intro!: exI[of _ w1] exI[of _ "[]"])
  obtain st2 where st2: "(if drop n (header_buf st) \<noteq> [] then relay_chunk wr sni secrets (drop n (header_buf st)) st1 else Inr st1) = Inr st2"
      "st' = st2\<lparr>header_buf := []\<rparr>"
    using assms sc w1 by (auto simp: relay_head_def relayed_def Let_def res_inv st1_def split: if_splits)
  then have "relayed wr pp sni secrets w st2"
    using relayed_chunk[OF R] R by (cases "drop n (header_buf st) = []") (simp_all add: st1_def)
  then show ?thesis unfolding st2(2) by (simp only: relayed_update)
qed

lemma relayed_data:
  assumes R: "relayed wr pp sni secrets w st" and r: "relay_data wr pp sni secrets c st = Inr st'"
  shows "relayed wr pp sni secrets w st'"
proof -
  define st1 where "st1 = st\<lparr>total_bytes := total_bytes st + length c\<rparr>"
  have R1: "relayed wr pp sni secrets w st1" using R by (simp add: st1_def)
  show ?thesis
  proof (cases "headers_sent st")
    case True
    then have "relay_chunk wr sni secrets c st1 = Inr st'" "headers_sent st1"
      using r by (auto simp: relay_data_def Let_def st1_def split: if_splits)
    then show ?thesis using relayed_chunk[OF R1] by blast
  next
    case False
    define st2 where "st2 = st1\<lparr>header_buf := header_buf st1 @ c\<rparr>"
    have R2: "relayed wr pp sni secrets w st2" "\<not> headers_sent st2" using R1 False by (simp_all add: st2_def st1_def)
    have "relay_head wr pp sni secrets n st2 = Inr st'" if "find_header_end (header_buf st2) = Some n" for n
      using r False that by (auto simp: relay_data_def Let_def st1_def st2_def split: if_splits)
    moreover have "st' = st2" if "find_header_end (header_buf st2) = None"
      using r False that by (auto simp: relay_data_def Let_def st1_def st2_def split: if_splits)
    ultimately show ?thesis
      using relayed_head[OF R2(2,1)] R2(1) by (cases "find_header_end (header_buf st2)") auto
  qed
qed

lemma relayed_plaintext:
  "relayed wr pp sni secrets w st \<Longrightarrow> relay_plaintext wr pp sni secrets cs st = Inr st' \<Longrightarrow>
   relayed wr pp sni secrets w st'"
  by (induction cs arbitrary: st) (auto simp: res_inv split: if_splits dest: relayed_data)

lemma relayed_drain:
  "relayed wr pp sni secrets w st \<Longrightarrow> drain_plaintext wr sni secrets cs st = Inr st' \<Longrightarrow>
   relayed wr pp sni secrets w st'"
proof (induction cs arbitrary: st)
  case (Cons c cs)
  show ?case
  proof (cases "c = []")
    case False
    then obtain st1 where st1: "(if headers_sent st then relay_chunk wr sni secrets c st
        else Inr (st\<lparr>header_buf := header_buf st @ c\<rparr>)) = Inr st1" "drain_plaintext wr sni secrets cs st1 = Inr st'"
      using Cons.prems(2) by (auto simp: res_inv)
    have "relayed wr pp sni secrets w st1"
      using st1(1) Cons.prems(1) relayed_chunk[OF Cons.prems(1)] by (auto split: if_splits)
    then show ?thesis using Cons.IH st1(2) by blast
  qed (use Cons in simp)
qed simp

definition relay_done :: "'w guest_writer \<Rightarrow> (bytes \<Rightarrow> http_response parsed) \<Rightarrow> string \<Rightarrow> secret_binding list \<Rightarrow> 'w \<Rightarrow> 'w relay_state \<Rightarrow> bool" where
  "relay_done wr pp sni secrets w st \<longleftrightarrow>
     relayed wr pp sni secrets w st \<or> head_ok wr pp sni secrets w (out st) \<and> overlap st = []"

lemma relayed_closed:
  assumes "relayed wr pp sni secrets w st" "relay_closed wr pp sni secrets cs st = Inr st'"
  shows "relay_done wr pp sni secrets w st'"
proof -
  obtain st1 where st1: "drain_plaintext wr sni secrets cs st = Inr st1"
    using assms(2) by (auto simp: relay_closed_def res_inv)
  then have R: "relayed wr pp sni secrets w st1" by (rule relayed_drain[OF assms(1)])
  show ?thesis
  proof (cases "\<not> headers_sent st1 \<and> header_buf st1 \<noteq> []")
    case True
    then obtain w1 where "guest_write wr (out st1) (rewrite_connection_close pp (fst (scrub (header_buf st1) sni secrets))) = Inr w1"
        "st' = st1\<lparr>out := w1\<rparr>"
      using assms(2) st1 by (auto simp: relay_closed_def res_inv)
    then show ?thesis using R True by (auto simp: relay_done_def relayed_def head_ok_def)
  next
    case False
    then show ?thesis using assms(2) st1 R by (auto simp: relay_closed_def relay_done_def res_inv split: if_splits)
  qed
qed

lemma relayed_rounds:
  "relayed wr pp sni secrets w st \<Longrightarrow> relay_rounds wr pp sni secrets rs st = Inr st' \<Longrightarrow>
   relay_done wr pp sni secrets w st'"
proof (induction rs arbitrary: st)
  case (Cons r rs)
  show ?case
  proof (cases "raw r")
    case Raw_data
    then obtain st1 where st1: "relay_plaintext wr pp sni secrets (plaintext r) st = Inr st1"
        "(if peer_has_closed r then relay_closed wr pp sni secrets (remaining_plaintext r) st1
          else relay_rounds wr pp sni secrets rs st1) = Inr st'"
      using Cons.prems(2) by (auto simp: res_inv split: if_splits)
    have "relayed wr pp sni secrets w st1" by (rule relayed_plaintext[OF Cons.prems(1) st1(1)])
    then show ?thesis using st1(2) relayed_closed Cons.IH by (auto split: if_splits)
  qed (use Cons.prems in \<open>auto simp: relay_done_def\<close>)
qed (simp add: relay_done_def)

text \<open>What the guest sees of a relayed response: nothing, or a scrubbed and rewritten head followed
  by a body that went through the streaming scrubber.\<close>

lemma head_ok_seen:
  assumes "writer wr seen" "head_ok wr pp sni secrets w w1"
  shows "\<exists>headers. seen w1 = seen w @ rewrite_connection_close pp (fst (scrub headers sni secrets))"
  using assms(2) writer.seen_write[OF guest_writer[OF assms(1)]] by (fastforce simp: head_ok_def)

lemma relay_done_body:
  assumes "relay_done wr pp sni secrets w st" "flush_overlap (guest_write wr) (out st) (overlap st) = Inr w'"
  shows "\<exists>w1 cs. (w1 = w \<or> head_ok wr pp sni secrets w w1) \<and> scrub_body (guest_write wr) w1 cs sni secrets = Inr w'"
proof -
  consider "headers_sent st" "relayed wr pp sni secrets w st"
    | "\<not> headers_sent st" "relayed wr pp sni secrets w st"
    | "head_ok wr pp sni secrets w (out st)" "overlap st = []"
    using assms(1) unfolding relay_done_def by blast
  then show ?thesis
  proof cases
    case 1
    then obtain w1 cs where "head_ok wr pp sni secrets w w1"
        "write_scrubbed_chunks (guest_write wr) w1 cs sni secrets (max_secret_len secrets) [] = Inr (out st, overlap st)"
      by (auto simp: relayed_def)
    then have "head_ok wr pp sni secrets w w1" "scrub_body (guest_write wr) w1 cs sni secrets = Inr w'"
      using assms(2) by (simp_all add: scrub_body_def)
    then show ?thesis by blast
  next
    case 2
    then have "scrub_body (guest_write wr) w [] sni secrets = Inr w'"
      using assms(2) by (simp add: scrub_body_def relayed_def)
    then show ?thesis by blast
  next
    case 3
    then have "scrub_body (guest_write wr) (out st) [] sni secrets = Inr w'"
      using assms(2) by (simp add: scrub_body_def)
    then show ?thesis using 3(1) by blast
  qed
qed

lemma relay_response_seen:
  assumes W: "writer wr seen" and r: "relay_response wr pp sni secrets rounds w = Inr (w', evs)"
    and s: "fenced_for sni secrets" "b \<in> set secrets" "bound_to sni b" "real_value b \<noteq> []"
      "length (real_value b) \<le> MAX_SCRUB_SECRET_LEN"
  shows "\<exists>hd body. seen w' = seen w @ hd @ body \<and> \<not> sublist (real_value b) body
    \<and> (hd = [] \<or> (\<exists>headers. hd = rewrite_connection_close pp (fst (scrub headers sni secrets))
                     \<and> \<not> sublist (real_value b) (fst (scrub headers sni secrets))))"
proof -
  obtain st where st: "relay_rounds wr pp sni secrets rounds
      \<lparr>out = w, header_buf = [], headers_sent = False, total_bytes = 0, overlap = [], relay_events = []\<rparr> = Inr st"
      "flush_overlap (guest_write wr) (out st) (overlap st) = Inr w'"
    using r by (auto simp: relay_response_def res_inv)
  have "relay_done wr pp sni secrets w st"
    by (rule relayed_rounds[OF _ st(1)]) (simp add: relayed_def)
  then obtain w1 cs where w1: "w1 = w \<or> head_ok wr pp sni secrets w w1"
      "scrub_body (guest_write wr) w1 cs sni secrets = Inr w'"
    using relay_done_body[OF _ st(2)] by blast
  obtain body where "seen w' = seen w1 @ body" "\<not> sublist (real_value b) body"
    using writer.seen_body_clean[OF guest_writer[OF W] w1(2) s] by blast
  moreover obtain hd where "seen w1 = seen w @ hd"
      "hd = [] \<or> (\<exists>headers. hd = rewrite_connection_close pp (fst (scrub headers sni secrets)))"
    using w1(1) head_ok_seen[OF W] by fastforce
  ultimately show ?thesis using scrub_clean[OF s(1-4)] by (intro exI[of _ hd] exI[of _ body]) auto
qed

subsection \<open>Properties\<close>

text \<open>
  C1: nothing leaves the proxy unless the request passes the gate. If the thread contacts an
  upstream host or sends a byte upstream, then the host is the SNI, the SNI is a nonempty DNS-safe
  name that the allowlist (when there is one) matches, the request is not CONNECT, carries no
  Upgrade header, no conflicting lengths and no chunked body, its Host header (if it has one) is the
  SNI up to case and port, and what is sent is a front part of the rewritten request with the
  secrets of the SNI injected.
\<close>
theorem upstream_only_through_gate:
  assumes "tls_connection_thread wr env up reads sni secrets allowed w = Some (r, st)"
    "contacted st \<noteq> [] \<or> sent_upstream st \<noteq> []"
  shows "contacted st = [sni] \<and> sni \<noteq> [] \<and> valid_sni sni \<and> host_allowed allowed sni
    \<and> (\<exists>request. read_request (parse_request env) reads [] = Request request
         \<and> \<not> request_is_connect (parse_request env) request
         \<and> \<not> request_has_upgrade (parse_request env) request
         \<and> \<not> has_duplicate_content_length (parse_request env) request
         \<and> \<not> request_has_chunked_te (parse_request env) request
         \<and> fronting_check (parse_request env) sni request
         \<and> prefix (sent_upstream st) (fst (inject (parse_request env) (decode64 env) (encode64 env)
              (rewrite_request_headers (parse_request env) request) sni secrets)))"
  using thread_sent[OF assms] by (auto simp: gate_Pass)

definition demo_env :: http_env where
  "demo_env = \<lparr>parse_request = simple_request, parse_response = (\<lambda>_. Parse_error),
     decode64 = (\<lambda>_. None), encode64 = hex_encode\<rparr>"

definition demo_upstream :: "(unit, unit) upstream_env" where
  "demo_upstream = \<lparr>resolve_host = (\<lambda>_ _. Inr [V4 (93, 184, 216, 34) 443]), dial = (\<lambda>_. Inl (Connect_failed ''refused'')),
     client_session = (\<lambda>_. Inr (\<lambda>_. ())),
     session_ops = \<lparr>is_handshaking = (\<lambda>_. False), wants_write = (\<lambda>_. False), wants_read = (\<lambda>_. False),
       write_tls = (\<lambda>_. Inr ()), read_tls = (\<lambda>_. Inr ()), process_packets = (\<lambda>_. Inr ()), write_plain = (\<lambda>_ _. Inr ())\<rparr>,
     response_rounds = (\<lambda>_. [])\<rparr>"

definition demo_writer :: "bytes \<Rightarrow> bytes \<Rightarrow> chan_error + bytes" where
  "demo_writer w b = Inr (w @ b)"

definition demo_request :: bytes where
  "demo_request = head_text (request_line ''GET'' ''/'' 1) [''Host: a.test:443'']"

theorem upstream_only_through_gate_witness:
  "valid_sni ''a.test'' \<and> host_allowed (Some [''*.test'']) ''a.test'' \<and> fronting_check simple_request ''a.test'' demo_request"
proof -
  let ?r = "tls_connection_thread demo_writer demo_env demo_upstream [Inr demo_request] ''a.test'' [demo_binding] (Some [''*.test'']) []"
  have "case ?r of Some (r, st) \<Rightarrow> contacted st = [''a.test''] | None \<Rightarrow> False" by code_simp
  then obtain r st where r: "?r = Some (r, st)" "contacted st \<noteq> [] \<or> sent_upstream st \<noteq> []"
    by (auto split: option.splits)
  have "read_request (parse_request demo_env) [Inr demo_request] [] = Request demo_request" by code_simp
  with upstream_only_through_gate[OF r] show ?thesis by (auto simp: demo_env_def)
qed

text \<open>
  C37: a host outside the allowlist gets nothing. The guest reads the 403 page (or nothing when the
  write fails), the rejection is logged, no host is contacted and no byte is sent, whatever the
  request is; and the request is not injected, so no secret is involved.
\<close>
theorem disallowed_host_blocked:
  assumes "read_request (parse_request env) reads [] = Request request" "sni \<noteq> []" "valid_sni sni"
    "\<forall>p\<in>set hosts. \<not> host_matches p sni"
  shows "\<exists>st. tls_connection_thread wr env up reads sni secrets (Some hosts) w = Some (Inr (), st)
    \<and> contacted st = [] \<and> sent_upstream st = [] \<and> discovered st = []
    \<and> events st = [(''reject'', [(''host'', sni), (''reason'', ''not_allowed'')])]
    \<and> (guest st = w \<or> wr w (forbidden_response sni) = Inr (guest st))"
  using assms
  by (auto simp: tls_connection_thread_def gate_def host_allowed_def list_ex_iff Let_def split: sum.splits)

theorem disallowed_host_blocked_witness:
  "\<exists>st. tls_connection_thread demo_writer demo_env demo_upstream [Inr demo_request] ''evil.test'' [demo_binding]
       (Some [''api.test'', ''*.good.test'']) [] = Some (Inr (), st)
    \<and> contacted st = [] \<and> sent_upstream st = [] \<and> discovered st = []
    \<and> events st = [(''reject'', [(''host'', ''evil.test''), (''reason'', ''not_allowed'')])]
    \<and> (guest st = [] \<or> demo_writer [] (forbidden_response ''evil.test'') = Inr (guest st))"
  by (rule disallowed_host_blocked[where request = demo_request]) code_simp+




end
