(* ===== verification/Links.thy ===== *)
theory Links
  imports Dirs
begin

text \<open>
  Symbolic links. The other theories name files by the path the kernel ends at; where the code writes
  into a root file system that a guest has written before, it matters which links lie on the way.
  A place is a list of path components from the root; \<open>links\<close> maps a place to the text of the
  link there. Resolution follows at most 40 links, as Linux does.
\<close>

type_synonym link_map = "string list \<Rightarrow> path option"

definition MAX_LINKS :: nat where
  "MAX_LINKS = 40"

function walk :: "link_map \<Rightarrow> nat \<Rightarrow> string list \<Rightarrow> string list \<Rightarrow> string list option" where
  "walk links fuel at [] = Some at"
| "walk links fuel at (c # cs) =
     (if c = ''..'' then walk links fuel (butlast at) cs
      else (case links (at @ [c]) of
          None \<Rightarrow> walk links fuel (at @ [c]) cs
        | Some target \<Rightarrow>
            (case fuel of
               0 \<Rightarrow> None
             | Suc n \<Rightarrow> walk links n (if is_absolute target then [] else at) (components target @ cs))))"
  by pat_completeness auto
termination by (relation "measures [\<lambda>(links, fuel, at, cs). fuel, \<lambda>(links, fuel, at, cs). length cs]") auto

definition show_place :: "string list \<Rightarrow> path" where
  "show_place cs = concat (map (\<lambda>c. CHR ''/'' # c) cs)"

text \<open>Where an operation on a path ends, from the working directory when the path is relative.\<close>

definition place_of :: "host \<Rightarrow> path \<Rightarrow> string list" where
  "place_of h p =
     (if is_absolute p then components p
      else (case cwd h of Some d \<Rightarrow> components d | None \<Rightarrow> []) @ components p)"

definition final_place :: "link_map \<Rightarrow> host \<Rightarrow> path \<Rightarrow> string list option" where
  "final_place links h p = walk links MAX_LINKS [] (place_of h p)"

text \<open>\<^verbatim>\<open>symlink_metadata\<close> follows the links of the directory, not the last one.\<close>

definition link_place :: "link_map \<Rightarrow> host \<Rightarrow> path \<Rightarrow> string list option" where
  "link_place links h p =
     (case place_of h p of
        [] \<Rightarrow> None
      | cs \<Rightarrow> Option.bind (walk links MAX_LINKS [] (butlast cs)) (\<lambda>d.
                if links (d @ [last cs]) \<noteq> None then Some (d @ [last cs]) else None))"

text \<open>The file system with its links. An operation says whether it succeeded and returns what it left,
  also when it failed half-way; \<open>then_do\<close> is Rust's \<^verbatim>\<open>?\<close> between two of them.\<close>

type_synonym linked_host = "link_map \<times> host"

definition then_do :: "('s \<Rightarrow> bool \<times> 's) \<Rightarrow> ('s \<Rightarrow> bool \<times> 's) \<Rightarrow> 's \<Rightarrow> bool \<times> 's" where
  "then_do f g s = (case f s of (ok, s) \<Rightarrow> if ok then g s else (False, s))"

definition unlink_link :: "string list \<Rightarrow> linked_host \<Rightarrow> bool \<times> linked_host" where
  "unlink_link place lh =
     (case lh of (links, h) \<Rightarrow>
        if writable h (show_place place) then (True, (links(place := None), h)) else (False, (links, h)))"

definition write_through :: "path \<Rightarrow> bytes \<Rightarrow> linked_host \<Rightarrow> bool \<times> linked_host" where
  "write_through p c lh =
     (case lh of (links, h) \<Rightarrow>
        (case Option.bind (final_place links h p) (\<lambda>q. write_file h (show_place q) c) of
           Some h \<Rightarrow> (True, (links, h))
         | None \<Rightarrow> (False, (links, h))))"

definition is_dir_through :: "path \<Rightarrow> linked_host \<Rightarrow> bool" where
  "is_dir_through p lh =
     (case lh of (links, h) \<Rightarrow>
        (case final_place links h p of Some q \<Rightarrow> q = [] \<or> entry h (show_place q) = Some Directory | None \<Rightarrow> False))"

text \<open>\<^verbatim>\<open>create_dir_all\<close> one component after the other: an existing directory is entered, a missing one is
  made unless a dangling link is in its place.\<close>

fun make_dirs :: "link_map \<Rightarrow> string list \<Rightarrow> string list \<Rightarrow> host \<Rightarrow> bool \<times> host" where
  "make_dirs links pre [] h = (True, h)"
| "make_dirs links pre (c # cs) h =
     (case walk links MAX_LINKS [] (pre @ [c]) of
        None \<Rightarrow> (False, h)
      | Some q \<Rightarrow>
          if q = [] then make_dirs links (pre @ [c]) cs h
          else (case entry h (show_place q) of
              Some Directory \<Rightarrow> make_dirs links (pre @ [c]) cs h
            | Some (Regular m r content) \<Rightarrow> (False, h)
            | None \<Rightarrow>
                (case walk links MAX_LINKS [] pre of
                   None \<Rightarrow> (False, h)
                 | Some d \<Rightarrow>
                     if links (d @ [c]) \<noteq> None \<or> \<not> writable h (show_place q) then (False, h)
                     else make_dirs links (pre @ [c]) cs (h\<lparr>entry := (entry h)(show_place q \<mapsto> Directory)\<rparr>))))"

definition create_dirs_through :: "path \<Rightarrow> linked_host \<Rightarrow> bool \<times> linked_host" where
  "create_dirs_through p lh =
     (case lh of (links, h) \<Rightarrow> (case make_dirs links [] (place_of h p) h of (ok, h) \<Rightarrow> (ok, (links, h))))"

subsection \<open>Without links\<close>

text \<open>A place whose components meet no link is where it says.\<close>

definition plain :: "link_map \<Rightarrow> string list \<Rightarrow> bool" where
  "plain links cs \<longleftrightarrow> ''..'' \<notin> set cs \<and> (\<forall>p. prefix p cs \<longrightarrow> links p = None)"

lemma walk_plain:
  "''..'' \<notin> set cs \<Longrightarrow> (\<And>p. prefix p cs \<Longrightarrow> p \<noteq> [] \<Longrightarrow> links (at @ p) = None) \<Longrightarrow> walk links fuel at cs = Some (at @ cs)"
proof (induction cs arbitrary: at)
  case (Cons c cs)
  have "links (at @ [c]) = None" using Cons.prems(2)[of "[c]"] by simp
  moreover have "walk links fuel (at @ [c]) cs = Some ((at @ [c]) @ cs)"
    using Cons.prems(1) Cons.prems(2)[of "c # _"] by (intro Cons.IH) auto
  ultimately show ?case using Cons.prems(1) by auto
qed simp

lemma walk_plain_root: "plain links cs \<Longrightarrow> walk links fuel [] cs = Some cs"
  using walk_plain[of cs links "[]" fuel] by (simp add: plain_def)

lemma plain_prefix: "plain links cs \<Longrightarrow> prefix p cs \<Longrightarrow> plain links p"
  by (auto simp: plain_def dest: prefix_order.trans set_mono_prefix)

lemma plain_mono: "plain links cs \<Longrightarrow> plain (links(place := None)) cs"
  by (simp add: plain_def)

lemma show_place_append: "show_place (a @ b) = show_place a @ show_place b"
  by (simp add: show_place_def)

lemma show_place_below: "below (show_place a) (show_place (a @ b))"
  by (cases b) (auto simp: show_place_append show_place_def)

text \<open>Creating directories along a plain place makes directories at the prefixes of that place and
  nowhere else.\<close>

lemma make_dirs_plain:
  "plain links (pre @ cs) \<Longrightarrow> make_dirs links pre cs h = (ok, h') \<Longrightarrow>
   env_var h' = env_var h \<and> writable h' = writable h \<and> cwd h' = cwd h
   \<and> (\<forall>q. entry h' q = entry h q \<or> entry h q = None \<and> entry h' q = Some Directory
        \<and> (\<exists>p. prefix p cs \<and> p \<noteq> [] \<and> q = show_place (pre @ p)))
   \<and> (ok \<and> cs \<noteq> [] \<longrightarrow> entry h' (show_place (pre @ cs)) = Some Directory)"
proof (induction cs arbitrary: pre h)
  case (Cons c cs)
  have p: "plain links ((pre @ [c]) @ cs)" using Cons.prems(1) by simp
  have w: "walk links MAX_LINKS [] (pre @ [c]) = Some (pre @ [c])" "walk links MAX_LINKS [] pre = Some pre"
    using plain_prefix[OF p] by (auto intro!: walk_plain_root)
  consider (fail) "h' = h" "\<not> ok"
    | (step) h1 where "make_dirs links (pre @ [c]) cs h1 = (ok, h')"
        "h1 = h \<and> entry h (show_place (pre @ [c])) = Some Directory
         \<or> h1 = h\<lparr>entry := (entry h)(show_place (pre @ [c]) \<mapsto> Directory)\<rparr> \<and> entry h (show_place (pre @ [c])) = None"
  proof (cases "entry h (show_place (pre @ [c]))")
    case None
    then show thesis using Cons.prems(2) w fail step
      by (cases "links (pre @ [c]) \<noteq> None \<or> \<not> writable h (show_place (pre @ [c]))") auto
  next
    case (Some e)
    then show thesis using Cons.prems(2) w fail step by (cases e) auto
  qed
  then show ?case
  proof cases
    case step
    have d: "entry h1 (show_place (pre @ [c])) = Some Directory" using step(2) by auto
    note ih = Cons.IH[OF p step(1)]
    have e1: "entry h1 q = entry h q \<or> entry h q = None \<and> entry h1 q = Some Directory \<and> q = show_place (pre @ [c])" for q
      using step(2) by (auto split: if_splits)
    have "entry h' q = entry h q \<or> entry h q = None \<and> entry h' q = Some Directory
          \<and> (\<exists>p. prefix p (c # cs) \<and> p \<noteq> [] \<and> q = show_place (pre @ p))" for q
    proof -
      from ih have "entry h' q = entry h1 q \<or> entry h1 q = None \<and> entry h' q = Some Directory
          \<and> (\<exists>p. prefix p cs \<and> p \<noteq> [] \<and> q = show_place ((pre @ [c]) @ p))" by blast
      then show ?thesis
      proof
        assume "entry h' q = entry h1 q"
        then show ?thesis using e1[of q] by (metis Cons_prefix_Cons Nil_prefix list.distinct(1))
      next
        assume a: "entry h1 q = None \<and> entry h' q = Some Directory \<and> (\<exists>p. prefix p cs \<and> p \<noteq> [] \<and> q = show_place ((pre @ [c]) @ p))"
        then obtain p where "prefix p cs" "q = show_place (pre @ c # p)" by auto
        then have "prefix (c # p) (c # cs) \<and> c # p \<noteq> [] \<and> q = show_place (pre @ c # p)" by simp
        then show ?thesis using a e1[of q] by metis
      qed
    qed
    moreover have "ok \<longrightarrow> entry h' (show_place (pre @ c # cs)) = Some Directory"
    proof (cases "cs = []")
      case True
      then show ?thesis using step(1) d by simp
    qed (use ih in simp)
    moreover have "env_var h' = env_var h \<and> writable h' = writable h \<and> cwd h' = cwd h" using ih step(2) by auto
    ultimately show ?thesis by blast
  qed simp
qed simp

text \<open>A relative path joined to a base is placed below it.\<close>

lemma place_of_join: "\<not> is_absolute p \<Longrightarrow> place_of h (path_join b p) = place_of h b @ components p"
proof -
  assume p: "\<not> is_absolute p"
  have "is_absolute (path_join b p) = is_absolute b"
    using p by (cases b) (auto simp: path_join_def is_absolute_def)
  then show ?thesis using components_join[OF p, of b] by (simp add: place_of_def)
qed

lemma place_of_cong: "cwd h' = cwd h \<Longrightarrow> place_of h' p = place_of h p"
  by (simp add: place_of_def)

lemma then_do_True: "then_do f g s = (True, s') \<longleftrightarrow> (\<exists>s1. f s = (True, s1) \<and> g s1 = (True, s'))"
  by (auto simp: then_do_def split: prod.splits)

end
