(* ===== verification/Rootfs.thy ===== *)
theory Rootfs
  imports Links
begin

text \<open>
  What a session writes into the root file system before the boot: the certificate of the
  authority (\<^verbatim>\<open>install_ca_cert\<close> of \<^verbatim>\<open>src/src/vm.rs\<close>), the mount points and the policy file of
  \<^verbatim>\<open>src/src/cmd/exec.rs\<close>. The root of a session is shared with the guest, so a guest of an earlier
  session may have put symbolic links there; the operations are those of \<^verbatim>\<open>Links\<close>.
\<close>

subsection \<open>The certificate\<close>

text \<open>\<^verbatim>\<open>symlink_metadata\<close>, then \<^verbatim>\<open>remove_file\<close> when it is a link.\<close>

definition remove_link :: "path \<Rightarrow> linked_host \<Rightarrow> bool \<times> linked_host" where
  "remove_link p lh = (case link_place (fst lh) (snd lh) p of None \<Rightarrow> (True, lh) | Some place \<Rightarrow> unlink_link place lh)"

definition SOURCE_DIRS :: "path list" where
  "SOURCE_DIRS = [''usr/local/share/ca-certificates'', ''etc/pki/ca-trust/source/anchors'',
     ''usr/share/pki/trust/anchors'', ''etc/ca-certificates/trust-source/anchors'']"

fun install_sources :: "path \<Rightarrow> bytes \<Rightarrow> path list \<Rightarrow> linked_host \<Rightarrow> bool \<times> linked_host" where
  "install_sources rootfs pem [] lh = (True, lh)"
| "install_sources rootfs pem (rel # rels) lh =
     (let dir = path_join rootfs rel
      in if is_dir_through dir lh
         then then_do (write_through (path_join dir ''redan-ca.crt'') pem) (install_sources rootfs pem rels) lh
         else install_sources rootfs pem rels lh)"

definition install_standalone :: "path \<Rightarrow> bytes \<Rightarrow> linked_host \<Rightarrow> bool \<times> linked_host" where
  "install_standalone rootfs pem =
     (let ssl_dir = path_join rootfs ''etc/ssl/certs'';
          pem_path = path_join ssl_dir ''redan-ca.pem''
      in then_do (remove_link ssl_dir)
        (then_do (create_dirs_through ssl_dir)
        (then_do (remove_link pem_path) (write_through pem_path pem))))"

definition install_ca_cert :: "path \<Rightarrow> bytes \<Rightarrow> linked_host \<Rightarrow> bool \<times> linked_host" where
  "install_ca_cert rootfs pem = then_do (install_standalone rootfs pem) (install_sources rootfs pem SOURCE_DIRS)"

subsection \<open>Mount points and policy\<close>

definition mount_point :: "path \<Rightarrow> string \<Rightarrow> path" where
  "mount_point rootfs guest_path = path_join rootfs (trim_start_matches (CHR ''/'') guest_path)"

text \<open>A failure to create a mount point is ignored; the directories made before it stay.\<close>

definition create_mount_point :: "path \<Rightarrow> string \<Rightarrow> linked_host \<Rightarrow> linked_host" where
  "create_mount_point rootfs guest_path lh = snd (create_dirs_through (mount_point rootfs guest_path) lh)"

definition guest_policy :: "string list option \<Rightarrow> string \<times> string list" where
  "guest_policy allowed =
     (case allowed of
        None \<Rightarrow> (''allow-all'', [])
      | Some hosts \<Rightarrow> if hosts = [] then (''deny-all'', []) else (''restrict'', hosts))"

text \<open>The rendered template, without the last newline.\<close>

definition policy_text :: "string \<times> string list \<Rightarrow> string" where
  "policy_text p =
     (case p of (mode, hosts) \<Rightarrow>
        let nl = [CHR 0x0A]
        in if mode = ''allow-all''
           then ''network: allow-all'' @ nl @ nl @ ''All outbound HTTPS connections are permitted.''
           else if mode = ''deny-all''
           then ''network: deny-all'' @ nl @ nl @ ''All outbound network connections are blocked.'' @ nl
                @ ''This environment has no internet access.''
           else ''network: restrict'' @ nl @ nl @ ''Outbound HTTPS is restricted to the following hosts:''
                @ concat (map (\<lambda>host. nl @ ''  - '' @ host) hosts)
                @ nl @ nl @ ''Connections to other hosts will be refused.'' @ nl
                @ ''Do not attempt to access hosts not on this list.'')"

definition write_guest_policy :: "path \<Rightarrow> string list option \<Rightarrow> linked_host \<Rightarrow> linked_host" where
  "write_guest_policy rootfs allowed lh =
     (let dir = path_join rootfs ''etc/redan''
      in snd (then_do (create_dirs_through dir)
                (write_through (path_join dir ''policy'') (policy_text (guest_policy allowed))) lh))"

subsection \<open>Containment\<close>

text \<open>What a step may have done: changed entries below the root only, kept every directory, removed
  links but made none.\<close>

definition contained :: "string list \<Rightarrow> linked_host \<Rightarrow> linked_host \<Rightarrow> bool" where
  "contained root lh lh' \<longleftrightarrow>
     env_var (snd lh') = env_var (snd lh) \<and> writable (snd lh') = writable (snd lh) \<and> cwd (snd lh') = cwd (snd lh)
     \<and> (\<forall>q. entry (snd lh') q = entry (snd lh) q \<or> below (show_place root) q)
     \<and> (\<forall>q. entry (snd lh) q = Some Directory \<longrightarrow> entry (snd lh') q = Some Directory)
     \<and> (\<forall>p. fst lh' p = fst lh p \<or> prefix root p \<and> fst lh' p = None)"

lemma contained_refl [simp]: "contained root lh lh"
  by (simp add: contained_def)

lemma contained_trans: "contained root a b \<Longrightarrow> contained root b c \<Longrightarrow> contained root a c"
  unfolding contained_def by (metis (no_types, lifting))

lemma contained_then:
  "then_do f g s = (ok, s') \<Longrightarrow> (\<And>ok s1. f s = (ok, s1) \<Longrightarrow> contained root s s1)
   \<Longrightarrow> (\<And>s1. f s = (True, s1) \<Longrightarrow> contained root s s1 \<Longrightarrow> g s1 = (ok, s') \<Longrightarrow> contained root s1 s')
   \<Longrightarrow> contained root s s'"
  by (auto simp: then_do_def split: prod.splits if_splits intro: contained_trans)

lemma plain_contained: "contained root lh lh' \<Longrightarrow> plain (fst lh) p \<Longrightarrow> plain (fst lh') p"
  unfolding contained_def plain_def by metis

lemma create_dirs_contained:
  assumes "plain (fst lh) (root @ cs)" "place_of (snd lh) p = root @ cs" "create_dirs_through p lh = (ok, lh')"
    "\<And>a. prefix a root \<Longrightarrow> a \<noteq> [] \<Longrightarrow> entry (snd lh) (show_place a) = Some Directory"
  shows "contained root lh lh' \<and> fst lh' = fst lh"
proof -
  obtain links h h' where lh: "lh = (links, h)" and m: "make_dirs links [] (root @ cs) h = (ok, h')" and lh': "lh' = (links, h')"
    using assms(2,3) by (auto simp: create_dirs_through_def split: prod.splits)
  from make_dirs_plain[OF _ m] assms(1) lh
  have e: "env_var h' = env_var h" "writable h' = writable h" "cwd h' = cwd h"
    and q: "\<And>q. entry h' q = entry h q \<or> entry h q = None \<and> entry h' q = Some Directory
        \<and> (\<exists>p. prefix p (root @ cs) \<and> p \<noteq> [] \<and> q = show_place p)" by auto
  have "entry h' q = entry h q \<or> below (show_place root) q" for q
  proof -
    consider "entry h' q = entry h q" | p where "entry h q = None" "prefix p (root @ cs)" "p \<noteq> []" "q = show_place p"
      using q[of q] by blast
    then show ?thesis
    proof cases
      case (2 p)
      have "\<not> prefix p root" using assms(4)[of p] 2 lh by auto
      then obtain r where "p = root @ r" using 2(2) by (metis prefix_append prefix_def)
      then show ?thesis using 2(4) show_place_below by simp
    qed simp
  qed
  moreover have "entry h' x = Some Directory" if "entry h x = Some Directory" for x using q[of x] that by auto
  ultimately show ?thesis using e lh lh' by (simp add: contained_def)
qed

lemma remove_link_contained:
  assumes "plain (fst lh) (root @ cs)" "place_of (snd lh) p = root @ cs @ [c]" "c \<noteq> ''..''" "remove_link p lh = (ok, lh')"
  shows "contained root lh lh' \<and> snd lh' = snd lh \<and> (ok \<longrightarrow> plain (fst lh') (root @ cs @ [c]))
    \<and> (\<forall>q. q \<noteq> root @ cs @ [c] \<longrightarrow> fst lh' q = fst lh q)"
proof -
  obtain links h where lh: "lh = (links, h)" by (cases lh)
  have w: "walk links MAX_LINKS [] (root @ cs) = Some (root @ cs)" using assms(1) lh by (simp add: walk_plain_root)
  have bl: "butlast (root @ cs @ [c]) = root @ cs" "last (root @ cs @ [c]) = c" by (simp_all add: butlast_append)
  have lp: "link_place links h p = (if links (root @ cs @ [c]) \<noteq> None then Some (root @ cs @ [c]) else None)"
    using assms(2) lh w bl by (cases "root @ cs @ [c]") (auto simp: link_place_def simp del: butlast.simps last.simps)
  have pl: "plain l (root @ cs @ [c])" if "\<And>q. l q = links q \<or> l q = None" "l (root @ cs @ [c]) = None" for l
  proof -
    have "l q = None" if q: "prefix q ((root @ cs) @ [c])" for q
      using q[unfolded prefix_snoc]
    proof
      assume "q = (root @ cs) @ [c]"
      then show ?thesis using \<open>l (root @ cs @ [c]) = None\<close> by simp
    next
      assume "prefix q (root @ cs)"
      then have "links q = None" using assms(1) lh by (simp add: plain_def)
      then show ?thesis using \<open>\<And>q. l q = links q \<or> l q = None\<close>[of q] by simp
    qed
    then show ?thesis using assms(1,3) lh by (simp add: plain_def)
  qed
  show ?thesis
  proof (cases "links (root @ cs @ [c])")
    case None
    then have "lh' = lh" using assms(4) lh lp by (simp add: remove_link_def)
    then show ?thesis using None pl[of links] lh by simp
  next
    case (Some t)
    then show ?thesis using assms(4) lh lp pl[of "links(root @ cs @ [c] := None)"]
      by (auto simp: remove_link_def unlink_link_def contained_def split: if_splits)
  qed
qed

text \<open>Writing at a plain place: the file is there afterwards and every other entry is as it was.\<close>

definition holds :: "bytes \<Rightarrow> host \<Rightarrow> string list \<Rightarrow> bool" where
  "holds c h place \<longleftrightarrow> (case entry h (show_place place) of Some (Regular m r x) \<Rightarrow> x = c | _ \<Rightarrow> False)"

lemma write_through_contained:
  assumes "plain (fst lh) (root @ cs)" "place_of (snd lh) p = root @ cs" "write_through p c lh = (ok, lh')"
  shows "contained root lh lh' \<and> fst lh' = fst lh \<and> (ok \<longrightarrow> holds c (snd lh') (root @ cs))
    \<and> (holds c (snd lh) q \<longrightarrow> holds c (snd lh') q)"
proof -
  obtain links h where lh: "lh = (links, h)" by (cases lh)
  have f: "final_place links h p = Some (root @ cs)" using assms(1,2) lh by (simp add: final_place_def walk_plain_root)
  show ?thesis
  proof (cases "write_file h (show_place (root @ cs)) c")
    case None
    then show ?thesis using assms(3) lh f by (simp add: write_through_def)
  next
    case (Some h')
    have lh': "lh' = (links, h') \<and> ok" using assms(3) lh f Some by (simp add: write_through_def)
    obtain m where "entry h' = (entry h)(show_place (root @ cs) \<mapsto> Regular m True c)" "env_var h' = env_var h" "writable h' = writable h"
      using write_file_Some[OF Some] by auto
    moreover have "cwd h' = cwd h" "entry h (show_place (root @ cs)) \<noteq> Some Directory"
      using Some by (auto simp: write_file_def split: if_splits)
    moreover have "below (show_place root) (show_place (root @ cs))" by (rule show_place_below)
    ultimately show ?thesis using lh lh' by (auto simp: contained_def holds_def)
  qed
qed

lemma place_of_contained: "contained root lh lh' \<Longrightarrow> place_of (snd lh') p = place_of (snd lh) p"
  by (rule place_of_cong) (simp add: contained_def)

lemma install_sources_contained:
  assumes "list_all (\<lambda>rel. \<not> is_absolute rel \<and> plain (fst lh) (root @ components rel @ [''redan-ca.crt''])) rels"
    "place_of (snd lh) rootfs = root" "install_sources rootfs pem rels lh = (ok, lh')"
  shows "contained root lh lh' \<and> fst lh' = fst lh \<and> (\<forall>q. holds pem (snd lh) q \<longrightarrow> holds pem (snd lh') q)
    \<and> (ok \<longrightarrow> (\<forall>rel\<in>set rels. entry (snd lh) (show_place (root @ components rel)) = Some Directory \<longrightarrow>
          holds pem (snd lh') (root @ components rel @ [''redan-ca.crt''])))"
  using assms
proof (induction rels arbitrary: lh)
  case (Cons rel rels)
  have rel: "\<not> is_absolute rel" "plain (fst lh) (root @ components rel @ [''redan-ca.crt''])"
    and rest: "list_all (\<lambda>rel. \<not> is_absolute rel \<and> plain (fst lh) (root @ components rel @ [''redan-ca.crt''])) rels"
    using Cons.prems(1) by simp_all
  have c: "components ''redan-ca.crt'' = [''redan-ca.crt'']" "\<not> is_absolute ''redan-ca.crt''"
    by (code_simp, simp add: is_absolute_def)
  have pd: "place_of (snd lh) (path_join rootfs rel) = root @ components rel"
    using place_of_join[OF rel(1)] Cons.prems(2) by metis
  have pf: "place_of (snd lh) (path_join (path_join rootfs rel) ''redan-ca.crt'') = root @ components rel @ [''redan-ca.crt'']"
    using place_of_join[OF c(2)] pd c(1) by (metis append_assoc)
  have d: "is_dir_through (path_join rootfs rel) lh"
    if "entry (snd lh) (show_place (root @ components rel)) = Some Directory"
  proof -
    have "walk (fst lh) MAX_LINKS [] (root @ components rel) = Some (root @ components rel)"
      using plain_prefix[OF rel(2)] by (intro walk_plain_root) simp
    then show ?thesis using that pd by (cases lh) (simp add: is_dir_through_def final_place_def)
  qed
  show ?case
  proof (cases "is_dir_through (path_join rootfs rel) lh")
    case False
    then show ?thesis using Cons.IH[OF rest Cons.prems(2)] Cons.prems(3) d by auto
  next
    case True
    obtain ok1 lh1 where w: "write_through (path_join (path_join rootfs rel) ''redan-ca.crt'') pem lh = (ok1, lh1)"
      by (cases "write_through (path_join (path_join rootfs rel) ''redan-ca.crt'') pem lh")
    note one = write_through_contained[OF rel(2) pf w]
    show ?thesis
    proof (cases ok1)
      case False
      then show ?thesis using True Cons.prems(3) w one by (simp add: then_do_def)
    next
      case ok1: True
      have i: "install_sources rootfs pem rels lh1 = (ok, lh')" using True Cons.prems(3) w ok1 by (simp add: then_do_def)
      have c1: "contained root lh lh1" "fst lh1 = fst lh" using one by simp_all
      have r1: "list_all (\<lambda>rel. \<not> is_absolute rel \<and> plain (fst lh1) (root @ components rel @ [''redan-ca.crt''])) rels"
        using rest c1(2) by simp
      have p1: "place_of (snd lh1) rootfs = root" using place_of_contained[OF c1(1)] Cons.prems(2) by simp
      show ?thesis
        using Cons.IH[OF r1 p1 i] one ok1 contained_trans[OF c1(1)] c1 unfolding contained_def[of _ lh lh1] by auto
    qed
  qed
qed simp

lemma install_standalone_contained:
  assumes root: "\<forall>a. prefix a root \<and> a \<noteq> [] \<longrightarrow> entry h (show_place a) = Some Directory" "place_of h rootfs = root"
    and plain: "plain links (root @ [''etc'', ''ssl''])"
    and run: "install_standalone rootfs pem (links, h) = (ok, e)"
  shows "contained root (links, h) e
    \<and> (\<forall>q. take 3 (drop (length root) q) \<noteq> [''etc'', ''ssl'', ''certs''] \<longrightarrow> fst e q = links q)
    \<and> (ok \<longrightarrow> plain (fst e) (root @ [''etc'', ''ssl'', ''certs'', ''redan-ca.pem''])
         \<and> holds pem (snd e) (root @ [''etc'', ''ssl'', ''certs'', ''redan-ca.pem'']))"
proof -
  let ?certs = "[''etc'', ''ssl'', ''certs'']"
  define ssl where "ssl = path_join rootfs ''etc/ssl/certs''"
  define pemp where "pemp = path_join ssl ''redan-ca.pem''"
  have c: "components ''redan-ca.pem'' = [''redan-ca.pem'']" "components ''etc/ssl/certs'' = ?certs"
    "\<not> is_absolute ''redan-ca.pem''" "\<not> is_absolute ''etc/ssl/certs''"
    by (code_simp, code_simp, simp_all add: is_absolute_def)
  have ps: "place_of h ssl = root @ [''etc'', ''ssl''] @ [''certs'']"
    using place_of_join[OF c(4), of h rootfs] root(2) c(2) by (simp add: ssl_def)
  have pp: "place_of h pemp = root @ ?certs @ [''redan-ca.pem'']"
    using place_of_join[OF c(3), of h ssl] ps c(1) by (simp add: pemp_def)
  let ?lh = "(links, h)"
  note pc = place_of_contained
  obtain ok1 a where a: "remove_link ssl ?lh = (ok1, a)" by (cases "remove_link ssl ?lh")
  obtain ok2 b where b: "create_dirs_through ssl a = (ok2, b)" by (cases "create_dirs_through ssl a")
  obtain ok3 d where d: "remove_link pemp b = (ok3, d)" by (cases "remove_link pemp b")
  obtain ok4 w where w: "write_through pemp pem d = (ok4, w)" by (cases "write_through pemp pem d")
  let ?other = "\<lambda>q. take 3 (drop (length root) q) \<noteq> ?certs"
  have oth: "?other q \<Longrightarrow> q \<noteq> root @ ?certs @ x" for q x by auto
  then have oth0: "?other q \<Longrightarrow> q \<noteq> root @ ?certs" for q using oth[of q "[]"] by simp
  have A: "contained root ?lh a \<and> snd a = h \<and> (ok1 \<longrightarrow> plain (fst a) (root @ ?certs)) \<and> (\<forall>q. ?other q \<longrightarrow> fst a q = links q)"
    using remove_link_contained[of ?lh root "[''etc'', ''ssl'']" ssl "''certs''", OF _ _ _ a] plain ps oth0 by auto
  have B: "contained root a b \<and> fst b = fst a" if ok1
    using create_dirs_contained[of a root ?certs ssl, OF _ _ b] A that ps root(1) by simp
  have D: "contained root b d \<and> snd d = snd b \<and> (ok3 \<longrightarrow> plain (fst d) (root @ ?certs @ [''redan-ca.pem'']))
      \<and> (\<forall>q. ?other q \<longrightarrow> fst d q = fst b q)" if ok1
    using remove_link_contained[of b root ?certs pemp "''redan-ca.pem''", OF _ _ _ d] A B that pp pc[of root a b pemp] oth[of _ "[''redan-ca.pem'']"] by simp
  have E: "contained root d w \<and> fst w = fst d \<and> (ok4 \<longrightarrow> holds pem (snd w) (root @ ?certs @ [''redan-ca.pem'']))" if ok1 ok3
    using write_through_contained[of d root "?certs @ [''redan-ca.pem'']" pemp, OF _ _ w] A B D that pp
      pc[of root a b pemp] pc[of root b d pemp] by simp
  have r: "(ok, e) = (if ok1 then if ok2 then if ok3 then (ok4, w) else (False, d) else (False, b) else (False, a))"
  proof -
    have "install_standalone rootfs pem = then_do (remove_link ssl) (then_do (create_dirs_through ssl)
        (then_do (remove_link pemp) (write_through pemp pem)))"
      by (simp add: install_standalone_def Let_def ssl_def pemp_def)
    then have "then_do (remove_link ssl) (then_do (create_dirs_through ssl)
        (then_do (remove_link pemp) (write_through pemp pem))) (links, h) = (ok, e)" using run by simp
    then show ?thesis unfolding then_do_def a b d w by (auto simp: b d w split: if_splits)
  qed
  have ab: "contained root ?lh b" if ok1 using A B[OF that] contained_trans by blast
  have ad: "contained root ?lh d" if ok1 using ab[OF that] D[OF that] contained_trans by blast
  have aw: "contained root ?lh w" if ok1 ok3 using ad[OF that(1)] E[OF that] contained_trans by blast
  have "contained root ?lh e" using r A ab ad aw by (simp split: if_splits)
  moreover have "ok \<longrightarrow> plain (fst e) (root @ ?certs @ [''redan-ca.pem'']) \<and> holds pem (snd e) (root @ ?certs @ [''redan-ca.pem''])"
    using r D E by (auto split: if_splits)
  moreover have "?other q \<longrightarrow> fst e q = links q" for q using r A B D E by (simp split: if_splits)
  ultimately show ?thesis by simp
qed

text \<open>
  C9: what the certificate installation writes stays in the root file system. Whenever no link lies
  on the way to the root, to its \<^verbatim>\<open>etc/ssl\<close> and to the four source files (\<^verbatim>\<open>etc/ssl/certs\<close> itself and
  the old \<^verbatim>\<open>redan-ca.pem\<close> may be links to anywhere), every entry outside the root is as it was,
  also when a step failed. After a success the certificate is at \<^verbatim>\<open>etc/ssl/certs/redan-ca.pem\<close>, which
  is no link any more, and in every source directory that existed.
\<close>
theorem install_ca_contained:
  assumes root: "\<forall>a. prefix a root \<and> a \<noteq> [] \<longrightarrow> entry h (show_place a) = Some Directory" "place_of h rootfs = root"
    and plain: "plain links (root @ [''etc'', ''ssl''])"
      "list_all (\<lambda>rel. plain links (root @ components rel @ [''redan-ca.crt''])) SOURCE_DIRS"
    and run: "install_ca_cert rootfs pem (links, h) = (ok, (links', h'))"
  shows "(\<forall>q. entry h' q \<noteq> entry h q \<longrightarrow> below (show_place root) q)
    \<and> (ok \<longrightarrow> holds pem h' (root @ [''etc'', ''ssl'', ''certs'', ''redan-ca.pem''])
         \<and> plain links' (root @ [''etc'', ''ssl'', ''certs'', ''redan-ca.pem''])
         \<and> (\<forall>rel\<in>set SOURCE_DIRS. entry h (show_place (root @ components rel)) = Some Directory \<longrightarrow>
              holds pem h' (root @ components rel @ [''redan-ca.crt''])))"
proof -
  obtain ok1 e where e: "install_standalone rootfs pem (links, h) = (ok1, e)" by (cases "install_standalone rootfs pem (links, h)")
  note s = install_standalone_contained[OF root plain(1) e]
  show ?thesis
  proof (cases ok1)
    case False
    then show ?thesis using run e s by (auto simp: install_ca_cert_def then_do_def contained_def)
  next
    case True
    have i: "install_sources rootfs pem SOURCE_DIRS e = (ok, (links', h'))"
      using run e True by (simp add: install_ca_cert_def then_do_def)
    have "list_all (\<lambda>rel. \<not> is_absolute rel) SOURCE_DIRS" by (simp add: SOURCE_DIRS_def is_absolute_def)
    then have "list_all (\<lambda>rel. \<not> is_absolute rel \<and> plain (fst e) (root @ components rel @ [''redan-ca.crt''])) SOURCE_DIRS"
      using plain(2) plain_contained[of root "(links, h)" e] s by (simp add: list_all_iff)
    moreover have "place_of (snd e) rootfs = root" using place_of_contained[of root "(links, h)" e] s root(2) by simp
    ultimately have g: "contained root e (links', h') \<and> fst (links', h') = fst e
        \<and> (\<forall>q. holds pem (snd e) q \<longrightarrow> holds pem (snd (links', h')) q)
        \<and> (ok \<longrightarrow> (\<forall>rel\<in>set SOURCE_DIRS. entry (snd e) (show_place (root @ components rel)) = Some Directory \<longrightarrow>
              holds pem (snd (links', h')) (root @ components rel @ [''redan-ca.crt''])))"
      by (rule install_sources_contained[OF _ _ i])
    have "contained root (links, h) (links', h')" using s g contained_trans by blast
    moreover have "entry (snd e) q = Some Directory" if "entry h q = Some Directory" for q
      using s that by (simp add: contained_def)
    ultimately show ?thesis using s g True by (auto simp: contained_def)
  qed
qed

subsection \<open>Planted links\<close>

lemma write_through_holds: "write_through p c lh = (ok, lh') \<Longrightarrow> holds c (snd lh) q \<Longrightarrow> holds c (snd lh') q"
proof -
  assume w: "write_through p c lh = (ok, lh')" and q: "holds c (snd lh) q"
  show ?thesis
  proof (cases "Option.bind (final_place (fst lh) (snd lh) p) (\<lambda>q. write_file (snd lh) (show_place q) c)")
    case None
    then show ?thesis using w q by (cases lh) (simp add: write_through_def)
  next
    case (Some h')
    then have lh': "lh' = (fst lh, h')" using w by (cases lh) (simp add: write_through_def)
    obtain place where "write_file (snd lh) (show_place place) c = Some h'"
      using Some by (cases "final_place (fst lh) (snd lh) p") auto
    then show ?thesis using write_file_Some lh' q by (fastforce simp: holds_def)
  qed
qed

lemma install_sources_holds:
  "install_sources rootfs pem rels lh = (ok, lh') \<Longrightarrow> holds pem (snd lh) q \<Longrightarrow> holds pem (snd lh') q"
  by (induction rels arbitrary: lh)
    (auto simp: then_do_def Let_def split: if_splits prod.splits dest: write_through_holds)

text \<open>A step that follows no other link than those of the place named.\<close>

lemma write_through_link:
  assumes "plain links d" "place_of h p = d @ [c]" "c \<noteq> ''..''" "links (d @ [c]) = Some target" "is_absolute target"
    "plain links (components target)" "write_through p content (links, h) = (True, lh')"
  shows "holds content (snd lh') (components target)"
proof -
  have "walk links (Suc n) at (cs @ [c]) = walk links n [] (components target)"
    if "''..'' \<notin> set cs" "\<And>p. prefix p cs \<Longrightarrow> p \<noteq> [] \<Longrightarrow> links (at @ p) = None" "at @ cs = d" for n at cs
    using that
  proof (induction cs arbitrary: at)
    case Nil
    then show ?case using assms(3-5) by simp
  next
    case (Cons x cs)
    have "links (at @ [x]) = None" using Cons.prems(2)[of "[x]"] by simp
    moreover have "walk links (Suc n) (at @ [x]) (cs @ [c]) = walk links n [] (components target)"
      using Cons.prems(1,3) Cons.prems(2)[of "x # _"] by (intro Cons.IH) auto
    ultimately show ?case using Cons.prems(1) by auto
  qed
  from this[of d "[]" 39] have "final_place links h p = walk links 39 [] (components target)"
    using assms(1,2) by (simp add: final_place_def MAX_LINKS_def plain_def)
  then have "final_place links h p = Some (components target)" using walk_plain_root[OF assms(6)] by simp
  then show ?thesis using assms(7) write_file_Some by (fastforce simp: write_through_def holds_def split: option.splits)
qed

lemma install_sources_link:
  assumes "install_sources rootfs pem rels (links, h) = (True, lh')" "rel \<in> set rels" "place_of h rootfs = root"
    "\<not> is_absolute rel" "plain links (root @ components rel)" "entry h (show_place (root @ components rel)) = Some Directory"
    "links (root @ components rel @ [''redan-ca.crt'']) = Some target" "is_absolute target" "plain links (components target)"
  shows "holds pem (snd lh') (components target)"
  using assms(1,2,3,6)
proof (induction rels arbitrary: h)
  case (Cons r rels)
  have wt: "\<exists>h1. write_through p pem (links, h) = (True, (links, h1)) \<and> cwd h1 = cwd h
      \<and> (\<forall>q. entry h q = Some Directory \<longrightarrow> entry h1 q = Some Directory)"
    if "write_through p pem (links, h) = (True, x)" for p x
    using that by (auto simp: write_through_def write_file_def bind_eq_Some_conv split: option.splits if_splits)
  show ?case
  proof (cases "r = rel")
    case True
    have d: "is_dir_through (path_join rootfs rel) (links, h)"
      using walk_plain_root[OF assms(5)] place_of_join[OF assms(4), of h rootfs] Cons.prems(3,4)
      by (simp add: is_dir_through_def final_place_def)
    obtain lh1 where w: "write_through (path_join (path_join rootfs rel) ''redan-ca.crt'') pem (links, h) = (True, lh1)"
      and i: "install_sources rootfs pem rels lh1 = (True, lh')"
      using Cons.prems(1) True d by (auto simp: then_do_True)
    have c: "components ''redan-ca.crt'' = [''redan-ca.crt'']" "\<not> is_absolute ''redan-ca.crt''"
      by (code_simp, simp add: is_absolute_def)
    have "place_of h (path_join (path_join rootfs rel) ''redan-ca.crt'') = (root @ components rel) @ [''redan-ca.crt'']"
      using place_of_join[OF c(2), of h "path_join rootfs rel"] place_of_join[OF assms(4), of h rootfs] c(1) Cons.prems(3) by simp
    from write_through_link[OF assms(5) this _ _ assms(8,9) w] assms(7)
    have "holds pem (snd lh1) (components target)" by simp
    then show ?thesis using install_sources_holds[OF i] by blast
  next
    case False
    have "\<exists>h1. install_sources rootfs pem rels (links, h1) = (True, lh') \<and> cwd h1 = cwd h
        \<and> (\<forall>q. entry h q = Some Directory \<longrightarrow> entry h1 q = Some Directory)"
    proof (cases "is_dir_through (path_join rootfs r) (links, h)")
      case True
      then obtain s1 where w: "write_through (path_join (path_join rootfs r) ''redan-ca.crt'') pem (links, h) = (True, s1)"
        "install_sources rootfs pem rels s1 = (True, lh')"
        using Cons.prems(1) by (simp add: Let_def then_do_True) blast
      from wt[OF w(1)] w show ?thesis by auto
    next
      case False
      then have "install_sources rootfs pem rels (links, h) = (True, lh')" using Cons.prems(1) by (simp add: Let_def)
      then show ?thesis by blast
    qed
    then obtain h1 where h1: "install_sources rootfs pem rels (links, h1) = (True, lh')" "cwd h1 = cwd h"
      "entry h1 (show_place (root @ components rel)) = Some Directory" using Cons.prems(4) by blast
    have "rel \<in> set rels" using Cons.prems(2) False by simp
    moreover have "place_of h1 rootfs = root" using place_of_cong[OF h1(2)] Cons.prems(3) by simp
    ultimately show ?thesis using Cons.IH[OF h1(1)] h1(3) by blast
  qed
qed simp

text \<open>
  A guest that has replaced the certificate in a source directory by a symbolic link decides
  which file of the host the next session overwrites. The installation checks for links at
  \<^verbatim>\<open>etc/ssl/certs\<close> only; the write to \<^verbatim>\<open>redan-ca.crt\<close> follows the link, so that after a successful
  installation the link's target, wherever it is, holds the certificate.
\<close>
lemma planted_link_escapes:
  assumes root: "\<forall>a. prefix a root \<and> a \<noteq> [] \<longrightarrow> entry h (show_place a) = Some Directory" "place_of h rootfs = root"
    and plain: "plain links (root @ [''etc'', ''ssl''])" "plain links (root @ components rel)" "plain links (components target)"
    and dir: "rel \<in> set SOURCE_DIRS" "entry h (show_place (root @ components rel)) = Some Directory"
    and planted: "links (root @ components rel @ [''redan-ca.crt'']) = Some target" "is_absolute target"
    and run: "install_ca_cert rootfs pem (links, h) = (True, (links', h'))"
  shows "holds pem h' (components target)"
proof -
  obtain e where e: "install_standalone rootfs pem (links, h) = (True, e)"
    and i: "install_sources rootfs pem SOURCE_DIRS e = (True, (links', h'))"
    using run by (auto simp: install_ca_cert_def then_do_True)
  note s = install_standalone_contained[OF root plain(1) e]
  have rel: "\<not> is_absolute rel \<and> take 3 (components rel @ [''redan-ca.crt'']) \<noteq> [''etc'', ''ssl'', ''certs'']"
  proof -
    have "list_all (\<lambda>rel. \<not> is_absolute rel \<and> take 3 (components rel @ [''redan-ca.crt'']) \<noteq> [''etc'', ''ssl'', ''certs'']) SOURCE_DIRS"
      by code_simp
    then show ?thesis using dir(1) by (simp add: list_all_iff)
  qed
  have p: "plain (fst e) (root @ components rel)" "plain (fst e) (components target)"
    using plain(2,3) plain_contained[of root "(links, h)" e] s by simp_all
  have l: "fst e (root @ components rel @ [''redan-ca.crt'']) = Some target" using s rel planted(1) by simp
  have "place_of (snd e) rootfs = root" "entry (snd e) (show_place (root @ components rel)) = Some Directory"
    using s root(2) dir(2) place_of_contained[of root "(links, h)" e] by (simp_all add: contained_def)
  from install_sources_link[OF _ dir(1) this(1) _ p(1) this(2) l planted(2) p(2)] i rel
  have "\<And>pem lh'. install_sources rootfs pem SOURCE_DIRS (fst e, snd e) = (True, lh') \<Longrightarrow> holds pem (snd lh') (components target)"
    by simp
  then show ?thesis using i by fastforce
qed

subsection \<open>An installation\<close>

lemma plain_code [code]: "plain links cs \<longleftrightarrow> \<not> list_ex (\<lambda>c. c = ''..'') cs \<and> list_all (\<lambda>p. links p = None) (prefixes cs)"
  by (auto simp: plain_def list_ex_iff list_all_iff)

definition demo_rootfs :: host where
  "demo_rootfs =
     \<lparr>env_var = (\<lambda>_. None),
      entry = (\<lambda>_. None)(''/r'' \<mapsto> Directory, ''/r/etc'' \<mapsto> Directory, ''/r/etc/ssl'' \<mapsto> Directory,
        ''/r/usr/local/share/ca-certificates'' \<mapsto> Directory),
      canonical = (\<lambda>_. None), writable = (\<lambda>_. True), cwd = None, tty = False\<rparr>"

definition demo_links :: link_map where
  "demo_links = (\<lambda>_. None)([''r'', ''etc'', ''ssl'', ''certs''] \<mapsto> ''/etc/pki/tls/certs'')"

definition planted_links :: link_map where
  "planted_links = (\<lambda>_. None)([''r'', ''usr'', ''local'', ''share'', ''ca-certificates'', ''redan-ca.crt''] \<mapsto> ''/home/u/.profile'')"

lemma demo_root_dirs: "\<forall>a. prefix a [''r''] \<and> a \<noteq> [] \<longrightarrow> entry demo_rootfs (show_place a) = Some Directory"
  by (auto simp: prefix_Cons demo_rootfs_def show_place_def)

lemma install_ca_contained_witness:
  "\<exists>links' h'. install_ca_cert ''/r'' ''PEM'' (demo_links, demo_rootfs) = (True, (links', h'))
     \<and> (\<forall>q. entry h' q \<noteq> entry demo_rootfs q \<longrightarrow> below ''/r'' q)
     \<and> holds ''PEM'' h' [''r'', ''etc'', ''ssl'', ''certs'', ''redan-ca.pem'']
     \<and> holds ''PEM'' h' [''r'', ''usr'', ''local'', ''share'', ''ca-certificates'', ''redan-ca.crt'']"
proof -
  obtain ok links' h' where r: "install_ca_cert ''/r'' ''PEM'' (demo_links, demo_rootfs) = (ok, (links', h'))"
    by (cases "install_ca_cert ''/r'' ''PEM'' (demo_links, demo_rootfs)") auto
  have "fst (install_ca_cert ''/r'' ''PEM'' (demo_links, demo_rootfs))" by code_simp
  then have ok: "ok" using r by simp
  have p: "plain demo_links ([''r''] @ [''etc'', ''ssl''])"
    "list_all (\<lambda>rel. plain demo_links ([''r''] @ components rel @ [''redan-ca.crt''])) SOURCE_DIRS"
    "place_of demo_rootfs ''/r'' = [''r'']" "show_place [''r''] = ''/r''"
    "components ''usr/local/share/ca-certificates'' = [''usr'', ''local'', ''share'', ''ca-certificates'']"
    by (code_simp, code_simp, code_simp, code_simp, code_simp)
  have d: "entry demo_rootfs (show_place ([''r''] @ components ''usr/local/share/ca-certificates'')) = Some Directory"
    unfolding p(5) by (simp add: demo_rootfs_def show_place_def)
  have "''usr/local/share/ca-certificates'' \<in> set SOURCE_DIRS" by (simp add: SOURCE_DIRS_def)
  with install_ca_contained[OF demo_root_dirs p(3,1,2) r] ok d
  have "(\<forall>q. entry h' q \<noteq> entry demo_rootfs q \<longrightarrow> below (show_place [''r'']) q)"
    "holds ''PEM'' h' ([''r''] @ [''etc'', ''ssl'', ''certs'', ''redan-ca.pem''])"
    "holds ''PEM'' h' ([''r''] @ components ''usr/local/share/ca-certificates'' @ [''redan-ca.crt''])" by blast+
  then show ?thesis using r ok unfolding p(4,5) by auto
qed

text \<open>A link planted in the source directory of Debian overwrites a file in a home directory.\<close>

lemma planted_link_example:
  "\<exists>links' h'. install_ca_cert ''/r'' ''PEM'' (planted_links, demo_rootfs) = (True, (links', h'))
     \<and> holds ''PEM'' h' [''home'', ''u'', ''.profile'']"
proof -
  obtain ok links' h' where r: "install_ca_cert ''/r'' ''PEM'' (planted_links, demo_rootfs) = (ok, (links', h'))"
    by (cases "install_ca_cert ''/r'' ''PEM'' (planted_links, demo_rootfs)") auto
  have "fst (install_ca_cert ''/r'' ''PEM'' (planted_links, demo_rootfs))" by code_simp
  then have ok: "ok" using r by simp
  let ?rel = "''usr/local/share/ca-certificates''"
  have p: "plain planted_links ([''r''] @ [''etc'', ''ssl''])" "plain planted_links ([''r''] @ components ?rel)"
    "plain planted_links (components ''/home/u/.profile'')" "place_of demo_rootfs ''/r'' = [''r'']"
    "components ?rel = [''usr'', ''local'', ''share'', ''ca-certificates'']" "components ''/home/u/.profile'' = [''home'', ''u'', ''.profile'']"
    by (code_simp, code_simp, code_simp, code_simp, code_simp, code_simp)
  have "?rel \<in> set SOURCE_DIRS" by (simp add: SOURCE_DIRS_def)
  moreover have "entry demo_rootfs (show_place ([''r''] @ components ?rel)) = Some Directory"
    unfolding p(5) by (simp add: demo_rootfs_def show_place_def)
  moreover have "planted_links ([''r''] @ components ?rel @ [''redan-ca.crt'']) = Some ''/home/u/.profile''"
    unfolding p(5) by (simp add: planted_links_def)
  ultimately have "holds ''PEM'' h' (components ''/home/u/.profile'')"
    using planted_link_escapes[OF demo_root_dirs p(4) p(1,2) p(3), of "''PEM''" links' h'] r ok
    by (simp add: is_absolute_def)
  then show ?thesis using r ok unfolding p(6) by auto
qed

end
