(* ===== verification/Exec.thy ===== *)
theory Exec
  imports Trust Secret Forward Vm TlsThread Rootfs
begin

text \<open>
  \<^verbatim>\<open>redan exec\<close>, \<^verbatim>\<open>src/src/cmd/exec.rs\<close>: the parsers of the command-line specifications, and the
  phases of \<^verbatim>\<open>run\<close> that turn them into the secrets, the allowlist, the mounts, the boot command, the
  environment of the guest and the forwards. The random source, Unicode lower-casing, Vault and the
  template engine are parameters.
\<close>

subsection \<open>Secrets\<close>

datatype spec_error = No_hosts | No_equals | Empty_part | Name_too_long | Unresolved provider_error | Bad_binding secret_error

definition redact_secret_spec :: "string \<Rightarrow> string" where
  "redact_secret_spec spec =
     (case split_once (CHR ''='') spec of
        None \<Rightarrow> ''<malformed>''
      | Some (name, rest) \<Rightarrow>
          (case rsplit_once (CHR '':'') rest of
             None \<Rightarrow> name @ ''=<redacted>''
           | Some (_, hosts) \<Rightarrow> name @ ''=<redacted>:'' @ hosts))"

record secret_env =
  se_resolve :: "string \<Rightarrow> provider_error + string"
  se_lower :: "string \<Rightarrow> string"
  se_random :: "nat \<Rightarrow> string + bytes"

definition parse_secret :: "secret_env \<Rightarrow> nat \<Rightarrow> string \<Rightarrow> spec_error + string \<times> secret_binding" where
  "parse_secret env i spec =
     bindR (ok_or (rsplit_once (CHR '':'') spec) No_hosts) (\<lambda>(name_value, hosts).
     bindR (ok_or (split_once (CHR ''='') name_value) No_equals) (\<lambda>(env_name, value_ref).
       if env_name = [] \<or> value_ref = [] \<or> hosts = [] then Inl Empty_part
       else if length env_name > 256 then Inl Name_too_long
       else bindR (map_err Unresolved (se_resolve env value_ref)) (\<lambda>real_value.
            bindR (map_err Bad_binding (new_binding (se_lower env) (se_random env i) env_name real_value
                     (map str_trim (split_on (CHR '','') hosts)))) (\<lambda>binding.
              Inr (env_name, binding)))))"

fun parse_secrets :: "secret_env \<Rightarrow> nat \<Rightarrow> string list \<Rightarrow> exit + (string \<times> secret_binding) list" where
  "parse_secrets env i [] = Inr []"
| "parse_secrets env i (spec # specs) =
     (case parse_secret env i spec of
        Inl e \<Rightarrow> Inl (Exit 1 (''invalid --secret spec '' @ redact_secret_spec spec))
      | Inr s \<Rightarrow> bindR (parse_secrets env (Suc i) specs) (\<lambda>rest. Inr (s # rest)))"

definition read_secret_file :: "host \<Rightarrow> path \<Rightarrow> exit + string list" where
  "read_secret_file h p =
     (case entry h p of
        None \<Rightarrow> Inl (Exit 1 (''error: cannot open '' @ p))
      | Some Directory \<Rightarrow> Inl (Exit 1 (''error: '' @ p @ '': not a regular file''))
      | Some (Regular mode readable content) \<Rightarrow>
          if \<not> readable then Inl (Exit 1 (''error: cannot open '' @ p))
          else if length content > 1048576 then Inl (Exit 1 (''error: '' @ p @ '': too large (max 1MB)''))
          else if \<not> utf8_valid content then Inl (Exit 1 (''error: cannot read '' @ p))
          else Inr (filter (\<lambda>line. line \<noteq> [] \<and> \<not> prefix ''#'' line) (map str_trim (str_lines content))))"

definition collect_secret_specs :: "host \<Rightarrow> string list \<Rightarrow> path option \<Rightarrow> exit + string list" where
  "collect_secret_specs h cli secret_file =
     (case secret_file of
        None \<Rightarrow> Inr cli
      | Some p \<Rightarrow> bindR (read_secret_file h p) (\<lambda>file_specs. Inr (cli @ file_specs)))"

subsection \<open>The allowlist\<close>

fun validate_allow_hosts :: "string list \<Rightarrow> exit + unit" where
  "validate_allow_hosts [] = Inr ()"
| "validate_allow_hosts (host # hosts) =
     (if host = ''*'' then validate_allow_hosts hosts
      else if str_contains host ''://'' \<or> CHR ''/'' \<in> set host \<or> CHR '':'' \<in> set host
      then Inl (Exit 1 (''error: --allow-host takes a hostname, not a URL or host:port: '' @ host))
      else validate_allow_hosts hosts)"

definition allowed_host_list :: "string list \<Rightarrow> secret_binding list \<Rightarrow> string list option" where
  "allowed_host_list specs secrets =
     (if list_ex (\<lambda>s. s = ''*'') specs then None
      else Some (add_missing (map to_ascii_lowercase specs)
                   (concat (map (\<lambda>b. map to_ascii_lowercase (allowed_hosts b)) secrets))))"

subsection \<open>Mounts\<close>

definition parse_mount :: "string \<Rightarrow> string \<times> string \<times> bool" where
  "parse_mount spec =
     (case (case strip_suffix '':ro'' spec of Some s \<Rightarrow> (s, True) | None \<Rightarrow> (spec, False)) of (base, read_only) \<Rightarrow>
        (case split_once (CHR '':'') base of
           Some (src, target) \<Rightarrow> if target \<noteq> [] then (src, target, read_only) else (base, ''/workspace'', read_only)
         | None \<Rightarrow> (base, ''/workspace'', read_only)))"

definition path_char :: "char \<Rightarrow> bool" where
  "path_char c \<longleftrightarrow> is_ascii_alphanumeric c \<or> c \<in> {CHR ''/'', CHR ''.'', CHR ''_'', CHR ''-''}"

text \<open>Characters beyond ASCII are rejected byte by byte as they are as characters.\<close>

definition validate_guest_path :: "string \<Rightarrow> string + unit" where
  "validate_guest_path p =
     (if p = [] then Inl ''guest mount path must not be empty''
      else if \<not> prefix ''/'' p then Inl ''guest mount path must be absolute''
      else if length p > 256 then Inl ''guest mount path too long''
      else if \<not> list_all path_char p then Inl ''guest mount path has invalid characters''
      else if list_ex (\<lambda>segment. segment = ''..'') (split_on (CHR ''/'') p) then Inl ''guest mount path must not contain ..''
      else Inr ())"

record mount_state =
  ms_mounts :: "(string \<times> string \<times> bool) list"
  ms_commands :: "string list"
  ms_workdir :: "string option"

definition NO_MOUNTS :: mount_state where
  "NO_MOUNTS = \<lparr>ms_mounts = [], ms_commands = [], ms_workdir = None\<rparr>"

text \<open>The checks of one mount and what it adds, with the guest path whose mount point is to be made.\<close>

definition add_mount :: "host \<Rightarrow> nat \<Rightarrow> string \<Rightarrow> mount_state \<Rightarrow> exit + mount_state \<times> string" where
  "add_mount h i spec st =
     (case parse_mount spec of (host_path, guest_path, read_only) \<Rightarrow>
        (case validate_guest_path guest_path of
           Inl msg \<Rightarrow> Inl (Exit 1 (''invalid mount '' @ spec @ '': '' @ msg))
         | Inr _ \<Rightarrow>
             if \<not> path_exists h host_path then Inl (Exit 1 (''mount source does not exist: '' @ host_path))
             else (let tag = ''fs'' @ show_nat i;
                       workdir = (if ms_workdir st = None \<and> Option.bind (cwd h) (canonical h) \<noteq> None
                                     \<and> canonical h host_path = Option.bind (cwd h) (canonical h)
                                  then Some guest_path else ms_workdir st)
                   in Inr (\<lparr>ms_mounts = ms_mounts st @ [(tag, host_path, read_only)],
                            ms_commands = ms_commands st @
                              [''mount -t virtiofs'' @ (if read_only then '' -o ro'' else []) @ '' '' @ tag @ '' '' @ guest_path],
                            ms_workdir = workdir\<rparr>, guest_path))))"

fun add_mounts_from :: "path \<Rightarrow> nat \<Rightarrow> string list \<Rightarrow> mount_state \<Rightarrow> linked_host \<Rightarrow> (exit + mount_state) \<times> linked_host" where
  "add_mounts_from rootfs i [] st lh = (Inr st, lh)"
| "add_mounts_from rootfs i (spec # specs) st lh =
     (case add_mount (snd lh) i spec st of
        Inl e \<Rightarrow> (Inl e, lh)
      | Inr (st, guest_path) \<Rightarrow>
          add_mounts_from rootfs (Suc i) specs st (create_mount_point rootfs guest_path lh))"

subsection \<open>The boot command\<close>

definition validate_username :: "string \<Rightarrow> string + unit" where
  "validate_username user =
     (if user = [] then Inl ''username must not be empty''
      else if length user > 32 then Inl ''username too long''
      else if \<not> list_all (\<lambda>c. is_ascii_alphanumeric c \<or> c = CHR ''_'' \<or> c = CHR ''-'') user
      then Inl ''username contains invalid characters''
      else Inr ())"

definition ensure_user_command :: "string \<Rightarrow> string" where
  "ensure_user_command user =
     ''id -u '' @ user @ '' >/dev/null 2>&1 || useradd -m -s /bin/sh '' @ user @ '' 2>/dev/null || ''
     @ ''adduser --disabled-password --gecos '' @ [CHR 0x27, CHR 0x27] @ '' '' @ user @ '' 2>/dev/null || ''
     @ ''adduser -D -h /home/'' @ user @ '' '' @ user @ '' 2>/dev/null''"

definition wrap_run_as :: "string \<Rightarrow> string option \<Rightarrow> string" where
  "wrap_run_as command run_as =
     (case run_as of None \<Rightarrow> command | Some user \<Rightarrow> ''runuser -u '' @ user @ '' -- '' @ command)"

definition with_workdir :: "string \<Rightarrow> string option \<Rightarrow> string" where
  "with_workdir command workdir =
     (case workdir of Some dir \<Rightarrow> if dir \<noteq> ''/'' then ''cd '' @ dir @ '' && '' @ command else command | None \<Rightarrow> command)"

record exec_config =
  ec_rootfs :: path
  ec_command :: string
  ec_interactive :: bool
  ec_timeout :: nat
  ec_secret_specs :: "string list"
  ec_allow_specs :: "string list"
  ec_forward_specs :: "string list"
  ec_mount_specs :: "string list"
  ec_guest_env :: "(string, string) btree"
  ec_discover :: bool
  ec_run_as :: "string option"
  ec_chown_dir :: "string option"
  ec_browser :: bool

text \<open>\<^verbatim>\<open>Ipv4Address::to_string\<close>.\<close>

definition show_ip :: "ipv4 \<Rightarrow> string" where
  "show_ip ip = (case ip of (a, b, c, d) \<Rightarrow> join ''.'' (map (\<lambda>x. show_nat (unat x)) [a, b, c, d]))"

definition CDP_PORT :: "16 word" where
  "CDP_PORT = 9222"

definition boot_command :: "exec_config \<Rightarrow> mount_state \<Rightarrow> string" where
  "boot_command cfg ms =
     (let mount_setup = join ''; '' (ms_commands ms);
          user_command = with_workdir (wrap_run_as (ec_command cfg) (ec_run_as cfg)) (ms_workdir ms)
      in join ''; ''
           ([net_setup_commands (show_ip GATEWAY_IP) (show_ip GUEST_IP), ca_update_commands]
            @ (if mount_setup \<noteq> [] then [mount_setup] else [])
            @ (case ec_run_as cfg of Some user \<Rightarrow> [ensure_user_command user] | None \<Rightarrow> [])
            @ (case (ec_run_as cfg, ec_chown_dir cfg) of
                 (Some _, Some dir) \<Rightarrow>
                   [''chmod 777 '' @ dir @ '' && find '' @ dir @ '' -maxdepth 1 -type f -exec chmod 666 {} +; true'']
               | _ \<Rightarrow> [])
            @ [user_command]))"

subsection \<open>The environment of the guest\<close>

definition policy_env :: "string list option \<Rightarrow> string list" where
  "policy_env allowed =
     (case allowed of
        None \<Rightarrow> [''REDAN_NETWORK=allow-all'']
      | Some hosts \<Rightarrow>
          if hosts = [] then [''REDAN_NETWORK=deny-all'', ''REDAN_ALLOWED_HOSTS='']
          else [''REDAN_NETWORK=restrict'', ''REDAN_ALLOWED_HOSTS='' @ join '','' hosts])"

definition boot_env :: "exec_config \<Rightarrow> string list option \<Rightarrow> (string \<times> string) list \<Rightarrow> string list" where
  "boot_env cfg allowed secret_env =
     [''PATH=/usr/local/sbin:/usr/local/bin:/usr/sbin:/usr/bin:/sbin:/bin'', ''TERM=xterm'',
      ''SSL_CERT_FILE=/etc/ssl/certs/redan-ca.pem'', ''NODE_EXTRA_CA_CERTS=/etc/ssl/certs/redan-ca.pem'', ''REDAN=1'']
     @ policy_env allowed
     @ map (\<lambda>(name, placeholder). name @ ''='' @ placeholder) secret_env
     @ map (\<lambda>(name, value). name @ ''='' @ value) (ec_guest_env cfg)
     @ (if ec_browser cfg
        then [''REDAN_BROWSER=1'', ''REDAN_BROWSER_HOST='' @ show_ip GATEWAY_IP,
              ''REDAN_BROWSER_CDP_PORT='' @ show_nat (unat CDP_PORT)] else [])"

subsection \<open>Before the boot\<close>

record exec_plan =
  pl_vm :: vm_config
  pl_secrets :: "secret_binding list"
  pl_allowed :: "string list option"

text \<open>The secrets and the allowlist, before anything is written.\<close>

definition exec_secrets :: "secret_env \<Rightarrow> exec_config \<Rightarrow> exit + (string \<times> secret_binding) list" where
  "exec_secrets env cfg =
     bindR (parse_secrets env 0 (ec_secret_specs cfg)) (\<lambda>parsed.
     bindR (validate_allow_hosts (ec_allow_specs cfg)) (\<lambda>_. Inr parsed))"

definition check_run_as :: "exec_config \<Rightarrow> exit + unit" where
  "check_run_as cfg =
     (case ec_run_as cfg of
        None \<Rightarrow> Inr ()
      | Some user \<Rightarrow> map_err (\<lambda>msg. Exit 1 (''invalid --run-as username: '' @ msg)) (validate_username user))"

definition exec_plan_of :: "exec_config \<Rightarrow> (string \<times> secret_binding) list \<Rightarrow> mount_state \<Rightarrow> exec_plan" where
  "exec_plan_of cfg parsed ms =
     (let secrets = map snd parsed;
          secret_env = map (\<lambda>(name, b). (name, placeholder b)) parsed;
          allowed = allowed_host_list (ec_allow_specs cfg) secrets
      in \<lparr>pl_vm = \<lparr>vm_rootfs = ec_rootfs cfg, vm_vcpus = 4, vm_ram_mib = 4096,
                    vm_command = boot_command cfg ms, vm_env = boot_env cfg allowed secret_env,
                    vm_mounts = ms_mounts ms, vm_interactive = ec_interactive cfg\<rparr>,
          pl_secrets = secrets, pl_allowed = allowed\<rparr>)"

text \<open>Mount points are made while the mounts are checked and stay when a later check fails.\<close>

definition exec_prepare :: "secret_env \<Rightarrow> exec_config \<Rightarrow> linked_host \<Rightarrow> (exit + exec_plan) \<times> linked_host" where
  "exec_prepare env cfg lh =
     (case exec_secrets env cfg of
        Inl e \<Rightarrow> (Inl e, lh)
      | Inr parsed \<Rightarrow>
          (case add_mounts_from (ec_rootfs cfg) 0 (ec_mount_specs cfg) NO_MOUNTS lh of
             (Inl e, lh) \<Rightarrow> (Inl e, lh)
           | (Inr ms, lh) \<Rightarrow>
               (case check_run_as cfg of
                  Inl e \<Rightarrow> (Inl e, lh)
                | Inr _ \<Rightarrow>
                    (let plan = exec_plan_of cfg parsed ms
                     in (Inr plan, write_guest_policy (ec_rootfs cfg) (pl_allowed plan) lh)))))"

subsection \<open>After the boot\<close>

fun parse_forwards :: "string list \<Rightarrow> forward_spec list \<Rightarrow> exit + forward_spec list" where
  "parse_forwards [] fwds = Inr fwds"
| "parse_forwards (spec # specs) fwds =
     (case parse_forward_spec spec of
        Inl e \<Rightarrow> Inl (Exit 1 (''invalid --forward spec '' @ spec))
      | Inr fwd \<Rightarrow>
          if list_ex (\<lambda>f. guest_port f = guest_port fwd) fwds
          then Inl (Exit 1 (''duplicate forward guest port: '' @ show_nat (unat (guest_port fwd))))
          else parse_forwards specs (fwds @ [fwd]))"

text \<open>A launched browser adds the forward of its debugging port.\<close>

definition browser_forward :: "forward_spec list \<Rightarrow> exit + forward_spec list" where
  "browser_forward fwds =
     (case find (\<lambda>f. guest_port f = CDP_PORT) fwds of
        Some existing \<Rightarrow>
          if host_port existing \<noteq> CDP_PORT
          then Inl (Exit 1 ''error: --browser reserves the guest port for Chrome CDP'')
          else Inr fwds
      | None \<Rightarrow> Inr (fwds @ [\<lparr>guest_port = CDP_PORT, host_port = CDP_PORT\<rparr>]))"

definition exec_forwards :: "exec_config \<Rightarrow> bool \<Rightarrow> exit + forward_spec list" where
  "exec_forwards cfg browser_ok =
     bindR (parse_forwards (ec_forward_specs cfg) []) (\<lambda>fwds.
       if \<not> ec_browser cfg then Inr fwds
       else if \<not> browser_ok then Inl (Exit 1 ''error: failed to launch browser'')
       else browser_forward fwds)"

definition discover_report :: "bool \<Rightarrow> string list \<Rightarrow> string list" where
  "discover_report enabled hosts =
     (if enabled \<and> hosts \<noteq> []
      then [[CHR 0x0A] @ ''--- discovered hosts ---'', ''The agent connected to these hosts:'' @ [CHR 0x0A]]
           @ map (\<lambda>h. ''  '' @ h) hosts @ [[CHR 0x0A] @ ''Suggested redan.toml:'' @ [CHR 0x0A], ''[network]'', ''allow = ['']
           @ map (\<lambda>h. ''    '' @ [CHR 0x22] @ h @ [CHR 0x22, CHR '','']) hosts @ ['']'']
      else [])"


subsection \<open>Specifications of the configuration file\<close>

definition host_text :: "string \<Rightarrow> bool" where
  "host_text h \<longleftrightarrow> h \<noteq> [] \<and> graphic (hd h) \<and> graphic (last h)
     \<and> CHR '','' \<notin> set h \<and> CHR '':'' \<notin> set h \<and> CHR ''*'' \<notin> set h"

definition secret_ok :: "string \<Rightarrow> secret_config \<Rightarrow> bool" where
  "secret_ok name s \<longleftrightarrow> name \<noteq> [] \<and> CHR ''='' \<notin> set name \<and> length name \<le> 256 \<and> sc_value s \<noteq> []
     \<and> sc_hosts s \<noteq> [] \<and> list_all host_text (sc_hosts s)"

lemma join_nonempty: "xs \<noteq> [] \<Longrightarrow> hd xs \<noteq> [] \<Longrightarrow> join sep xs \<noteq> []"
  by (cases xs; cases "tl xs") auto

lemma secret_hosts_text:
  assumes "secret_ok name s"
  shows "CHR '':'' \<notin> set (join '','' (sc_hosts s))" "join '','' (sc_hosts s) \<noteq> []"
    "map str_trim (split_on (CHR '','') (join '','' (sc_hosts s))) = sc_hosts s"
    "find (\<lambda>h. CHR ''*'' \<in> set h) (sc_hosts s) = None"
proof -
  have h: "host_text h" if "h \<in> set (sc_hosts s)" for h
    using assms that by (auto simp: secret_ok_def list_all_iff)
  show "CHR '':'' \<notin> set (join '','' (sc_hosts s))" using h set_join[of "'',''" "sc_hosts s"] by (fastforce simp: host_text_def)
  show "join '','' (sc_hosts s) \<noteq> []" using assms h[of "hd (sc_hosts s)"] by (intro join_nonempty) (auto simp: secret_ok_def host_text_def)
  have "split_on (CHR '','') (join '','' (sc_hosts s)) = sc_hosts s"
    using assms h by (intro split_on_join) (auto simp: secret_ok_def host_text_def)
  moreover have "map str_trim (sc_hosts s) = sc_hosts s"
    using h by (intro map_idI trim_graphic) (auto simp: host_text_def)
  ultimately show "map str_trim (split_on (CHR '','') (join '','' (sc_hosts s))) = sc_hosts s" by simp
  show "find (\<lambda>h. CHR ''*'' \<in> set h) (sc_hosts s) = None" using h by (auto simp: find_None_iff host_text_def)
qed

lemma parse_secret_spec:
  assumes ok: "secret_ok name s" and r: "se_resolve env (sc_value s) = Inr real"
    and crlf: "CHR 0x0D \<notin> set real" "CHR 0x0A \<notin> set real" and rnd: "se_random env i = Inr buf"
  shows "parse_secret env i (secret_spec name s) = Inr (name,
    \<lparr>placeholder = ''redan_ph_'' @ se_lower env name @ ''_'' @ hex_encode buf, real_value = real, allowed_hosts = sc_hosts s\<rparr>)"
proof -
  have e: "secret_spec name s = (name @ CHR ''='' # sc_value s) @ CHR '':'' # join '','' (sc_hosts s)"
    by (simp add: secret_spec_def)
  have "rsplit_once (CHR '':'') (secret_spec name s) = Some (name @ CHR ''='' # sc_value s, join '','' (sc_hosts s))"
    unfolding e by (rule rsplit_once_append[OF secret_hosts_text(1)[OF ok]])
  moreover have "split_once (CHR ''='') (name @ CHR ''='' # sc_value s) = Some (name, sc_value s)"
    using ok by (intro split_once_append) (simp add: secret_ok_def)
  moreover have "\<not> (name = [] \<or> sc_value s = [] \<or> join '','' (sc_hosts s) = [])" "\<not> length name > 256"
    using ok secret_hosts_text(2)[OF ok] by (simp_all add: secret_ok_def)
  moreover have "new_binding (se_lower env) (se_random env i) name real (sc_hosts s) =
      Inr \<lparr>placeholder = ''redan_ph_'' @ se_lower env name @ ''_'' @ hex_encode buf, real_value = real, allowed_hosts = sc_hosts s\<rparr>"
    using crlf rnd secret_hosts_text(4)[OF ok] by (simp add: new_binding_def)
  ultimately show ?thesis by (simp add: parse_secret_def r map_err_def secret_hosts_text(3)[OF ok])
qed

lemma redact_spec:
  assumes "secret_ok name s"
  shows "redact_secret_spec (secret_spec name s) = name @ ''=<redacted>:'' @ join '','' (sc_hosts s)"
proof -
  have "split_once (CHR ''='') (secret_spec name s) = Some (name, sc_value s @ CHR '':'' # join '','' (sc_hosts s))"
    using assms by (auto simp: secret_spec_def secret_ok_def intro: split_once_append)
  moreover have "rsplit_once (CHR '':'') (sc_value s @ CHR '':'' # join '','' (sc_hosts s)) = Some (sc_value s, join '','' (sc_hosts s))"
    by (rule rsplit_once_append[OF secret_hosts_text(1)[OF assms]])
  ultimately show ?thesis by (simp add: redact_secret_spec_def)
qed

lemma parse_mount_spec:
  assumes "CHR '':'' \<notin> set (mc_source m)"
    "mc_target m = None \<or> (\<exists>t. mc_target m = Some t \<and> is_absolute t \<and> CHR '':'' \<notin> set t)"
  shows "parse_mount (mount_spec m) =
    (mc_source m, case mc_target m of None \<Rightarrow> ''/workspace'' | Some t \<Rightarrow> t, mc_read_only m)"
proof -
  define base where "base = (case mc_target m of None \<Rightarrow> mc_source m | Some t \<Rightarrow> mc_source m @ '':'' @ t)"
  have b: "(case split_once (CHR '':'') base of
           Some (src, target) \<Rightarrow> if target \<noteq> [] then (src, target, ro) else (base, ''/workspace'', ro)
         | None \<Rightarrow> (base, ''/workspace'', ro)) = (mc_source m, case mc_target m of None \<Rightarrow> ''/workspace'' | Some t \<Rightarrow> t, ro)" for ro
  proof (cases "mc_target m")
    case None
    have "split_once (CHR '':'') base = None" using assms(1) None by (simp add: base_def split_once_None)
    then show ?thesis using None by (simp add: base_def)
  next
    case (Some t)
    have "split_once (CHR '':'') base = Some (mc_source m, t)"
      using assms(1) Some split_once_append[OF assms(1), of t] by (simp add: base_def)
    then show ?thesis using Some assms(2) by (auto simp: is_absolute_def)
  qed
  have colons: "strip_suffix '':ro'' base = None"
  proof -
    have False if "base = x @ '':ro''" for x
    proof (cases "mc_target m")
      case None
      then show False using that assms(1) by (simp add: base_def)
    next
      case (Some t)
      then have e: "mc_source m @ CHR '':'' # t = x @ CHR '':'' # ''ro''" using that by (simp add: base_def)
      have t: "CHR '':'' \<notin> set t" "is_absolute t" using assms(2) Some by auto
      have "CHR '':'' \<notin> set ''ro''" by simp
      from rsplit_once_append[OF t(1), of "mc_source m"] rsplit_once_append[OF this, of x]
      have "Some (mc_source m, t) = Some (x, ''ro'')" unfolding e by (rule trans[OF sym])
      then show False using t(2) by (simp add: is_absolute_def)
    qed
    then show ?thesis using strip_suffix_Some[of "'':ro''" base] by (metis option.exhaust)
  qed
  have spec: "mount_spec m = (if mc_read_only m then base @ '':ro'' else base)"
    by (simp add: mount_spec_def base_def Let_def)
  have "(case strip_suffix '':ro'' (mount_spec m) of Some s \<Rightarrow> (s, True) | None \<Rightarrow> (mount_spec m, False)) = (base, mc_read_only m)"
    using colons by (cases "mc_read_only m") (simp_all add: spec strip_suffix_Some[THEN iffD2, OF refl])
  then show ?thesis by (simp add: parse_mount_def b)
qed


subsection \<open>What the guest sees\<close>

text \<open>Two environments that differ in the secret values only.\<close>

definition same_public :: "secret_env \<Rightarrow> secret_env \<Rightarrow> bool" where
  "same_public e1 e2 \<longleftrightarrow> se_lower e1 = se_lower e2 \<and> se_random e1 = se_random e2"

definition same_binding :: "string \<times> secret_binding \<Rightarrow> string \<times> secret_binding \<Rightarrow> bool" where
  "same_binding a b \<longleftrightarrow> fst a = fst b \<and> placeholder (snd a) = placeholder (snd b)
     \<and> allowed_hosts (snd a) = allowed_hosts (snd b)"

lemma binding_fields:
  "new_binding to_lower rnd name real hosts = Inr b \<Longrightarrow>
   \<exists>buf. rnd = Inr buf \<and> placeholder b = ''redan_ph_'' @ to_lower name @ ''_'' @ hex_encode buf
     \<and> real_value b = real \<and> allowed_hosts b = hosts"
  by (auto simp: new_binding_def split: if_splits option.splits sum.splits)

lemma map_err_Inr: "map_err f r = Inr x \<longleftrightarrow> r = Inr x"
  by (cases r) (auto simp: map_err_def)

lemma parse_secret_Inr:
  assumes "parse_secret env i spec = Inr (name, b)"
  shows "\<exists>buf ref hosts. se_random env i = Inr buf \<and> spec = name @ CHR ''='' # ref @ CHR '':'' # hosts
    \<and> CHR ''='' \<notin> set name \<and> CHR '':'' \<notin> set hosts
    \<and> placeholder b = ''redan_ph_'' @ se_lower env name @ ''_'' @ hex_encode buf
    \<and> se_resolve env ref = Inr (real_value b) \<and> allowed_hosts b = map str_trim (split_on (CHR '','') hosts)"
proof -
  obtain nv hosts ref where s: "rsplit_once (CHR '':'') spec = Some (nv, hosts)" "split_once (CHR ''='') nv = Some (name, ref)"
    and r: "\<exists>real. se_resolve env ref = Inr real \<and> new_binding (se_lower env) (se_random env i) name real
              (map str_trim (split_on (CHR '','') hosts)) = Inr b"
    using assms by (auto simp: parse_secret_def bindR_Inr ok_or_Inr map_err_Inr split: if_splits)
  from r obtain real where "se_resolve env ref = Inr real" "new_binding (se_lower env) (se_random env i) name real
      (map str_trim (split_on (CHR '','') hosts)) = Inr b" by blast
  then show ?thesis using binding_fields s by (fastforce simp: rsplit_once_Some split_once_Some)
qed

lemma parse_secret_same:
  assumes "same_public e1 e2" "parse_secret e1 i spec = Inr a" "parse_secret e2 i spec = Inr b"
  shows "same_binding a b"
proof -
  obtain n1 b1 n2 b2 where ab: "a = (n1, b1)" "b = (n2, b2)" by fastforce
  obtain v1 h1 buf1 where 1: "se_random e1 i = Inr buf1" "spec = n1 @ CHR ''='' # v1 @ CHR '':'' # h1" "CHR ''='' \<notin> set n1"
      "CHR '':'' \<notin> set h1" "placeholder b1 = ''redan_ph_'' @ se_lower e1 n1 @ ''_'' @ hex_encode buf1"
      "allowed_hosts b1 = map str_trim (split_on (CHR '','') h1)"
    using parse_secret_Inr assms(2) ab by blast
  obtain v2 h2 buf2 where 2: "se_random e2 i = Inr buf2" "spec = n2 @ CHR ''='' # v2 @ CHR '':'' # h2" "CHR ''='' \<notin> set n2"
      "CHR '':'' \<notin> set h2" "placeholder b2 = ''redan_ph_'' @ se_lower e2 n2 @ ''_'' @ hex_encode buf2"
      "allowed_hosts b2 = map str_trim (split_on (CHR '','') h2)"
    using parse_secret_Inr assms(3) ab by blast
  have "Some (n1, v1 @ CHR '':'' # h1) = Some (n2, v2 @ CHR '':'' # h2)"
    using split_once_append[OF 1(3)] split_once_append[OF 2(3)] 1(2) 2(2) by metis
  then have n: "n1 = n2" and v: "v1 @ CHR '':'' # h1 = v2 @ CHR '':'' # h2" by simp_all
  have "Some (v1, h1) = Some (v2, h2)"
    using rsplit_once_append[OF 1(4)] rsplit_once_append[OF 2(4)] v by metis
  then show ?thesis using 1 2 n assms(1) ab by (simp add: same_binding_def same_public_def)
qed

lemma parse_secrets_same:
  "same_public e1 e2 \<Longrightarrow> parse_secrets e1 i specs = Inr xs \<Longrightarrow> parse_secrets e2 i specs = Inr ys \<Longrightarrow>
   list_all2 same_binding xs ys"
proof (induction specs arbitrary: i xs ys)
  case (Cons spec specs)
  then show ?case
    by (auto simp: bindR_Inr split: sum.splits intro: parse_secret_same)
qed simp

lemma same_bindings_maps:
  assumes "list_all2 same_binding xs ys"
  shows "map (\<lambda>(n, b). (n, placeholder b)) xs = map (\<lambda>(n, b). (n, placeholder b)) ys"
    "map (\<lambda>b. map to_ascii_lowercase (allowed_hosts b)) (map snd xs)
     = map (\<lambda>b. map to_ascii_lowercase (allowed_hosts b)) (map snd ys)"
  using assms by (induction rule: list_all2_induct) (auto simp: same_binding_def)

lemma exec_secrets_Inr:
  "exec_secrets env cfg = Inr parsed \<longleftrightarrow>
   parse_secrets env 0 (ec_secret_specs cfg) = Inr parsed \<and> validate_allow_hosts (ec_allow_specs cfg) = Inr ()"
  by (auto simp: exec_secrets_def bindR_Inr)

lemma exec_prepare_Inr:
  assumes "exec_prepare env cfg lh = (Inr p, lh')"
  obtains parsed ms lh1 where "exec_secrets env cfg = Inr parsed"
    "add_mounts_from (ec_rootfs cfg) 0 (ec_mount_specs cfg) NO_MOUNTS lh = (Inr ms, lh1)" "check_run_as cfg = Inr ()"
    "p = exec_plan_of cfg parsed ms" "lh' = write_guest_policy (ec_rootfs cfg) (pl_allowed p) lh1"
  using assms by (auto simp: exec_prepare_def Let_def split: sum.splits prod.splits)

lemma exec_plan_fields:
  "pl_secrets (exec_plan_of cfg parsed ms) = map snd parsed"
  "pl_allowed (exec_plan_of cfg parsed ms) = allowed_host_list (ec_allow_specs cfg) (map snd parsed)"
  by (simp_all add: exec_plan_of_def Let_def)

subsection \<open>Properties\<close>

text \<open>
  The guest never sees a secret. Whatever values the secret references resolve to, the
  configuration of the VM (root, boot command, environment, mounts), everything the preparation
  writes into the root file system (mount points, policy file) and the allowlist are the same: they
  depend on the names, the hosts and the random placeholders only.
\<close>
lemma prepare_hides_secrets:
  assumes "same_public e1 e2" "exec_prepare e1 cfg lh = (Inr p1, lh1)" "exec_prepare e2 cfg lh = (Inr p2, lh2)"
  shows "pl_vm p1 = pl_vm p2 \<and> lh1 = lh2 \<and> pl_allowed p1 = pl_allowed p2
    \<and> list_all2 (\<lambda>a b. placeholder a = placeholder b \<and> allowed_hosts a = allowed_hosts b) (pl_secrets p1) (pl_secrets p2)"
proof -
  obtain xs ms1 m1 where 1: "exec_secrets e1 cfg = Inr xs"
      "add_mounts_from (ec_rootfs cfg) 0 (ec_mount_specs cfg) NO_MOUNTS lh = (Inr ms1, m1)"
      "p1 = exec_plan_of cfg xs ms1" "lh1 = write_guest_policy (ec_rootfs cfg) (pl_allowed p1) m1"
    by (rule exec_prepare_Inr[OF assms(2)])
  obtain ys ms2 m2 where 2: "exec_secrets e2 cfg = Inr ys"
      "add_mounts_from (ec_rootfs cfg) 0 (ec_mount_specs cfg) NO_MOUNTS lh = (Inr ms2, m2)"
      "p2 = exec_plan_of cfg ys ms2" "lh2 = write_guest_policy (ec_rootfs cfg) (pl_allowed p2) m2"
    by (rule exec_prepare_Inr[OF assms(3)])
  have xy: "list_all2 same_binding xs ys"
    using 1(1) 2(1) by (intro parse_secrets_same[OF assms(1)]) (simp_all add: exec_secrets_Inr)
  have ms: "ms1 = ms2" "m1 = m2" using 1(2) 2(2) by simp_all
  have al: "pl_allowed p1 = pl_allowed p2"
    unfolding 1(3) 2(3) exec_plan_fields allowed_host_list_def same_bindings_maps(2)[OF xy] ..
  have "list_all2 (\<lambda>a b. placeholder a = placeholder b \<and> allowed_hosts a = allowed_hosts b) (map snd xs) (map snd ys)"
    using xy by (auto simp: list_all2_map1 list_all2_map2 same_binding_def elim: list_all2_mono)
  moreover have "pl_vm p1 = pl_vm p2"
    using al ms same_bindings_maps(1)[OF xy] by (simp add: 1(3) 2(3) exec_plan_of_def Let_def)
  ultimately show ?thesis using al ms by (simp add: 1(4) 2(4)) (simp add: 1(3) 2(3) exec_plan_fields)
qed

definition demo_secret_env :: "string \<Rightarrow> secret_env" where
  "demo_secret_env v = \<lparr>se_resolve = (\<lambda>_. Inr v), se_lower = to_ascii_lowercase, se_random = (\<lambda>_. Inr ''ab'')\<rparr>"

definition demo_exec :: exec_config where
  "demo_exec = \<lparr>ec_rootfs = ''/img'', ec_command = ''agent'', ec_interactive = False, ec_timeout = 0,
     ec_secret_specs = [''K=env://K:api.test''], ec_allow_specs = [], ec_forward_specs = [''3000''], ec_mount_specs = [],
     ec_guest_env = [], ec_discover = False, ec_run_as = Some ''dev'', ec_chown_dir = None, ec_browser = False\<rparr>"

lemma demo_exec_prepares:
  assumes "CHR 0x0D \<notin> set v" "CHR 0x0A \<notin> set v"
  shows "\<exists>p lh. exec_prepare (demo_secret_env v) demo_exec (\<lambda>_. None, demo_project) = (Inr p, lh)"
proof -
  have ok: "secret_ok ''K'' \<lparr>sc_value = ''env://K'', sc_hosts = [''api.test'']\<rparr>"
    by (simp add: secret_ok_def host_text_def graphic_def char_code_def)
  have "parse_secret (demo_secret_env v) 0 (secret_spec ''K'' \<lparr>sc_value = ''env://K'', sc_hosts = [''api.test'']\<rparr>) =
      Inr (''K'', \<lparr>placeholder = ''redan_ph_'' @ se_lower (demo_secret_env v) ''K'' @ ''_'' @ hex_encode ''ab'', real_value = v,
        allowed_hosts = sc_hosts \<lparr>sc_value = ''env://K'', sc_hosts = [''api.test'']\<rparr>\<rparr>)"
    using assms by (intro parse_secret_spec[OF ok]) (simp_all add: demo_secret_env_def)
  moreover have "secret_spec ''K'' \<lparr>sc_value = ''env://K'', sc_hosts = [''api.test'']\<rparr> = ''K=env://K:api.test''"
    by (simp add: secret_spec_def)
  ultimately obtain b where "parse_secret (demo_secret_env v) 0 ''K=env://K:api.test'' = Inr (''K'', b)" by metis
  moreover have "validate_username ''dev'' = Inr ()" by code_simp
  ultimately show ?thesis
    by (simp add: exec_prepare_def exec_secrets_def check_run_as_def demo_exec_def map_err_def Let_def)
qed

text \<open>
  The network is closed by default. Without a star among the allowed hosts, the allowlist given to
  the proxy is the lower-cased allow specifications and the hosts of the secrets, and nothing else:
  with neither, no name is allowed; and every host of a secret is allowed in any case.
\<close>
lemma allowlist_default_deny:
  assumes "exec_prepare env cfg lh = (Inr p, lh')"
  shows "(if ''*'' \<in> set (ec_allow_specs cfg) then pl_allowed p = None
      else (\<exists>hosts. pl_allowed p = Some hosts
        \<and> set hosts = to_ascii_lowercase ` set (ec_allow_specs cfg)
            \<union> to_ascii_lowercase ` (\<Union>b\<in>set (pl_secrets p). set (allowed_hosts b))
        \<and> (ec_allow_specs cfg = [] \<longrightarrow> pl_secrets p = [] \<longrightarrow> \<not> host_allowed (pl_allowed p) sni)))
    \<and> (b \<in> set (pl_secrets p) \<and> host \<in> set (allowed_hosts b) \<and> CHR ''*'' \<notin> set host \<longrightarrow> host_allowed (pl_allowed p) host)"
proof -
  have s: "pl_allowed p = allowed_host_list (ec_allow_specs cfg) (pl_secrets p)"
    by (rule exec_prepare_Inr[OF assms]) (simp add: exec_plan_fields)
  have star: "list_ex (\<lambda>s. s = ''*'') specs \<longleftrightarrow> ''*'' \<in> set specs" for specs by (auto simp: list_ex_iff)
  have m: "host_matches (to_ascii_lowercase host) host" if "CHR ''*'' \<notin> set host"
  proof -
    have "strip_prefix ''*.'' (to_ascii_lowercase host) = None"
    proof (cases "strip_prefix ''*.'' (to_ascii_lowercase host)")
      case (Some r)
      then obtain c cs where h: "host = c # cs" "ascii_lower_char c = CHR ''*''"
        by (cases host) (auto simp: strip_prefix_Some to_ascii_lowercase_def)
      then have "c = CHR ''*''"
        using ascii_lower_char_eq[of "CHR ''*''" c] by (simp add: ascii_defs char_code_def)
      then show ?thesis using that h by simp
    qed simp
    then show ?thesis by (simp add: host_matches_exact)
  qed
  have "host_allowed (pl_allowed p) host"
    if "b \<in> set (pl_secrets p)" "host \<in> set (allowed_hosts b)" "CHR ''*'' \<notin> set host"
    using that m[OF that(3)] by (auto simp: s allowed_host_list_def host_allowed_def list_ex_iff add_missing_set)
  moreover have "\<not> host_allowed (Some (add_missing [] [])) sni" by (simp add: host_allowed_def)
  ultimately show ?thesis
    by (auto simp: s allowed_host_list_def star add_missing_set)
qed


text \<open>
  C24: a mount target stays inside the guest root and outside the reach of the boot shell. An accepted
  guest path is absolute, consists of letters, digits and the four safe characters, and its mount
  point, joined to the root on the host, lies below the root component by component, without a
  parent segment; so neither the created directory nor the shell command can leave it.
\<close>
theorem guest_path_contained:
  assumes "validate_guest_path p = Inr ()"
  shows "is_absolute p \<and> list_all path_char p \<and> length p \<le> 256
    \<and> components (mount_point rootfs p) = components rootfs @ components p
    \<and> ''..'' \<notin> set (components p)"
proof -
  have a: "is_absolute p" "list_all path_char p" "length p \<le> 256" "''..'' \<notin> set (split_on (CHR ''/'') p)"
    using assms by (auto simp: validate_guest_path_def is_absolute_def list_ex_iff split: if_splits list.splits)
  let ?q = "trim_start_matches (CHR ''/'') p"
  have "?q = [] \<or> hd ?q \<noteq> CHR ''/''"
    using hd_dropWhile[of "\<lambda>c. c = CHR ''/''" p] by (auto simp: trim_start_matches_def)
  then have "\<not> is_absolute ?q" by (cases ?q) (auto simp: is_absolute_def)
  then have "components (mount_point rootfs p) = components rootfs @ components p"
    by (simp add: mount_point_def components_join components_trim)
  moreover have "''..'' \<notin> set (components p)" using a(4) by (simp add: components_def)
  ultimately show ?thesis using a by blast
qed

theorem guest_path_contained_witness:
  "components (mount_point ''/img/root'' ''/work/space'') = [''img'', ''root'', ''work'', ''space'']"
proof -
  have "validate_guest_path ''/work/space'' = Inr ()"
    by (simp add: validate_guest_path_def path_char_def is_ascii_alphanumeric_def ascii_defs char_code_def)
  from guest_path_contained[OF this, of "''/img/root''"] show ?thesis by (simp add: components_def)
qed

text \<open>
  The specifications of a configuration file are read back as they were written. A secret entry
  with a usable name and hosts gives a binding for exactly its name, resolved value and hosts; a
  refused one is shown without its value; and a mount entry gives its source, its target (or the
  workspace) and its read-only flag.
\<close>
lemma config_specs_roundtrip:
  assumes "secret_ok name s" "se_resolve env (sc_value s) = Inr real" "CHR 0x0D \<notin> set real" "CHR 0x0A \<notin> set real"
    "se_random env i = Inr buf"
    "CHR '':'' \<notin> set (mc_source m)" "mc_target m = None \<or> (\<exists>t. mc_target m = Some t \<and> is_absolute t \<and> CHR '':'' \<notin> set t)"
  shows "parse_secret env i (secret_spec name s) = Inr (name,
      \<lparr>placeholder = ''redan_ph_'' @ se_lower env name @ ''_'' @ hex_encode buf, real_value = real, allowed_hosts = sc_hosts s\<rparr>)
    \<and> redact_secret_spec (secret_spec name s) = name @ ''=<redacted>:'' @ join '','' (sc_hosts s)
    \<and> parse_mount (mount_spec m) =
        (mc_source m, case mc_target m of None \<Rightarrow> ''/workspace'' | Some t \<Rightarrow> t, mc_read_only m)"
  using parse_secret_spec[OF assms(1-5)] redact_spec[OF assms(1)] parse_mount_spec[OF assms(6,7)] by blast

subsection \<open>Forwards\<close>

lemma parse_forwards_ok:
  "parse_forwards specs fwds = Inr r \<Longrightarrow> distinct (map guest_port fwds) \<Longrightarrow> list_all forward_ok fwds \<Longrightarrow>
   distinct (map guest_port r) \<and> list_all forward_ok r"
proof (induction specs fwds rule: parse_forwards.induct)
  case (2 spec specs fwds)
  obtain fwd where f: "parse_forward_spec spec = Inr fwd" "\<not> list_ex (\<lambda>f. guest_port f = guest_port fwd) fwds"
      "parse_forwards specs (fwds @ [fwd]) = Inr r"
    using 2(2) by (auto split: sum.splits if_splits)
  moreover have "forward_ok fwd" using f(1) by (simp add: parse_forward_spec_Inr)
  moreover have "guest_port fwd \<notin> guest_port ` set fwds" using f(2) by (auto simp: list_ex_iff)
  ultimately show ?case using 2(1)[OF f(1,2)] 2(3,4) by simp
qed simp

lemma find_SomeD: "find P xs = Some x \<Longrightarrow> x \<in> set xs \<and> P x"
  by (auto simp: find_Some_iff)

lemma exec_forwards_ok:
  assumes "exec_forwards cfg browser_ok = Inr fwds"
  shows "distinct (map guest_port fwds) \<and> list_all forward_ok fwds
    \<and> (ec_browser cfg \<longrightarrow> \<lparr>guest_port = CDP_PORT, host_port = CDP_PORT\<rparr> \<in> set fwds)"
proof -
  obtain f where f: "parse_forwards (ec_forward_specs cfg) [] = Inr f"
      "(if \<not> ec_browser cfg then Inr f else if \<not> browser_ok then Inl (Exit 1 ''error: failed to launch browser'')
        else browser_forward f) = Inr fwds"
    using assms by (auto simp: exec_forwards_def bindR_Inr)
  have ok: "distinct (map guest_port f)" "list_all forward_ok f" using parse_forwards_ok[OF f(1)] by auto
  have cdp: "forward_ok \<lparr>guest_port = CDP_PORT, host_port = CDP_PORT\<rparr>" by (simp add: forward_ok_def CDP_PORT_def RESERVED_PORTS_def)
  show ?thesis
  proof (cases "ec_browser cfg")
    case True
    then have b: "browser_forward f = Inr fwds" using f(2) by (auto split: if_splits)
    show ?thesis
    proof (cases "find (\<lambda>f. guest_port f = CDP_PORT) f")
      case None
      then have "fwds = f @ [\<lparr>guest_port = CDP_PORT, host_port = CDP_PORT\<rparr>]" using b by (simp add: browser_forward_def)
      moreover have "\<forall>x\<in>set f. guest_port x \<noteq> CDP_PORT" using None by (auto simp: find_None_iff)
      ultimately show ?thesis using ok cdp by auto
    next
      case (Some x)
      then have "x \<in> set f" "guest_port x = CDP_PORT" "host_port x = CDP_PORT" "fwds = f"
        using b Some find_SomeD[OF Some] by (auto simp: browser_forward_def split: if_splits)
      moreover have "guest_port x = p \<Longrightarrow> host_port x = q \<Longrightarrow> x = \<lparr>guest_port = p, host_port = q\<rparr>" for p q
        by (cases x) simp
      ultimately show ?thesis using ok by blast
    qed
  qed (use f ok in simp)
qed

subsection \<open>What the trust gate misses\<close>

definition smuggling_config :: config where
  "smuggling_config = default_config\<lparr>cfg_secrets := [(''X'', \<lparr>sc_value = ''env'', sc_hosts = [''//AWS_SECRET:evil.test'']\<rparr>)]\<rparr>"

text \<open>
  C38: the trust gate looks at the values of the secrets, but the specification is cut at its last colon.
  A configuration whose secret value is the literal \<^verbatim>\<open>env\<close> and whose host entry carries the rest of an
  \<^verbatim>\<open>env://\<close> reference needs no trust, and yet the host's variable is read and bound to the host of the
  configuration's choice.
\<close>
theorem trust_gate_bypass:
  assumes "env_var h ''AWS_SECRET'' = Some v" "v \<noteq> []" "CHR 0x0D \<notin> set v" "CHR 0x0A \<notin> set v"
    "se_resolve env = resolve_secret_value vc h" "se_random env i = Inr buf"
  shows "analyze h smuggling_config root = []
    \<and> (\<exists>b. parse_secret env i (hd (secret_specs smuggling_config)) = Inr (''X'', b) \<and> real_value b = v \<and> allowed_hosts b = [''evil.test''])"
proof -
  have a: "analyze h smuggling_config root = []"
    by (simp add: smuggling_config_def analyze_def default_config_def secret_capability_def strip_prefix_def)
  have s: "hd (secret_specs smuggling_config) = secret_spec ''X'' \<lparr>sc_value = ''env://AWS_SECRET'', sc_hosts = [''evil.test'']\<rparr>"
    by (simp add: secret_specs_def secret_spec_def smuggling_config_def)
  have "secret_ok ''X'' \<lparr>sc_value = ''env://AWS_SECRET'', sc_hosts = [''evil.test'']\<rparr>"
    by (simp add: secret_ok_def host_text_def graphic_def char_code_def)
  moreover have "se_resolve env (sc_value \<lparr>sc_value = ''env://AWS_SECRET'', sc_hosts = [''evil.test'']\<rparr>) = Inr v"
    using assms(1,2) by (simp add: assms(5) resolve_secret_value_def resolve_secret_value_with_def strip_prefix_def resolve_env_with_def)
  ultimately show ?thesis using a parse_secret_spec assms(3,4,6) unfolding s by fastforce
qed

definition demo_aws_host :: host where
  "demo_aws_host = \<lparr>env_var = (\<lambda>v. if v = ''AWS_SECRET'' then Some ''s3'' else None), entry = (\<lambda>_. None),
     canonical = (\<lambda>_. None), writable = (\<lambda>_. False), cwd = None, tty = False\<rparr>"

definition no_vault :: vault_client where
  "no_vault = \<lparr>vc_get = (\<lambda>url token. Inr []), vc_parse = (\<lambda>body. None)\<rparr>"

theorem trust_gate_bypass_witness:
  "analyze demo_aws_host smuggling_config ''/w'' = []
   \<and> (\<exists>b. parse_secret ((demo_secret_env [])\<lparr>se_resolve := resolve_secret_value no_vault demo_aws_host\<rparr>) 0
            (hd (secret_specs smuggling_config)) = Inr (''X'', b)
        \<and> real_value b = ''s3'' \<and> allowed_hosts b = [''evil.test''])"
  by (rule trust_gate_bypass[where buf = "''ab''"]) (simp_all add: demo_aws_host_def demo_secret_env_def)

text \<open>Likewise a source with a colon: the gate resolves the whole source, the mount only the part
  before the colon.\<close>

lemma mount_gate_bypass:
  assumes "canonical h root = Some ''/w''" "canonical h ''/w/link:/sub'' = Some ''/w/link:/sub''"
  shows "is_within_project h root ''link:/sub'' \<and> parse_mount ''link:/sub'' = (''link'', ''/sub'', False)"
proof -
  have "path_starts_with ''/w/link:/sub'' ''/w''" by (simp add: path_starts_with_def is_absolute_def components_def)
  moreover have "strip_suffix '':ro'' ''link:/sub'' = None" by (simp add: strip_suffix_def suffix_def)
  ultimately show ?thesis
    using assms by (simp add: is_within_project_def path_join_def is_absolute_def parse_mount_def)
qed

end
