(* ===== verification/Daemon.thy ===== *)
theory Daemon
  imports Session Exec
begin

text \<open>
  Detached sessions, \<^verbatim>\<open>exec_detached\<close> and \<^verbatim>\<open>run_daemon\<close> of \<^verbatim>\<open>src/src/main.rs\<close>: the launcher
  hands the resolved configuration (with its secret specifications) to the daemon in a private
  file, and the daemon unlinks that file before it reads it. JSON, the executable's path, the spawn
  and the outcome of the write are parameters; the modes of directories are not modelled.
\<close>

record daemon_config =
  dm_rootfs :: path
  dm_command :: string
  dm_timeout_secs :: nat
  dm_secrets :: "string list"
  dm_allow_hosts :: "string list"
  dm_forwards :: "string list"
  dm_mounts :: "string list"
  dm_audit_log :: "path option"
  dm_image_name :: "string option"
  dm_env :: "(string, string) btree"
  dm_discover :: bool
  dm_session_name :: "string option"
  dm_run_as :: "string option"
  dm_chown_dir :: "string option"
  dm_browser :: bool

text \<open>A call of \<^verbatim>\<open>cmd::exec::run\<close>: the configuration and what only concerns the session's files.\<close>

record exec_call =
  xc_config :: exec_config
  xc_audit_log :: "path option"
  xc_image_name :: "string option"
  xc_session_name :: "string option"
  xc_session_id :: "string option"
  xc_log_to_file :: bool

record daemon_env =
  dv_print :: "daemon_config \<Rightarrow> string + string"
  dv_parse :: "string \<Rightarrow> string + daemon_config"
  dv_partial :: "nat option"  \<comment> \<open>\<open>Some n\<close>: the write fails after \<open>n\<close> bytes\<close>
  dv_exe :: "string + path"
  dv_clone :: "string + unit"
  dv_spawn :: "string + 32 word"
  dv_sessions :: session_env
  dv_now :: string
  dv_own_pid :: "32 word"

text \<open>\<^verbatim>\<open>create_new\<close> with a mode, then \<^verbatim>\<open>write_all\<close>.\<close>

definition create_new_file :: "32 word \<Rightarrow> nat option \<Rightarrow> path \<Rightarrow> bytes \<Rightarrow> host \<Rightarrow> bool \<times> host" where
  "create_new_file mode partial p c h =
     (if entry h p \<noteq> None \<or> \<not> writable h p then (False, h)
      else (case partial of
          None \<Rightarrow> (True, h\<lparr>entry := (entry h)(p \<mapsto> Regular mode True c)\<rparr>)
        | Some n \<Rightarrow> (False, h\<lparr>entry := (entry h)(p \<mapsto> Regular mode True (take n c))\<rparr>)))"

definition config_path :: "path \<Rightarrow> path" where
  "config_path dir = path_join dir ''daemon_config.json''"

text \<open>Up to the written configuration file.\<close>

definition write_daemon_config :: "daemon_env \<Rightarrow> daemon_config \<Rightarrow> string \<Rightarrow> host \<Rightarrow> (exit + path) \<times> host" where
  "write_daemon_config env cfg i h =
     (case session_dir h i of
        Inl e \<Rightarrow> (Inl e, h)
      | Inr dir \<Rightarrow>
          (case create_dir_all h dir of
             None \<Rightarrow> (Inl (Exit 1 ''cannot create session dir''), h)
           | Some h \<Rightarrow>
               (case dv_print env cfg of
                  Inl e \<Rightarrow> (Inl (Exit 1 (''cannot serialize daemon config: '' @ e)), h)
                | Inr config_json \<Rightarrow>
                    (case create_new_file 0x180 (dv_partial env) (config_path dir) config_json h of
                       (ok, h) \<Rightarrow> (if ok then Inr dir else Inl (Exit 1 ''cannot write daemon config''), h)))))"

definition cleanup_and_exit :: "path \<Rightarrow> string \<Rightarrow> host \<Rightarrow> (exit + 'a) \<times> host" where
  "cleanup_and_exit dir msg h =
     (Inl (Exit 1 msg), case remove_dir_all h dir of Some h \<Rightarrow> h | None \<Rightarrow> h)"

definition spawn_daemon :: "daemon_env \<Rightarrow> path \<Rightarrow> host \<Rightarrow> (exit + 32 word) \<times> host" where
  "spawn_daemon env dir h =
     (case dv_exe env of
        Inl e \<Rightarrow> cleanup_and_exit dir (''cannot find redan executable: '' @ e) h
      | Inr exe \<Rightarrow>
          (case write_file h (path_join dir ''redan.log'') [] of
             None \<Rightarrow> cleanup_and_exit dir ''cannot create log file'' h
           | Some h \<Rightarrow>
               (case dv_clone env of
                  Inl e \<Rightarrow> cleanup_and_exit dir (''cannot clone log file handle: '' @ e) h
                | Inr _ \<Rightarrow>
                    (case dv_spawn env of
                       Inl e \<Rightarrow> cleanup_and_exit dir (''cannot spawn daemon: '' @ e) h
                     | Inr pid \<Rightarrow> (Inr pid, h)))))"

definition exec_detached :: "daemon_env \<Rightarrow> daemon_config \<Rightarrow> string \<Rightarrow> host \<Rightarrow> (exit + 32 word) \<times> host" where
  "exec_detached env cfg i h =
     (case write_daemon_config env cfg i h of
        (Inl e, h) \<Rightarrow> (Inl e, h)
      | (Inr dir, h) \<Rightarrow>
          (case spawn_daemon env dir h of
             (Inl e, h) \<Rightarrow> (Inl e, h)
           | (Inr daemon_pid, h) \<Rightarrow>
               (let meta = (new_meta (dv_now env) (dv_own_pid env) i (dm_image_name cfg) (Some (dm_command cfg)))
                             \<lparr>sm_pid := Some daemon_pid, sm_name := dm_session_name cfg\<rparr>
                in case save (dv_sessions env) meta h of
                     Inl e \<Rightarrow> (Inl e, h)
                   | Inr (r, h) \<Rightarrow> (Inr daemon_pid, h))))"

definition daemon_call :: "daemon_config \<Rightarrow> string \<Rightarrow> exec_call" where
  "daemon_call cfg i =
     \<lparr>xc_config = \<lparr>ec_rootfs = dm_rootfs cfg, ec_command = dm_command cfg, ec_interactive = False,
                   ec_timeout = dm_timeout_secs cfg, ec_secret_specs = dm_secrets cfg,
                   ec_allow_specs = dm_allow_hosts cfg, ec_forward_specs = dm_forwards cfg,
                   ec_mount_specs = dm_mounts cfg, ec_guest_env = dm_env cfg, ec_discover = dm_discover cfg,
                   ec_run_as = dm_run_as cfg, ec_chown_dir = dm_chown_dir cfg, ec_browser = dm_browser cfg\<rparr>,
      xc_audit_log = dm_audit_log cfg, xc_image_name = dm_image_name cfg,
      xc_session_name = dm_session_name cfg, xc_session_id = Some i, xc_log_to_file = False\<rparr>"

text \<open>The descriptor stays open, so what is read is the content at the time of the open.\<close>

definition run_daemon :: "daemon_env \<Rightarrow> string \<Rightarrow> host \<Rightarrow> (exit + exec_call) \<times> host" where
  "run_daemon env i h =
     (if \<not> valid_session_id i then (Inl (Exit 1 (''invalid session ID: '' @ i)), h)
      else (case session_dir h i of
          Inl e \<Rightarrow> (Inl e, h)
        | Inr dir \<Rightarrow>
            (case entry h (config_path dir) of
               Some (Regular mode True content) \<Rightarrow>
                 (case remove_file h (config_path dir) of
                    None \<Rightarrow> (Inl (Exit 1 ''cannot remove daemon config''), h)
                  | Some h \<Rightarrow>
                      (if \<not> utf8_valid content then (Inl (Exit 1 ''cannot read daemon config''), h)
                       else (case dv_parse env content of
                           Inl e \<Rightarrow> (Inl (Exit 1 (''invalid daemon config: '' @ e)), h)
                         | Inr cfg \<Rightarrow> (Inr (daemon_call cfg i), h))))
             | _ \<Rightarrow> (Inl (Exit 1 ''cannot open daemon config''), h))))"

text \<open>The session a call of \<^verbatim>\<open>cmd::exec::run\<close> works in: the daemon's, which must have its metadata
  by now, or a new one.\<close>

definition start_session ::
  "daemon_env \<Rightarrow> string \<Rightarrow> exec_call \<Rightarrow> host \<Rightarrow> (exit + string \<times> session_meta) \<times> host" where
  "start_session env fresh_id call h =
     (case xc_session_id call of
        Some i \<Rightarrow>
          if \<not> valid_session_id i then (Inl (Exit 1 (''invalid session ID: '' @ i)), h)
          else (case session_dir h i of
              Inl e \<Rightarrow> (Inl e, h)
            | Inr dir \<Rightarrow>
                (case read_to_string h (path_join dir ''meta.json'') of
                   None \<Rightarrow> (Inl (Exit 1 (''cannot read session metadata '' @ path_join dir ''meta.json'')), h)
                 | Some json \<Rightarrow>
                     (case sv_parse (dv_sessions env) json of
                        None \<Rightarrow> (Inl (Exit 1 (''invalid session metadata '' @ path_join dir ''meta.json'')), h)
                      | Some m \<Rightarrow> (Inr (i, m), h))))
      | None \<Rightarrow>
          (let m = (new_meta (dv_now env) (dv_own_pid env) fresh_id (xc_image_name call)
                      (Some (ec_command (xc_config call))))\<lparr>sm_name := xc_session_name call\<rparr>
           in case save (dv_sessions env) m h of
                Inl e \<Rightarrow> (Inl e, h)
              | Inr (r, h) \<Rightarrow> (Inr (fresh_id, m), h)))"

text \<open>The audit log of a call: the one it names, else the session's.\<close>

definition audit_log_of :: "exec_call \<Rightarrow> string \<Rightarrow> host \<Rightarrow> exit + path" where
  "audit_log_of call i h =
     bindR (audit_log_path h i) (\<lambda>session_audit. Inr (case xc_audit_log call of Some p \<Rightarrow> p | None \<Rightarrow> session_audit))"

subsection \<open>The configuration file\<close>

lemma create_new_file_done:
  "create_new_file mode partial p c h = (True, h') \<Longrightarrow>
   writable h p \<and> entry h p = None \<and> h' = h\<lparr>entry := (entry h)(p \<mapsto> Regular mode True c)\<rparr>"
  by (auto simp: create_new_file_def split: if_splits option.splits)

lemma config_path_shape:
  assumes "valid_session_id i" "session_dir h i = Inr dir"
  shows "config_path dir = dir @ ''/daemon_config.json''" "path_join dir ''meta.json'' = dir @ ''/meta.json''"
    "path_join dir ''redan.log'' = dir @ ''/redan.log''" "dir \<noteq> []"
proof -
  obtain d where d: "dir = d @ CHR ''/'' # i" using session_dir_below[OF assms] by blast
  have "last i \<in> set i" using valid_id_name(4)[OF assms(1)] by simp
  then have "last i \<noteq> CHR ''/''" using valid_id_name(1)[OF assms(1)] by metis
  then have "last dir \<noteq> CHR ''/''" using valid_id_name(4)[OF assms(1)] d by simp
  moreover show "dir \<noteq> []" using d by simp
  ultimately show "config_path dir = dir @ ''/daemon_config.json''" "path_join dir ''meta.json'' = dir @ ''/meta.json''"
    "path_join dir ''redan.log'' = dir @ ''/redan.log''"
    by (simp_all add: config_path_def path_join_def is_absolute_def)
qed

lemma not_ancestor: "prefix dir p \<Longrightarrow> p \<noteq> dir \<Longrightarrow> p \<notin> set (ancestors dir)"
  using ancestors_prefix prefix_order.antisym by blast

lemma write_daemon_config_Inr:
  assumes "write_daemon_config env cfg i h = (Inr dir, h1)" "valid_session_id i"
  obtains config_json where "session_dir h i = Inr dir" "dv_print env cfg = Inr config_json"
    "env_var h1 = env_var h" "writable h1 = writable h" "writable h (config_path dir)"
    "entry h1 (config_path dir) = Some (Regular 0x180 True config_json)"
    "entry h1 dir = Some Directory" "entry h1 (path_join dir ''meta.json'') = entry h (path_join dir ''meta.json'')"
proof -
  obtain h0 config_json where s: "session_dir h i = Inr dir" "create_dir_all h dir = Some h0" "dv_print env cfg = Inr config_json"
    "create_new_file 0x180 (dv_partial env) (config_path dir) config_json h0 = (True, h1)"
    using assms(1) by (auto simp: write_daemon_config_def split: sum.splits option.splits prod.splits if_splits)
  note sh = config_path_shape[OF assms(2) s(1)]
  have h0: "entry h0 q = (if q \<in> set (ancestors dir) then Some Directory else entry h q)"
    "env_var h0 = env_var h" "writable h0 = writable h" for q
    using create_dir_all_Some[OF s(2)] by simp_all
  note c = create_new_file_done[OF s(4)]
  show thesis
  proof (rule that[OF s(1,3)])
    show "entry h1 dir = Some Directory" using c h0(1)[of dir] ancestors_self[OF sh(4)] by (simp add: sh)
    have "dir @ ''/meta.json'' \<notin> set (ancestors dir)" by (rule not_ancestor) auto
    then show "entry h1 (path_join dir ''meta.json'') = entry h (path_join dir ''meta.json'')"
      using c h0(1) by (simp add: sh)
  qed (use c h0 in simp_all)
qed

lemma spawn_daemon_Inr:
  "spawn_daemon env dir h = (Inr pid, h') \<Longrightarrow>
   env_var h' = env_var h \<and> writable h' = writable h \<and> (\<forall>q. q \<noteq> path_join dir ''redan.log'' \<longrightarrow> entry h' q = entry h q)"
  by (auto simp: spawn_daemon_def cleanup_and_exit_def dest!: write_file_Some split: sum.splits option.splits)

lemma cleanup_removes:
  assumes "cleanup_and_exit dir msg h = (r, h')" "entry h dir = Some Directory" "writable h dir" "below dir q"
  shows "entry h' q = None"
  using assms by (auto simp: cleanup_and_exit_def remove_dir_all_def)

lemma spawn_daemon_Inl:
  assumes "spawn_daemon env dir h = (Inl e, h')" "entry h dir = Some Directory" "writable h dir" "below dir q"
    "path_join dir ''redan.log'' \<noteq> dir"
  shows "entry h' q = None"
proof (cases "write_file h (path_join dir ''redan.log'') []")
  case None
  then show ?thesis
    using assms by (auto simp: spawn_daemon_def elim!: cleanup_removes[where dir = dir] split: sum.splits)
next
  case (Some h1)
  have "entry h1 dir = Some Directory" "writable h1 dir"
    using write_file_Some[OF Some] assms(2,3,5) by auto
  then show ?thesis
    using assms Some by (auto simp: spawn_daemon_def elim!: cleanup_removes[where dir = dir] split: sum.splits)
qed

lemma save_returns:
  assumes "session_dir h (sm_id m) = Inr dir"
  obtains q h' where "save env m h = Inr (q, h')"
  using assms by (cases "save env m h") (auto simp: save_def bindR_def)

lemma save_keeps_files:
  assumes "save env m h = Inr (r, h')" "is_file h q" "session_dir h (sm_id m) = Inr dir" "q \<noteq> path_join dir ''meta.json''"
  shows "entry h' q = entry h q \<and> env_var h' = env_var h \<and> writable h' = writable h"
proof (cases "create_dir_all h dir")
  case None
  then show ?thesis using assms by (auto simp: save_def bindR_def)
next
  case (Some h1)
  have h1: "entry h1 q = entry h q" "env_var h1 = env_var h" "writable h1 = writable h"
    using create_dir_all_file[OF Some assms(2)] create_dir_all_Some[OF Some] by simp_all
  have "h' = h1 \<or> (\<exists>json. write_file h1 (path_join dir ''meta.json'') json = Some h')"
    using assms(1,3) Some by (auto simp: save_def bindR_def split: sum.splits option.splits)
  then show ?thesis using h1 assms(4) by (auto dest!: write_file_Some)
qed

lemma run_daemon_unlinks:
  "run_daemon env i h = (Inr call, h') \<Longrightarrow> \<exists>dir. session_dir h i = Inr dir \<and> entry h' (config_path dir) = None"
  by (auto simp: run_daemon_def remove_file_def split: if_splits sum.splits option.splits file_entry.splits bool.splits)

lemma run_daemon_reads:
  assumes "valid_session_id i" "session_dir h i = Inr dir" "entry h (config_path dir) = Some (Regular mode True content)"
    "writable h (config_path dir)" "utf8_valid content" "dv_parse env content = Inr cfg"
  shows "\<exists>h'. run_daemon env i h = (Inr (daemon_call cfg i), h') \<and> entry h' (config_path dir) = None"
  using assms by (simp add: run_daemon_def remove_file_def is_file_def)

lemma write_daemon_config_Inl:
  assumes "write_daemon_config env cfg i h = (Inl e, h1)" "valid_session_id i" "session_dir h i = Inr dir"
    "entry h (config_path dir) = None" "dv_partial env = None"
  shows "entry h1 (config_path dir) = None"
proof (cases "create_dir_all h dir")
  case None
  then show ?thesis using assms by (simp add: write_daemon_config_def)
next
  case (Some h0)
  have "config_path dir \<notin> set (ancestors dir)"
    by (rule not_ancestor) (simp_all add: config_path_shape(1)[OF assms(2,3)])
  then have "entry h0 (config_path dir) = None" using create_dir_all_Some[OF Some] assms(4) by simp
  then show ?thesis
    using assms Some by (auto simp: write_daemon_config_def create_new_file_def split: sum.splits if_splits)
qed

subsection \<open>Properties\<close>

text \<open>
  C21: secrets rest on disk only for the hand-over. When the launcher reports a started daemon, the
  configuration lies in a file of mode 0600, and the daemon reads exactly that configuration back
  (every field reaches \<^verbatim>\<open>cmd::exec::run\<close>) after it has removed the file; when the launcher gives up,
  no configuration is left in a session directory it could write. A daemon that goes on to run a
  guest, with whatever configuration, has removed its file.
\<close>
theorem daemon_config_handoff:
  assumes "valid_session_id i" "exec_detached env cfg i h = (r, h')"
    and "\<And>j. dv_print env cfg = Inr j \<Longrightarrow> dv_parse env j = Inr cfg \<and> utf8_valid j"
  shows "(case r of
      Inr pid \<Rightarrow>
        (\<exists>dir j h''. session_dir h i = Inr dir \<and> entry h' (config_path dir) = Some (Regular 0x180 True j)
           \<and> run_daemon env i h' = (Inr (daemon_call cfg i), h'') \<and> entry h'' (config_path dir) = None)
    | Inl e \<Rightarrow>
        (\<forall>dir. session_dir h i = Inr dir \<longrightarrow> entry h (config_path dir) = None \<longrightarrow> dv_partial env = None \<longrightarrow>
           writable h dir \<longrightarrow> entry h' (config_path dir) = None))
    \<and> (\<forall>h0 call h1. run_daemon env i h0 = (Inr call, h1) \<longrightarrow>
         (\<exists>dir. session_dir h0 i = Inr dir \<and> entry h1 (config_path dir) = None))"
proof -
  have main: "case r of
      Inr pid \<Rightarrow>
        (\<exists>dir j h''. session_dir h i = Inr dir \<and> entry h' (config_path dir) = Some (Regular 0x180 True j)
           \<and> run_daemon env i h' = (Inr (daemon_call cfg i), h'') \<and> entry h'' (config_path dir) = None)
    | Inl e \<Rightarrow>
        (\<forall>dir. session_dir h i = Inr dir \<longrightarrow> entry h (config_path dir) = None \<longrightarrow> dv_partial env = None \<longrightarrow>
           writable h dir \<longrightarrow> entry h' (config_path dir) = None)"
  proof (cases "write_daemon_config env cfg i h")
    case (Pair w h1)
    show ?thesis
    proof (cases w)
      case (Inl e)
      then show ?thesis
        using assms(1,2) Pair write_daemon_config_Inl[of env cfg i h e h1] by (auto simp: exec_detached_def)
    next
      case (Inr dir)
      then have wd: "write_daemon_config env cfg i h = (Inr dir, h1)" using Pair by simp
      obtain j where j: "session_dir h i = Inr dir" "dv_print env cfg = Inr j" "env_var h1 = env_var h"
        "writable h1 = writable h" "writable h (config_path dir)"
        "entry h1 (config_path dir) = Some (Regular 0x180 True j)" "entry h1 dir = Some Directory"
        using write_daemon_config_Inr[OF wd assms(1)] by metis
      note sh = config_path_shape[OF assms(1) j(1)]
      obtain s h2 where s: "spawn_daemon env dir h1 = (s, h2)" by (cases "spawn_daemon env dir h1")
      show ?thesis
      proof (cases s)
        case (Inl e)
        then have "r = Inl e" "h' = h2" using assms(2) wd s by (simp_all add: exec_detached_def)
        moreover have "entry h2 (config_path dir) = None" if "writable h dir"
          by (rule spawn_daemon_Inl[OF s[unfolded Inl] j(7)]) (use that j(4) in \<open>simp_all add: sh\<close>)
        ultimately show ?thesis using j(1) by auto
      next
        case (Inr pid)
        have h2: "env_var h2 = env_var h" "writable h2 = writable h" "entry h2 (config_path dir) = Some (Regular 0x180 True j)"
          using spawn_daemon_Inr[OF s[unfolded Inr]] j(3,4,6) by (auto simp: sh)
        have sd2: "session_dir h2 i = Inr dir" using j(1) session_dir_cong[OF h2(1)] by simp
        define m where "m = (new_meta (dv_now env) (dv_own_pid env) i (dm_image_name cfg) (Some (dm_command cfg)))
          \<lparr>sm_pid := Some pid, sm_name := dm_session_name cfg\<rparr>"
        have mid: "sm_id m = i" by (simp add: m_def new_meta_def)
        obtain q h3 where q: "save (dv_sessions env) m h2 = Inr (q, h3)"
          using save_returns sd2 mid by metis
        have r: "r = Inr pid" "h' = h3" using assms(2) wd s Inr q by (auto simp: exec_detached_def Let_def m_def)
        have k: "entry h3 (config_path dir) = Some (Regular 0x180 True j)" "env_var h3 = env_var h" "writable h3 = writable h"
          using save_keeps_files[OF q, of "config_path dir" dir] sd2 mid h2 by (auto simp: is_file_def sh)
        have sd3: "session_dir h3 i = Inr dir" using j(1) session_dir_cong[OF k(2)] by simp
        show ?thesis
          using run_daemon_reads[OF assms(1) sd3 k(1), of env cfg] assms(3)[OF j(2)] j(1,5) k r by auto
      qed
    qed
  qed
  then show ?thesis using run_daemon_unlinks by blast
qed

definition demo_daemon_config :: daemon_config where
  "demo_daemon_config = \<lparr>dm_rootfs = ''/r'', dm_command = ''id'', dm_timeout_secs = 5, dm_secrets = [''K=v:a.test''],
     dm_allow_hosts = [], dm_forwards = [], dm_mounts = [], dm_audit_log = None, dm_image_name = None, dm_env = [],
     dm_discover = False, dm_session_name = None, dm_run_as = None, dm_chown_dir = None, dm_browser = False\<rparr>"

definition demo_daemon_env :: daemon_env where
  "demo_daemon_env = \<lparr>dv_print = (\<lambda>_. Inr ''cfg''), dv_parse = (\<lambda>_. Inr demo_daemon_config), dv_partial = None,
     dv_exe = Inr ''/usr/bin/redan'', dv_clone = Inr (), dv_spawn = Inr 77, dv_sessions = demo_session_env,
     dv_now = ''2025'', dv_own_pid = 5\<rparr>"

theorem daemon_config_handoff_witness:
  "\<exists>h' h'' dir. exec_detached demo_daemon_env demo_daemon_config ''abcd1234'' demo_state = (Inr 77, h')
     \<and> run_daemon demo_daemon_env ''abcd1234'' h' = (Inr (daemon_call demo_daemon_config ''abcd1234''), h'')
     \<and> entry h'' (config_path dir) = None"
proof -
  let ?d = "''/h/.local/state/redan/sessions/abcd1234''"
  have sd: "session_dir demo_state ''abcd1234'' = Inr ?d"
    by (simp add: session_dir_def sessions_dir_def demo_state_def bindR_def path_join_def is_absolute_def)
  have v: "valid_session_id ''abcd1234''" by code_simp
  obtain h0 where h0: "create_dir_all demo_state ?d = Some h0"
    by (simp add: create_dir_all_def demo_state_def is_file_def list_ex_iff)
  have na: "?d @ CHR ''/'' # f \<notin> set (ancestors ?d)" for f
    by (rule not_ancestor) simp_all
  have e0: "writable h0 p" "entry h0 (?d @ CHR ''/'' # f) = None" "env_var h0 = env_var demo_state" for p f
    using create_dir_all_Some[OF h0] na[of f] by (simp_all add: demo_state_def)
  obtain h1 where h1: "write_daemon_config demo_daemon_env demo_daemon_config ''abcd1234'' demo_state = (Inr ?d, h1)"
    "writable h1 p" "entry h1 (path_join ?d ''redan.log'') = None" for p
    using e0(1) e0(2)[of "''daemon_config.json''"] e0(2)[of "''redan.log''"]
    by (simp add: write_daemon_config_def sd h0 demo_daemon_env_def create_new_file_def config_path_def
        path_join_def is_absolute_def)
  then obtain h2 where h2: "spawn_daemon demo_daemon_env ?d h1 = (Inr 77, h2)"
    by (simp add: spawn_daemon_def demo_daemon_env_def write_file_def)
  have ev: "env_var h2 = env_var demo_state"
    using spawn_daemon_Inr[OF h2] write_daemon_config_Inr[OF h1(1) v] by metis
  have sd2: "session_dir h2 ''abcd1234'' = Inr ?d" using sd session_dir_cong[OF ev] by simp
  define m where "m = (new_meta ''2025'' 5 ''abcd1234'' None (Some ''id''))\<lparr>sm_pid := Some 77, sm_name := None\<rparr>"
  have "session_dir h2 (sm_id m) = Inr ?d" using sd2 by (simp add: m_def new_meta_def)
  then obtain q h' where "save demo_session_env m h2 = Inr (q, h')" by (rule save_returns)
  then have x: "exec_detached demo_daemon_env demo_daemon_config ''abcd1234'' demo_state = (Inr 77, h')"
    using h1(1) h2 by (simp add: exec_detached_def Let_def demo_daemon_env_def demo_daemon_config_def m_def)
  have p: "dv_print demo_daemon_env demo_daemon_config = Inr j \<Longrightarrow>
      dv_parse demo_daemon_env j = Inr demo_daemon_config \<and> utf8_valid j" for j
  proof -
    have "utf8_valid ''cfg''" by code_simp
    then show "dv_print demo_daemon_env demo_daemon_config = Inr j \<Longrightarrow> ?thesis" by (auto simp: demo_daemon_env_def)
  qed
  show ?thesis using daemon_config_handoff[OF v x p] x by auto
qed

subsection \<open>Two gaps\<close>

text \<open>A write that fails half-way exits without the cleanup: the written part stays on disk.\<close>

lemma partial_config_left:
  assumes "valid_session_id i" "session_dir h i = Inr dir" "create_dir_all h dir = Some h0" "dv_print env cfg = Inr j"
    "dv_partial env = Some n" "entry h (config_path dir) = None" "writable h (config_path dir)"
  shows "\<exists>h'. exec_detached env cfg i h = (Inl (Exit 1 ''cannot write daemon config''), h')
    \<and> entry h' (config_path dir) = Some (Regular 0x180 True (take n j))"
proof -
  have "config_path dir \<notin> set (ancestors dir)"
    by (rule not_ancestor) (simp_all add: config_path_shape(1)[OF assms(1,2)])
  then have "entry h0 (config_path dir) = None" "writable h0 (config_path dir)"
    using create_dir_all_Some[OF assms(3)] assms(6,7) by simp_all
  then show ?thesis
    using assms(2-5) by (simp add: exec_detached_def write_daemon_config_def create_new_file_def)
qed

text \<open>The daemon runs as soon as it is spawned, and the metadata it needs is written only afterwards:
  a daemon that gets there first exits.\<close>

lemma daemon_needs_meta:
  assumes "valid_session_id i" "write_daemon_config env cfg i h = (Inr dir, h1)" "spawn_daemon env dir h1 = (Inr pid, h2)"
    "entry h (path_join dir ''meta.json'') = None"
  shows "\<exists>msg. start_session env fresh (daemon_call cfg i) h2 = (Inl (Exit 1 msg), h2)"
proof -
  obtain j where j: "session_dir h i = Inr dir" "env_var h1 = env_var h"
    "entry h1 (path_join dir ''meta.json'') = entry h (path_join dir ''meta.json'')"
    using write_daemon_config_Inr[OF assms(2,1)] by metis
  note sh = config_path_shape[OF assms(1) j(1)]
  have h2: "entry h2 (path_join dir ''meta.json'') = None" "env_var h2 = env_var h"
    using spawn_daemon_Inr[OF assms(3)] j(2,3) assms(4) by (auto simp: sh)
  have "session_dir h2 i = Inr dir" using j(1) session_dir_cong[OF h2(2)] by simp
  then show ?thesis using assms(1) h2(1) by (simp add: start_session_def daemon_call_def read_to_string_def)
qed

end
