(* ===== verification/Dns.thy ===== *)
theory Dns
  imports HostMap Utf8
begin

unbundle bit_operations_syntax

text \<open>
  The synthetic DNS server: \<^verbatim>\<open>src/src/dns.rs\<close> (\<^verbatim>\<open>query_hostname\<close>, \<^verbatim>\<open>handle_query\<close>, \<^verbatim>\<open>parse_qname\<close> and
  the two response builders) on packets of octets, and \<^verbatim>\<open>process_dns\<close> of \<^verbatim>\<open>src/src/proxy.rs\<close>, which
  answers the queued queries from the host pool. A received datagram is \<open>None\<close> where \<^verbatim>\<open>recv\<close>
  fails; the sent datagrams and the audit events are returned.
\<close>

definition char_of_octet :: "octet \<Rightarrow> char" where
  "char_of_octet w = char_of (unat w)"

definition octet_of_char :: "char \<Rightarrow> octet" where
  "octet_of_char c = of_nat (char_code c)"

definition u16_from_be :: "octet \<Rightarrow> octet \<Rightarrow> 16 word" where
  "u16_from_be a b = of_nat (256 * unat a + unat b)"

definition u16_to_be :: "16 word \<Rightarrow> octet list" where
  "u16_to_be w = [of_nat (unat w div 256), of_nat (unat w mod 256)]"

definition octets_of_ip :: "ipv4 \<Rightarrow> octet list" where
  "octets_of_ip ip = (case ip of (a, b, c, d) \<Rightarrow> [a, b, c, d])"

function parse_labels :: "octet list \<Rightarrow> nat \<Rightarrow> string list \<Rightarrow> (string list \<times> nat) option" where
  "parse_labels packet pos labels =
     (if pos \<ge> length packet then None
      else (let len = unat (packet ! pos)
            in if len = 0 then Some (labels, pos + 1)
               else if len AND 0xC0 = 0xC0 then None
               else if len > 63 then None
               else if pos + 1 + len > length packet then None
               else (case from_utf8 (map char_of_octet (take len (drop (pos + 1) packet))) of
                       None \<Rightarrow> None
                     | Some label \<Rightarrow> parse_labels packet (pos + 1 + len) (labels @ [label]))))"
  by pat_completeness auto
termination by (relation "measure (\<lambda>(packet, pos, labels). length packet - pos)") auto

declare parse_labels.simps [simp del]

definition parse_qname :: "octet list \<Rightarrow> nat \<Rightarrow> (string \<times> nat) option" where
  "parse_qname packet start =
     (case parse_labels packet start [] of
        None \<Rightarrow> None
      | Some (labels, pos) \<Rightarrow>
          if labels = [] then None
          else (let name = join ''.'' labels in if length name > 253 then None else Some (name, pos)))"

definition standard_query :: "octet list \<Rightarrow> bool" where
  "standard_query packet \<longleftrightarrow>
     (let flags = u16_from_be (packet ! 2) (packet ! 3);
          qd_count = u16_from_be (packet ! 4) (packet ! 5)
      in flags AND 0x8000 = 0 \<and> flags AND 0x7800 = 0 \<and> qd_count = 1)"

definition query_hostname :: "octet list \<Rightarrow> string option" where
  "query_hostname packet =
     (if length packet < 12 then None
      else if \<not> standard_query packet then None
      else (case parse_qname packet 12 of
          None \<Rightarrow> None
        | Some (qname, qname_end) \<Rightarrow>
            if qname_end + 4 > length packet then None
            else Some (trim_end_matches (CHR ''.'') qname)))"

definition NAME_PTR_QUESTION :: "16 word" where
  "NAME_PTR_QUESTION = 0xC000 OR 0x0C"

definition response_header :: "16 word \<Rightarrow> 16 word \<Rightarrow> octet list" where
  "response_header i ancount = u16_to_be i @ u16_to_be 0x8180 @ u16_to_be 1 @ u16_to_be ancount
     @ u16_to_be 0 @ u16_to_be 0"

definition build_a_response :: "16 word \<Rightarrow> octet list \<Rightarrow> nat \<Rightarrow> ipv4 \<Rightarrow> octet list" where
  "build_a_response i query question_end ip =
     response_header i 1 @ drop 12 (take question_end query)
     @ u16_to_be NAME_PTR_QUESTION @ u16_to_be 1 @ u16_to_be 1 @ [0, 0, 0, 60] @ u16_to_be 4
     @ octets_of_ip ip"

definition build_empty_response :: "16 word \<Rightarrow> octet list \<Rightarrow> nat \<Rightarrow> octet list" where
  "build_empty_response i query question_end =
     response_header i 0 @ drop 12 (take question_end query)"

definition handle_query :: "octet list \<Rightarrow> ipv4 \<Rightarrow> (string \<times> octet list) option" where
  "handle_query packet resolve_ip =
     (if length packet < 12 then None
      else if \<not> standard_query packet then None
      else (case parse_qname packet 12 of
          None \<Rightarrow> None
        | Some (qname, qname_end) \<Rightarrow>
            if qname_end + 4 > length packet then None
            else
              (let i = u16_from_be (packet ! 0) (packet ! 1);
                   qtype = u16_from_be (packet ! qname_end) (packet ! (qname_end + 1));
                   qclass = u16_from_be (packet ! (qname_end + 2)) (packet ! (qname_end + 3));
                   hostname = trim_end_matches (CHR ''.'') qname;
                   question_end = qname_end + 4
               in if qclass \<noteq> 1 then None
                  else Some (hostname,
                    if qtype = 1
                    then build_a_response i packet question_end
                           (if eq_ignore_ascii_case hostname ''localhost'' then LOOPBACK_IP else resolve_ip)
                    else build_empty_response i packet question_end))))"

subsection \<open>The DNS step of the proxy\<close>

record ('s, 'a) dns_result =
  dns_state :: 's
  dns_new_ips :: "ipv4 list"
  dns_sent :: "(octet list \<times> 'a) list"
  dns_audit :: "string list"

definition resolve_for :: "('s \<Rightarrow> string \<Rightarrow> (ipv4 \<times> bool) \<times> 's) \<Rightarrow> 's \<Rightarrow> string \<Rightarrow> ipv4 \<times> ipv4 list \<times> 's" where
  "resolve_for pool_alloc s hostname =
     (if eq_ignore_ascii_case hostname ''localhost'' then (LOOPBACK_IP, [], s)
      else (case pool_alloc s hostname of
              ((ip, is_new), s') \<Rightarrow> (ip, if is_new then [ip] else [], s')))"

fun process_dns ::
  "('s \<Rightarrow> string \<Rightarrow> (ipv4 \<times> bool) \<times> 's) \<Rightarrow> (octet list \<times> 'a) option list \<Rightarrow> ('s, 'a) dns_result
     \<Rightarrow> ('s, 'a) dns_result" where
  "process_dns pool_alloc [] r = r"
| "process_dns pool_alloc (None # queue) r = process_dns pool_alloc queue r"
| "process_dns pool_alloc (Some (data, sender) # queue) r =
     (case query_hostname data of
        None \<Rightarrow> process_dns pool_alloc queue r
      | Some hostname \<Rightarrow>
          (case resolve_for pool_alloc (dns_state r) hostname of (resolve_ip, fresh, s') \<Rightarrow>
             (let r' = r\<lparr>dns_state := s', dns_new_ips := dns_new_ips r @ fresh\<rparr>
              in case handle_query data resolve_ip of
                   None \<Rightarrow> process_dns pool_alloc queue r'
                 | Some (hostname, response) \<Rightarrow>
                     process_dns pool_alloc queue
                       (r'\<lparr>dns_sent := dns_sent r' @ [(response, sender)],
                           dns_audit := dns_audit r' @ [hostname]\<rparr>))))"

subsection \<open>Names on the wire\<close>

definition encode_label :: "string \<Rightarrow> octet list" where
  "encode_label l = of_nat (length l) # map octet_of_char l"

definition encode_name :: "string list \<Rightarrow> octet list" where
  "encode_name ls = concat (map encode_label ls) @ [0]"

definition label_ok :: "string \<Rightarrow> bool" where
  "label_ok l \<longleftrightarrow> l \<noteq> [] \<and> length l \<le> 63 \<and> utf8_valid l"

lemma char_octet_inverse [simp]:
  "char_of_octet (octet_of_char c) = c" "octet_of_char (char_of_octet w) = w"
  using unsigned_less[of w, where 'a = nat]
  by (simp_all add: char_of_octet_def octet_of_char_def unat_of_nat)

lemma map_char_octet [simp]:
  "map char_of_octet (map octet_of_char l) = l" "map octet_of_char (map char_of_octet ws) = ws"
  by (simp_all add: comp_def)

lemma comp_char_octet [simp]: "char_of_octet \<circ> octet_of_char = id" "octet_of_char \<circ> char_of_octet = id"
  by (auto simp: comp_def)

lemma no_pointer_bits: "(n::nat) \<le> 63 \<Longrightarrow> n AND 192 \<noteq> 192"
proof
  assume n: "n \<le> 63" and eq: "n AND 192 = 192"
  have "bit (192::nat) 7" by (simp add: bit_iff_odd)
  then have "bit (n AND 192) 7" by (simp only: eq)
  then have "bit n 7" unfolding bit_and_iff by blast
  then show False using n by (simp add: bit_iff_odd)
qed

lemma unat_length_octet: "length l \<le> 63 \<Longrightarrow> unat (of_nat (length l) :: octet) = length l"
  by (simp add: unat_of_nat)

lemma encode_name_Cons: "encode_name (l # ls) = encode_label l @ encode_name ls"
  by (simp add: encode_name_def)

lemma parse_labels_encode:
  "list_all label_ok ls \<Longrightarrow>
   parse_labels (pre @ encode_name ls @ rest) (length pre) acc
     = Some (acc @ ls, length pre + length (encode_name ls))"
proof (induction ls arbitrary: pre acc)
  case Nil
  then show ?case by (subst parse_labels.simps) (simp add: encode_name_def nth_append)
next
  case (Cons l ls)
  let ?p = "pre @ encode_name (l # ls) @ rest"
  have ok: "l \<noteq> []" "length l \<le> 63" "from_utf8 l = Some l"
    using Cons.prems by (simp_all add: label_ok_def from_utf8_def)
  have len: "unat (?p ! length pre) = length l"
    using ok by (simp add: encode_name_Cons encode_label_def nth_append unat_length_octet)
  have body: "take (length l) (drop (length pre + 1) ?p) = map octet_of_char l"
    by (simp add: encode_name_Cons encode_label_def)
  have IH: "parse_labels ((pre @ encode_label l) @ encode_name ls @ rest) (length (pre @ encode_label l)) (acc @ [l])
      = Some ((acc @ [l]) @ ls, length (pre @ encode_label l) + length (encode_name ls))"
    using Cons.prems by (intro Cons.IH) simp
  show ?case
    using IH ok no_pointer_bits[OF ok(2)]
    by (subst parse_labels.simps)
       (simp only: len body Let_def map_char_octet,
        simp add: encode_name_Cons encode_label_def add.assoc)
qed

lemma parse_labels_step:
  assumes "parse_labels packet pos acc = Some r" "unat (packet ! pos) = len" "len \<noteq> 0"
  obtains l where "l = map char_of_octet (take len (drop (pos + 1) packet))" "label_ok l" "length l = len"
    "pos + 1 + len \<le> length packet" "parse_labels packet (pos + 1 + len) (acc @ [l]) = Some r"
proof -
  define l where "l = map char_of_octet (take len (drop (pos + 1) packet))"
  have 1: "pos + 1 + len \<le> length packet" "len \<le> 63"
    using assms by (subst (asm) parse_labels.simps, simp add: Let_def split: if_splits)+
  have 2: "utf8_valid l \<and> parse_labels packet (pos + 1 + len) (acc @ [l]) = Some r"
    using assms 1 by (subst (asm) parse_labels.simps)
      (simp add: Let_def l_def from_utf8_def split: if_splits option.splits)
  have "length l = len" using 1 by (simp add: l_def)
  with 1 2 assms(3) show thesis by (intro that[OF l_def]) (auto simp: label_ok_def)
qed

lemma parse_labels_Some:
  "parse_labels packet pos acc = Some (ls', e) \<Longrightarrow>
   \<exists>ls. ls' = acc @ ls \<and> list_all label_ok ls \<and> drop pos packet = encode_name ls @ drop e packet
        \<and> e = pos + length (encode_name ls) \<and> e \<le> length packet"
proof (induction "length packet - pos" arbitrary: pos acc rule: less_induct)
  case less
  define len where "len = unat (packet ! pos)"
  have pos: "pos < length packet"
    using less.prems by (subst (asm) parse_labels.simps) (auto split: if_splits)
  then have d: "drop pos packet = packet ! pos # drop (Suc pos) packet" by (simp add: Cons_nth_drop_Suc)
  show ?case
  proof (cases "len = 0")
    case True
    then have "packet ! pos = 0" by (simp add: len_def unat_eq_0)
    moreover have "ls' = acc" "e = pos + 1"
      using less.prems pos True by (subst (asm) parse_labels.simps, simp add: len_def)+
    ultimately show ?thesis using d pos by (intro exI[of _ "[]"]) (simp add: encode_name_def)
  next
    case False
    obtain l where l: "l = map char_of_octet (take len (drop (pos + 1) packet))" "label_ok l" "length l = len"
      "pos + 1 + len \<le> length packet" "parse_labels packet (pos + 1 + len) (acc @ [l]) = Some (ls', e)"
      using parse_labels_step[OF less.prems len_def[symmetric] False] by blast
    have "length packet - (pos + 1 + len) < length packet - pos" using pos by simp
    from less.hyps[OF this l(5)] obtain ls where ls: "ls' = (acc @ [l]) @ ls" "list_all label_ok ls"
      "drop (pos + 1 + len) packet = encode_name ls @ drop e packet"
      "e = pos + 1 + len + length (encode_name ls)" "e \<le> length packet"
      by blast
    have "drop (Suc pos) packet = take len (drop (Suc pos) packet) @ drop (pos + 1 + len) packet"
      by (metis Suc_eq_plus1 add.commute append_take_drop_id drop_drop)
    moreover have "take len (drop (Suc pos) packet) = map octet_of_char l" by (simp add: l(1))
    moreover have "of_nat (length l) = packet ! pos" using l(3) by (simp add: len_def)
    ultimately have "drop pos packet = encode_name (l # ls) @ drop e packet"
      using d ls(3) by (simp add: encode_name_Cons encode_label_def)
    then show ?thesis
      using ls l(2,3) by (intro exI[of _ "l # ls"]) (simp add: encode_name_Cons encode_label_def)
  qed
qed

text \<open>The name parser accepts exactly the encoded names: labels of 1 to 63 bytes of valid text, at
  least one, and at most 253 bytes joined.\<close>

definition name_ok :: "string list \<Rightarrow> bool" where
  "name_ok ls \<longleftrightarrow> ls \<noteq> [] \<and> list_all label_ok ls \<and> length (join ''.'' ls) \<le> 253"

lemma parse_qname_encode:
  "name_ok ls \<Longrightarrow> parse_qname (pre @ encode_name ls @ rest) (length pre)
     = Some (join ''.'' ls, length pre + length (encode_name ls))"
  by (simp add: parse_qname_def parse_labels_encode name_ok_def)

lemma parse_qname_Some:
  "parse_qname packet start = Some (name, e) \<longleftrightarrow>
     (\<exists>ls. name_ok ls \<and> name = join ''.'' ls \<and> drop start packet = encode_name ls @ drop e packet
        \<and> e = start + length (encode_name ls) \<and> e \<le> length packet)"
proof
  assume "parse_qname packet start = Some (name, e)"
  then obtain ls where "parse_labels packet start [] = Some (ls, e)" "ls \<noteq> []"
      "length (join ''.'' ls) \<le> 253" "name = join ''.'' ls"
    by (auto simp: parse_qname_def Let_def split: option.splits if_splits)
  then show "\<exists>ls. name_ok ls \<and> name = join ''.'' ls \<and> drop start packet = encode_name ls @ drop e packet
      \<and> e = start + length (encode_name ls) \<and> e \<le> length packet"
    using parse_labels_Some[of packet start "[]" ls e] by (auto simp: name_ok_def)
next
  assume "\<exists>ls. name_ok ls \<and> name = join ''.'' ls \<and> drop start packet = encode_name ls @ drop e packet
      \<and> e = start + length (encode_name ls) \<and> e \<le> length packet"
  then obtain ls where ls: "name_ok ls" "name = join ''.'' ls"
      "drop start packet = encode_name ls @ drop e packet" "e = start + length (encode_name ls)" "e \<le> length packet"
    by blast
  have "packet = take start packet @ encode_name ls @ drop e packet"
    using ls(3) by (metis append_take_drop_id)
  moreover have "length (take start packet) = start" using ls(4,5) by simp
  ultimately show "parse_qname packet start = Some (name, e)"
    using parse_qname_encode[OF ls(1), of "take start packet" "drop e packet"] ls(2,4) by simp
qed

subsection \<open>Whole queries\<close>

lemma u16_be_inverse [simp]: "u16_from_be (of_nat (unat w div 256)) (of_nat (unat w mod 256)) = w"
proof -
  have "unat w < 65536" using unsigned_less[of w, where 'a = nat] by simp
  then have "unat (of_nat (unat w div 256) :: octet) = unat w div 256"
    by (simp add: unat_of_nat)
  moreover have "unat (of_nat (unat w mod 256) :: octet) = unat w mod 256"
    by (simp add: unat_of_nat)
  ultimately show ?thesis by (simp add: u16_from_be_def)
qed

text \<open>A query in parts: the header \<open>hd\<close> of 12 octets, the encoded name, four octets of type and
  class, and whatever follows.\<close>

definition query_packet :: "octet list \<Rightarrow> string list \<Rightarrow> octet list \<Rightarrow> octet list \<Rightarrow> octet list" where
  "query_packet header ls tc rest = header @ encode_name ls @ tc @ rest"

definition host_of_name :: "string list \<Rightarrow> string" where
  "host_of_name ls = trim_end_matches (CHR ''.'') (join ''.'' ls)"

definition answer_section :: "ipv4 \<Rightarrow> octet list" where
  "answer_section ip = u16_to_be NAME_PTR_QUESTION @ u16_to_be 1 @ u16_to_be 1 @ [0, 0, 0, 60]
     @ u16_to_be 4 @ octets_of_ip ip"

definition dns_answer :: "octet list \<Rightarrow> string list \<Rightarrow> octet list \<Rightarrow> ipv4 \<Rightarrow> octet list" where
  "dns_answer header ls tc ip =
     (let i = u16_from_be (header ! 0) (header ! 1)
      in if u16_from_be (tc ! 0) (tc ! 1) = 1
         then response_header i 1 @ encode_name ls @ tc
                @ answer_section (if eq_ignore_ascii_case (host_of_name ls) ''localhost'' then LOOPBACK_IP else ip)
         else response_header i 0 @ encode_name ls @ tc)"

lemma query_packet_parts:
  assumes "length header = 12" "length tc = 4" "name_ok ls"
  shows "parse_qname (query_packet header ls tc rest) 12 = Some (join ''.'' ls, 12 + length (encode_name ls))"
    "drop 12 (take (12 + length (encode_name ls) + 4) (query_packet header ls tc rest)) = encode_name ls @ tc"
    "k < 4 \<Longrightarrow> query_packet header ls tc rest ! (12 + length (encode_name ls) + k) = tc ! k"
    "k < 12 \<Longrightarrow> query_packet header ls tc rest ! k = header ! k"
    "length (query_packet header ls tc rest) = 16 + length (encode_name ls) + length rest"
  using assms parse_qname_encode[OF assms(3), of header "tc @ rest"]
  by (simp_all add: query_packet_def nth_append)

lemma standard_query_header:
  "length header = 12 \<Longrightarrow> standard_query (header @ r) = standard_query header"
  by (simp add: standard_query_def nth_append)

lemma handle_query_packet:
  assumes h: "length header = 12" and tc: "length tc = 4" and ok: "name_ok ls"
  shows "handle_query (query_packet header ls tc rest) ip =
    (if standard_query header \<and> u16_from_be (tc ! 2) (tc ! 3) = 1
     then Some (host_of_name ls, dns_answer header ls tc ip) else None)"
proof -
  let ?e = "12 + length (encode_name ls)"
  have nth: "query_packet header ls tc rest ! ?e = tc ! 0"
      "query_packet header ls tc rest ! (?e + 1) = tc ! 1"
      "query_packet header ls tc rest ! (?e + 2) = tc ! 2"
      "query_packet header ls tc rest ! (?e + 3) = tc ! 3"
      "query_packet header ls tc rest ! 0 = header ! 0" "query_packet header ls tc rest ! 1 = header ! 1"
    using query_packet_parts(3)[OF h tc ok, of 0 rest] query_packet_parts(3)[OF h tc ok, of 1 rest]
      query_packet_parts(3)[OF h tc ok, of 2 rest] query_packet_parts(3)[OF h tc ok, of 3 rest]
      query_packet_parts(4)[OF h tc ok, of 0 rest] query_packet_parts(4)[OF h tc ok, of 1 rest]
    by simp_all
  have sq: "standard_query (query_packet header ls tc rest) = standard_query header"
    by (simp add: query_packet_def standard_query_header[OF h])
  have len: "length (query_packet header ls tc rest) = 16 + length (encode_name ls) + length rest"
    by (rule query_packet_parts(5)[OF h tc ok])
  show ?thesis
    unfolding handle_query_def query_packet_parts(1)[OF h tc ok] option.case prod.case nth sq Let_def
      build_a_response_def build_empty_response_def query_packet_parts(2)[OF h tc ok]
    using len by (auto simp: host_of_name_def dns_answer_def answer_section_def Let_def)
qed

lemma query_hostname_packet:
  assumes h: "length header = 12" and tc: "length tc = 4" and ok: "name_ok ls"
  shows "query_hostname (query_packet header ls tc rest) =
    (if standard_query header then Some (host_of_name ls) else None)"
proof -
  have "standard_query (query_packet header ls tc rest) = standard_query header"
    by (simp add: query_packet_def standard_query_header[OF h])
  then show ?thesis
    using query_packet_parts(1,5)[OF h tc ok, of rest] by (simp add: query_hostname_def host_of_name_def)
qed

lemma query_hostname_Some:
  assumes "query_hostname p = Some host"
  obtains header ls tc rest where "p = query_packet header ls tc rest" "length header = 12" "length tc = 4"
    "name_ok ls" "host = host_of_name ls" "standard_query header"
proof -
  obtain name e where n: "12 \<le> length p" "standard_query p" "parse_qname p 12 = Some (name, e)"
      "e + 4 \<le> length p" "host = trim_end_matches (CHR ''.'') name"
    using assms by (auto simp: query_hostname_def split: if_splits option.splits)
  then obtain ls where ls: "name_ok ls" "name = join ''.'' ls" "drop 12 p = encode_name ls @ drop e p"
    unfolding parse_qname_Some by blast
  have "p = take 12 p @ encode_name ls @ take 4 (drop e p) @ drop 4 (drop e p)"
    using ls(3) by (metis append_take_drop_id)
  then have "p = query_packet (take 12 p) ls (take 4 (drop e p)) (drop 4 (drop e p))"
    by (simp add: query_packet_def)
  moreover have "length (take 12 p) = 12" "length (take 4 (drop e p)) = 4" using n by simp_all
  moreover have "standard_query (take 12 p)"
    using n(2) standard_query_header[OF \<open>length (take 12 p) = 12\<close>, of "drop 12 p"] by simp
  ultimately show thesis using that ls n(5) by (simp add: host_of_name_def)
qed

lemma handle_query_hostname:
  "handle_query p ip = Some (host, r) \<Longrightarrow> query_hostname p = Some host"
  by (auto simp: handle_query_def query_hostname_def Let_def split: if_splits option.splits)

subsection \<open>The answers of a session\<close>

definition answer_ok :: "(ipv4 \<Rightarrow> string option) \<Rightarrow> ipv4 \<Rightarrow> octet list \<Rightarrow> bool" where
  "answer_ok look fallback response \<longleftrightarrow>
     (\<exists>header ls tc ip. response = dns_answer header ls tc ip \<and>
        (eq_ignore_ascii_case (host_of_name ls) ''localhost'' \<or> ip = fallback \<or> look ip = Some (host_of_name ls)))"

lemma answer_ok_mono:
  "answer_ok look fb r \<Longrightarrow> (\<And>ip h. look ip = Some h \<Longrightarrow> look' ip = Some h) \<Longrightarrow> answer_ok look' fb r"
  unfolding answer_ok_def by blast

context host_pool
begin

lemma resolve_for_inv:
  "pool_inv s \<Longrightarrow> resolve_for pool_alloc s h = (ip, fresh, s') \<Longrightarrow> pool_inv s'"
  using inv_alloc[of s h] by (auto simp: resolve_for_def split: if_splits prod.splits)

lemma resolve_for_keeps:
  "pool_inv s \<Longrightarrow> resolve_for pool_alloc s h = (ip, fresh, s') \<Longrightarrow> host_of s a = Some g \<Longrightarrow> host_of s' a = Some g"
  using alloc_keeps[of s a g h] by (auto simp: resolve_for_def split: if_splits prod.splits)

lemma resolve_for_maps:
  "pool_inv s \<Longrightarrow> resolve_for pool_alloc s h = (ip, fresh, s') \<Longrightarrow>
   eq_ignore_ascii_case h ''localhost'' \<or> ip = fallback \<or> host_of s' ip = Some h"
  using alloc_maps[of s h ip] by (auto simp: resolve_for_def split: if_splits prod.splits)

lemma resolve_for_fresh:
  assumes "pool_inv s" "resolve_for pool_alloc s h = (ip, fresh, s')"
  shows "fresh = [] \<or> fresh = [ip] \<and> host_of s ip = None \<and> host_of s' ip = Some h"
proof -
  have "fresh = [] \<or> pool_alloc s h = ((ip, True), s') \<and> fresh = [ip]"
    using assms(2) by (auto simp: resolve_for_def split: if_splits prod.splits)
  then show ?thesis
    using alloc_fresh[OF assms(1), of h ip s'] alloc_maps[OF assms(1), of h ip True s'] by blast
qed

text \<open>The induction step of the session facts below: one query moves the pool on and may send one
  answer.\<close>

definition dns_inv :: "('s, 'a) dns_result \<Rightarrow> bool" where
  "dns_inv r \<longleftrightarrow> pool_inv (dns_state r)
     \<and> list_all (\<lambda>(resp, a). answer_ok (host_of (dns_state r)) fallback resp) (dns_sent r)
     \<and> distinct (dns_new_ips r) \<and> (\<forall>ip\<in>set (dns_new_ips r). host_of (dns_state r) ip \<noteq> None)"

lemma dns_inv_resolve:
  assumes "dns_inv r" "resolve_for pool_alloc (dns_state r) h = (ip, fresh, s')"
  shows "dns_inv (r\<lparr>dns_state := s', dns_new_ips := dns_new_ips r @ fresh\<rparr>)"
proof -
  have I: "pool_inv (dns_state r)" using assms(1) by (simp add: dns_inv_def)
  note keeps = resolve_for_keeps[OF I assms(2)]
  have "list_all (\<lambda>(resp, a). answer_ok (host_of s') fallback resp) (dns_sent r)"
    unfolding list_all_iff split_def
  proof
    fix x assume "x \<in> set (dns_sent r)"
    then have "answer_ok (host_of (dns_state r)) fallback (fst x)"
      using assms(1) by (auto simp: dns_inv_def list_all_iff)
    then show "answer_ok (host_of s') fallback (fst x)" using keeps by (rule answer_ok_mono)
  qed
  moreover have "distinct (dns_new_ips r @ fresh)"
    using resolve_for_fresh[OF I assms(2)]
  proof
    assume f: "fresh = [ip] \<and> host_of (dns_state r) ip = None \<and> host_of s' ip = Some h"
    then have "ip \<notin> set (dns_new_ips r)" using assms(1) unfolding dns_inv_def by metis
    then show ?thesis using assms(1) f by (simp add: dns_inv_def)
  qed (use assms(1) in \<open>simp add: dns_inv_def\<close>)
  moreover have "\<forall>ip\<in>set (dns_new_ips r @ fresh). host_of s' ip \<noteq> None"
  proof
    fix a assume "a \<in> set (dns_new_ips r @ fresh)"
    then consider "a \<in> set (dns_new_ips r)" | "a \<in> set fresh" by auto
    then show "host_of s' a \<noteq> None"
    proof cases
      case 1
      then obtain g where "host_of (dns_state r) a = Some g"
        using assms(1) unfolding dns_inv_def by blast
      then show ?thesis using keeps by simp
    next
      case 2
      then show ?thesis using resolve_for_fresh[OF I assms(2)] by auto
    qed
  qed
  ultimately show ?thesis using resolve_for_inv[OF I assms(2)] by (simp add: dns_inv_def)
qed

lemma dns_inv_send:
  assumes "dns_inv r" "handle_query data ip = Some (h, response)"
    "\<And>g. query_hostname data = Some g \<Longrightarrow>
      eq_ignore_ascii_case g ''localhost'' \<or> ip = fallback \<or> host_of (dns_state r) ip = Some g"
  shows "dns_inv (r\<lparr>dns_sent := dns_sent r @ [(response, a)], dns_audit := dns_audit r @ [h]\<rparr>)"
proof -
  have q: "query_hostname data = Some h" by (rule handle_query_hostname[OF assms(2)])
  then obtain header ls tc rest where p: "data = query_packet header ls tc rest" "length header = 12"
      "length tc = 4" "name_ok ls" "h = host_of_name ls"
    by (rule query_hostname_Some)
  then have "response = dns_answer header ls tc ip"
    using assms(2) handle_query_packet[OF p(2-4), of rest ip] by (auto split: if_splits)
  then have "answer_ok (host_of (dns_state r)) fallback response"
    using assms(3)[OF q] p(5) unfolding answer_ok_def by blast
  then show ?thesis using assms(1) by (simp add: dns_inv_def)
qed

lemma dns_inv_process: "dns_inv r \<Longrightarrow> dns_inv (process_dns pool_alloc queue r)"
proof (induction queue arbitrary: r)
  case (Cons d queue)
  show ?case
  proof (cases d)
    case None
    then show ?thesis using Cons by simp
  next
    case (Some ds)
    obtain data sender where ds: "ds = (data, sender)" by fastforce
    show ?thesis
    proof (cases "query_hostname data")
      case None
      then show ?thesis using Cons Some ds by simp
    next
      case host: (Some h)
      obtain ip fresh s' where res: "resolve_for pool_alloc (dns_state r) h = (ip, fresh, s')"
        using prod_cases3 by blast
      define r' where "r' = r\<lparr>dns_state := s', dns_new_ips := dns_new_ips r @ fresh\<rparr>"
      have I: "dns_inv r'" unfolding r'_def by (rule dns_inv_resolve[OF Cons.prems res])
      have "pool_inv (dns_state r)" using Cons.prems by (simp add: dns_inv_def)
      then have m: "eq_ignore_ascii_case h ''localhost'' \<or> ip = fallback \<or> host_of (dns_state r') ip = Some h"
        using resolve_for_maps res by (fastforce simp: r'_def)
      show ?thesis
      proof (cases "handle_query data ip")
        case None
        then show ?thesis
          using Cons.IH[OF I] Some ds host res by (simp add: r'_def)
      next
        case (Some hr)
        obtain g response where hr: "hr = (g, response)" by fastforce
        have "dns_inv (r'\<lparr>dns_sent := dns_sent r' @ [(response, sender)], dns_audit := dns_audit r' @ [g]\<rparr>)"
          using dns_inv_send[OF I, of data ip g response sender] Some hr host m by simp
        from Cons.IH[OF this] show ?thesis
          using \<open>d = Some ds\<close> Some hr ds host res by (simp add: r'_def)
      qed
    qed
  qed
qed simp

end

subsection \<open>Properties\<close>

text \<open>
  C30: the DNS server answers exactly the standard questions. A packet is answered iff it is a
  12-octet header with QR and OPCODE zero and one question, an encoded name of 1 to 63 byte labels
  with at most 253 bytes, a type and the class IN; the answer repeats identifier and question and,
  for type A, gives the chosen address (the loopback address for localhost). The name that is used
  to choose the address is the name that is answered.
\<close>
theorem dns_answers_exactly:
  "(handle_query packet ip = Some (host, response) \<longleftrightarrow>
     (\<exists>header ls tc rest. packet = query_packet header ls tc rest \<and> length header = 12 \<and> length tc = 4
        \<and> name_ok ls \<and> standard_query header \<and> u16_from_be (tc ! 2) (tc ! 3) = 1
        \<and> host = host_of_name ls \<and> response = dns_answer header ls tc ip))
   \<and> (handle_query packet ip = Some (host, response) \<longrightarrow> query_hostname packet = Some host)"
proof -
  have "\<exists>header ls tc rest. packet = query_packet header ls tc rest \<and> length header = 12 \<and> length tc = 4
        \<and> name_ok ls \<and> standard_query header \<and> u16_from_be (tc ! 2) (tc ! 3) = 1
        \<and> host = host_of_name ls \<and> response = dns_answer header ls tc ip"
    if h: "handle_query packet ip = Some (host, response)"
  proof -
    obtain header ls tc rest where p: "packet = query_packet header ls tc rest" "length header = 12"
        "length tc = 4" "name_ok ls"
      by (rule query_hostname_Some[OF handle_query_hostname[OF h]])
    then show ?thesis using h handle_query_packet[OF p(2-4), of rest ip] by (auto split: if_splits)
  qed
  moreover have "handle_query packet ip = Some (host, response)"
    if "packet = query_packet header ls tc rest" "length header = 12" "length tc = 4"
      "name_ok ls" "standard_query header" "u16_from_be (tc ! 2) (tc ! 3) = 1"
      "host = host_of_name ls" "response = dns_answer header ls tc ip" for header ls tc rest
    using that handle_query_packet[of header tc ls rest ip] by simp
  ultimately show ?thesis using handle_query_hostname[of packet ip host response] by blast
qed

theorem dns_answers_exactly_witness:
  "\<exists>r. handle_query ([0xAB, 0xCD, 1, 0, 0, 1, 0, 0, 0, 0, 0, 0] @ encode_name [''a'', ''test''] @ [0, 1, 0, 1])
     (192, 168, 127, 10) = Some (''a.test'', r)
     \<and> query_hostname ([0xAB, 0xCD, 1, 0, 0, 1, 0, 0, 0, 0, 0, 0] @ encode_name [''a'', ''test''] @ [0, 1, 0, 1])
         = Some ''a.test''"
proof -
  let ?h = "[0xAB, 0xCD, 1, 0, 0, 1, 0, 0, 0, 0, 0, 0] :: octet list"
  have q: "length ?h = 12" "length [0, 1, 0, 1 :: octet] = 4" "name_ok [''a'', ''test'']" "standard_query ?h"
    "u16_from_be ([0, 1, 0, 1] ! 2) ([0, 1, 0, 1] ! 3) = 1" "''a.test'' = host_of_name [''a'', ''test'']"
    by code_simp+
  have p: "?h @ encode_name [''a'', ''test''] @ [0, 1, 0, 1] = query_packet ?h [''a'', ''test''] [0, 1, 0, 1] []"
    by (simp add: query_packet_def)
  have "handle_query (?h @ encode_name [''a'', ''test''] @ [0, 1, 0, 1]) (192, 168, 127, 10)
      = Some (''a.test'', dns_answer ?h [''a'', ''test''] [0, 1, 0, 1] (192, 168, 127, 10))"
    unfolding dns_answers_exactly[THEN conjunct1] using p q by blast
  then show ?thesis using dns_answers_exactly by blast
qed

text \<open>
  C29: in a session of DNS queries every answer sent for a name other than localhost carries an
  address of the host pool that maps back to that name, or the gateway address when the pool is
  exhausted, so a guest connection to it can be attributed; the addresses handed to the network
  interface are pairwise different, all mapped, and inside 192.168.127.10--254.
\<close>
theorem dns_session_sound:
  "let r = process_dns alloc queue \<lparr>dns_state = new_host_map, dns_new_ips = [], dns_sent = [], dns_audit = []\<rparr>
   in host_map_inv (dns_state r)
      \<and> list_all (\<lambda>(resp, a). answer_ok (hostname_for_ip (dns_state r)) GATEWAY_IP resp) (dns_sent r)
      \<and> distinct (dns_new_ips r)
      \<and> list_all (\<lambda>ip. hostname_for_ip (dns_state r) ip \<noteq> None \<and> in_pool (dns_state r) ip) (dns_new_ips r)"
proof -
  define r where "r = process_dns alloc queue
      \<lparr>dns_state = new_host_map, dns_new_ips = [], dns_sent = [], dns_audit = []\<rparr>"
  have "hm.dns_inv r" unfolding r_def
    by (rule hm.dns_inv_process) (simp add: hm.dns_inv_def new_host_map_inv)
  then show ?thesis
    using host_map_invD(2)[of "dns_state r"]
    by (fastforce simp: hm.dns_inv_def r_def[symmetric] list_all_iff hostname_for_ip_def)
qed

end
