(* ===== verification/NetDev.thy ===== *)
theory NetDev
  imports Prelude
begin

text \<open>
  The virtio network device, \<^verbatim>\<open>src/src/net.rs\<close>: Ethernet frames with a 4-octet big-endian length
  over a Unix stream socket. The socket keeps the octets that have arrived (\<open>rx\<close>), those that are
  still to arrive (\<open>rx_later\<close>), how the stream ends (\<open>rx_end\<close>, \<open>None\<close> while the peer is silent),
  the octets sent and the room left in the send buffer. A read that waits forever is \<open>None\<close>.
  \<^verbatim>\<open>read_exact\<close> and \<^verbatim>\<open>write_all\<close> are those of the standard library: on an error the octets already
  moved are gone.
\<close>

datatype io_error = WouldBlock | UnexpectedEof | ConnectionReset | BrokenPipe | OtherError

record unix_socket =
  rx :: "octet list"
  rx_later :: "octet list"
  rx_end :: "io_error option"
  tx_sent :: "octet list"
  tx_room :: nat
  tx_broken :: bool
  nonblocking_fails :: bool

record net_device =
  sock :: unix_socket
  pending_rx :: "octet list option"
  pending_tx :: "octet list list"
  peer_closed :: bool

definition new_device :: "unix_socket \<Rightarrow> io_error + net_device" where
  "new_device s = (if nonblocking_fails s then Inl OtherError
     else Inr \<lparr>sock = s, pending_rx = None, pending_tx = [], peer_closed = False\<rparr>)"

text \<open>Standard library: exact reads in the two modes, and a write into a bounded buffer.\<close>

definition read_exact_nonblocking :: "nat \<Rightarrow> unix_socket \<Rightarrow> (io_error + octet list) \<times> unix_socket" where
  "read_exact_nonblocking n s =
     (if n \<le> length (rx s) then (Inr (take n (rx s)), s\<lparr>rx := drop n (rx s)\<rparr>)
      else (Inl (case rx_end s of Some e \<Rightarrow> if rx_later s = [] then e else WouldBlock | None \<Rightarrow> WouldBlock),
            s\<lparr>rx := []\<rparr>))"

definition read_exact_blocking :: "nat \<Rightarrow> unix_socket \<Rightarrow> ((io_error + octet list) \<times> unix_socket) option" where
  "read_exact_blocking n s =
     (let bytes = rx s @ rx_later s
      in if n \<le> length bytes
         then Some (Inr (take n bytes),
                s\<lparr>rx := drop n (rx s), rx_later := drop (n - length (rx s)) (rx_later s)\<rparr>)
         else (case rx_end s of
                 None \<Rightarrow> None
               | Some e \<Rightarrow> Some (Inl e, s\<lparr>rx := [], rx_later := []\<rparr>)))"

definition write_all_nonblocking :: "octet list \<Rightarrow> unix_socket \<Rightarrow> bool \<times> unix_socket" where
  "write_all_nonblocking bytes s =
     (if tx_broken s then (False, s)
      else (length bytes \<le> tx_room s,
            s\<lparr>tx_sent := tx_sent s @ take (tx_room s) bytes, tx_room := tx_room s - length bytes\<rparr>))"

definition u32_to_be :: "nat \<Rightarrow> octet list" where
  "u32_to_be n = [of_nat (n div 16777216), of_nat (n div 65536), of_nat (n div 256), of_nat n]"

definition u32_from_be :: "octet list \<Rightarrow> nat" where
  "u32_from_be bs = foldl (\<lambda>n b. 256 * n + unat b) 0 bs"

definition encode_frame :: "octet list \<Rightarrow> octet list" where
  "encode_frame f = u32_to_be (length f) @ f"

fun flush_frames :: "octet list list \<Rightarrow> unix_socket \<Rightarrow> octet list list \<times> unix_socket" where
  "flush_frames [] s = ([], s)"
| "flush_frames (frame # rest) s =
     (if length frame \<ge> 2 ^ 32 then (rest, s)
      else (case write_all_nonblocking (u32_to_be (length frame)) s of
          (False, s) \<Rightarrow> (rest, s)
        | (True, s) \<Rightarrow> (case write_all_nonblocking frame s of
            (False, s) \<Rightarrow> (rest, s)
          | (True, s) \<Rightarrow> flush_frames rest s)))"

definition flush_tx :: "net_device \<Rightarrow> net_device" where
  "flush_tx d = (case flush_frames (pending_tx d) (sock d) of
      (rest, s) \<Rightarrow> d\<lparr>pending_tx := rest, sock := s\<rparr>)"

definition MAX_FRAME :: nat where
  "MAX_FRAME = 65536"

definition try_recv_frame :: "net_device \<Rightarrow> (octet list option \<times> net_device) option" where
  "try_recv_frame d =
     (case read_exact_nonblocking 4 (sock d) of
        (Inl e, s) \<Rightarrow>
          Some (None, d\<lparr>sock := s, peer_closed := peer_closed d \<or>
                          (e = UnexpectedEof \<or> e = ConnectionReset \<or> e = BrokenPipe)\<rparr>)
      | (Inr len_buf, s) \<Rightarrow>
          (let frame_len = u32_from_be len_buf
           in if frame_len > MAX_FRAME then Some (None, d\<lparr>sock := s, peer_closed := True\<rparr>)
              else if nonblocking_fails s then Some (None, d\<lparr>sock := s, peer_closed := True\<rparr>)
              else (case read_exact_blocking frame_len s of
                  None \<Rightarrow> None
                | Some (Inr buf, s) \<Rightarrow> Some (Some buf, d\<lparr>sock := s\<rparr>)
                | Some (Inl e, s) \<Rightarrow> Some (None, d\<lparr>sock := s\<rparr>))))"

text \<open>The \<^verbatim>\<open>Device\<close> implementation: a received frame is handed over in a token, and a transmit token
  appends the buffer that the stack fills.\<close>

definition receive :: "net_device \<Rightarrow> (octet list option \<times> net_device) option" where
  "receive d =
     (case (if pending_rx d = None
            then map_option (\<lambda>(f, d). d\<lparr>pending_rx := f\<rparr>) (try_recv_frame d) else Some d) of
        None \<Rightarrow> None
      | Some d \<Rightarrow> Some (pending_rx d, d\<lparr>pending_rx := None\<rparr>))"

definition transmit_consume :: "nat \<Rightarrow> (octet list \<Rightarrow> 'r \<times> octet list) \<Rightarrow> net_device \<Rightarrow> 'r \<times> net_device" where
  "transmit_consume n f d = (case f (replicate n 0) of
      (result, buf) \<Rightarrow> (result, d\<lparr>pending_tx := pending_tx d @ [buf]\<rparr>))"

record device_capabilities =
  max_transmission_unit :: nat
  max_burst_size :: "nat option"

definition capabilities :: device_capabilities where
  "capabilities = \<lparr>max_transmission_unit = 1500, max_burst_size = Some 1\<rparr>"

subsection \<open>Frames on the wire\<close>

lemma length_u32 [simp]: "length (u32_to_be n) = 4"
  by (simp add: u32_to_be_def)

lemma u32_inverse: "n < 2 ^ 32 \<Longrightarrow> u32_from_be (u32_to_be n) = n"
proof -
  assume n: "n < 2 ^ 32"
  have "n div 16777216 < 256" using n by (simp add: less_mult_imp_div_less)
  then have "n div 16777216 mod 256 = n div 16777216" by simp
  moreover have "n div 65536 = 256 * (n div 16777216) + n div 65536 mod 256"
    using div_mult2_eq[of n 65536 256] mult_div_mod_eq[of 256 "n div 65536"] by simp
  moreover have "n div 256 = 256 * (n div 65536) + n div 256 mod 256"
    using div_mult2_eq[of n 256 256] mult_div_mod_eq[of 256 "n div 256"] by simp
  moreover have "n = 256 * (n div 256) + n mod 256" by simp
  ultimately have "256 * (256 * (256 * (n div 16777216 mod 256) + n div 65536 mod 256) + n div 256 mod 256) + n mod 256 = n"
    by presburger
  then show ?thesis using \<open>n div 16777216 mod 256 = n div 16777216\<close>
    by (simp add: u32_from_be_def u32_to_be_def unat_of_nat)
qed

lemma write_all_room:
  "\<not> tx_broken s \<Longrightarrow> length bytes \<le> tx_room s \<Longrightarrow>
   write_all_nonblocking bytes s
     = (True, s\<lparr>tx_sent := tx_sent s @ bytes, tx_room := tx_room s - length bytes\<rparr>)"
  by (simp add: write_all_nonblocking_def)

lemma flush_frames_room:
  "\<not> tx_broken s \<Longrightarrow> list_all (\<lambda>f. length f < 2 ^ 32) fs \<Longrightarrow>
   length (concat (map encode_frame fs)) \<le> tx_room s \<Longrightarrow>
   flush_frames fs s = ([], s\<lparr>tx_sent := tx_sent s @ concat (map encode_frame fs),
      tx_room := tx_room s - length (concat (map encode_frame fs))\<rparr>)"
proof (induction fs arbitrary: s)
  case (Cons f fs)
  let ?s1 = "s\<lparr>tx_sent := tx_sent s @ u32_to_be (length f), tx_room := tx_room s - 4\<rparr>"
  let ?s2 = "?s1\<lparr>tx_sent := tx_sent ?s1 @ f, tx_room := tx_room ?s1 - length f\<rparr>"
  have 1: "write_all_nonblocking (u32_to_be (length f)) s = (True, ?s1)"
    using Cons.prems write_all_room[of s "u32_to_be (length f)"] by (simp add: encode_frame_def)
  have 2: "write_all_nonblocking f ?s1 = (True, ?s2)"
    using Cons.prems by (intro write_all_room) (simp_all add: encode_frame_def)
  have "flush_frames (f # fs) s = flush_frames fs ?s2"
    using Cons.prems 1 2 by (simp del: unix_socket.update_convs)
  also have "flush_frames fs ?s2 = ([], ?s2\<lparr>tx_sent := tx_sent ?s2 @ concat (map encode_frame fs),
      tx_room := tx_room ?s2 - length (concat (map encode_frame fs))\<rparr>)"
    using Cons.prems by (intro Cons.IH) (simp_all add: encode_frame_def)
  finally show ?case by (simp add: encode_frame_def[of f] add.assoc del: flush_frames.simps)
qed simp

text \<open>Reading one frame from a stream that starts with it, whatever part has arrived beyond the
  length prefix.\<close>

lemma try_recv_frame_encoded:
  assumes "rx (sock d) @ rx_later (sock d) = encode_frame f @ rest" "4 \<le> length (rx (sock d))"
    "length f \<le> MAX_FRAME" "\<not> nonblocking_fails (sock d)"
  shows "\<exists>s. try_recv_frame d = Some (Some f, d\<lparr>sock := s\<rparr>) \<and> rx s @ rx_later s = rest
    \<and> nonblocking_fails s = nonblocking_fails (sock d) \<and> rx_end s = rx_end (sock d)
    \<and> (rx_later (sock d) = [] \<longrightarrow> rx_later s = [])"
proof -
  let ?s = "sock d"
  have pre: "take 4 (rx ?s) = u32_to_be (length f)"
  proof -
    have "take 4 (rx ?s) = take 4 (rx ?s @ rx_later ?s)" using assms(2) by simp
    then show ?thesis by (simp add: assms(1) encode_frame_def)
  qed
  have rest: "drop 4 (rx ?s) @ rx_later ?s = f @ rest"
  proof -
    have "drop 4 (rx ?s @ rx_later ?s) = drop 4 (rx ?s) @ rx_later ?s" using assms(2) by simp
    then show ?thesis by (simp add: assms(1) encode_frame_def)
  qed
  define s1 where "s1 = ?s\<lparr>rx := drop 4 (rx ?s)\<rparr>"
  define s2 where "s2 = s1\<lparr>rx := drop (length f) (rx s1), rx_later := drop (length f - length (rx s1)) (rx_later s1)\<rparr>"
  have "read_exact_nonblocking 4 ?s = (Inr (u32_to_be (length f)), s1)"
    using assms(2) pre by (simp add: read_exact_nonblocking_def s1_def)
  moreover have "u32_from_be (u32_to_be (length f)) = length f"
    using assms(3) by (intro u32_inverse) (simp add: MAX_FRAME_def)
  moreover have "rx s1 @ rx_later s1 = f @ rest" using rest by (simp add: s1_def)
  then have "read_exact_blocking (length f) s1 = Some (Inr f, s2)"
    by (simp add: read_exact_blocking_def s2_def Let_def)
  moreover have "rx s2 @ rx_later s2 = rest"
    using arg_cong[OF \<open>rx s1 @ rx_later s1 = f @ rest\<close>, of "drop (length f)"] by (simp add: s2_def)
  moreover have "\<not> nonblocking_fails s1" "nonblocking_fails s2 = nonblocking_fails ?s" "rx_end s2 = rx_end ?s"
    "rx_later ?s = [] \<longrightarrow> rx_later s2 = []"
    using assms(4) by (simp_all add: s1_def s2_def)
  moreover have "try_recv_frame d = Some (Some f, d\<lparr>sock := s2\<rparr>)"
    using calculation(1-3,5) assms(3) by (simp add: try_recv_frame_def)
  ultimately show ?thesis by blast
qed

subsection \<open>Properties\<close>

fun recv_frames :: "nat \<Rightarrow> net_device \<Rightarrow> octet list list option" where
  "recv_frames 0 d = Some []"
| "recv_frames (Suc n) d =
     (case try_recv_frame d of
        Some (Some f, d) \<Rightarrow> map_option ((#) f) (recv_frames n d)
      | _ \<Rightarrow> None)"

definition arrived :: "octet list \<Rightarrow> net_device \<Rightarrow> bool" where
  "arrived bytes d \<longleftrightarrow> rx (sock d) = bytes \<and> rx_later (sock d) = [] \<and> \<not> nonblocking_fails (sock d)"

lemma recv_frames_arrived:
  "arrived (concat (map encode_frame fs)) d \<Longrightarrow> list_all (\<lambda>f. length f \<le> MAX_FRAME) fs \<Longrightarrow>
   recv_frames (length fs) d = Some fs"
proof (induction fs arbitrary: d)
  case (Cons f fs)
  have "\<exists>s. try_recv_frame d = Some (Some f, d\<lparr>sock := s\<rparr>) \<and> rx s @ rx_later s = concat (map encode_frame fs)
    \<and> nonblocking_fails s = nonblocking_fails (sock d) \<and> rx_end s = rx_end (sock d)
    \<and> (rx_later (sock d) = [] \<longrightarrow> rx_later s = [])"
    using Cons.prems by (intro try_recv_frame_encoded) (auto simp: arrived_def encode_frame_def[of f])
  then obtain s where s: "try_recv_frame d = Some (Some f, d\<lparr>sock := s\<rparr>)"
    "rx s @ rx_later s = concat (map encode_frame fs)" "\<not> nonblocking_fails s" "rx_later s = []"
    using Cons.prems by (auto simp: arrived_def)
  then have "arrived (concat (map encode_frame fs)) (d\<lparr>sock := s\<rparr>)" using s by (simp add: arrived_def)
  then show ?case using s Cons by simp
qed simp

text \<open>
  Frames survive the wire. When the send buffer has room, \<^verbatim>\<open>flush_tx\<close> sends every queued frame
  and the device at the other end receives exactly these frames in order.
\<close>
lemma frames_roundtrip:
  assumes "list_all (\<lambda>f. length f \<le> MAX_FRAME) (pending_tx d)" "\<not> tx_broken (sock d)" "tx_sent (sock d) = []"
    "length (concat (map encode_frame (pending_tx d))) \<le> tx_room (sock d)"
    "arrived (tx_sent (sock (flush_tx d))) e"
  shows "pending_tx (flush_tx d) = [] \<and> recv_frames (length (pending_tx d)) e = Some (pending_tx d)"
proof -
  have "list_all (\<lambda>f. length f < 2 ^ 32) (pending_tx d)"
    using assms(1) by (auto simp: list_all_iff MAX_FRAME_def)
  from flush_frames_room[OF assms(2) this assms(4)]
  have "pending_tx (flush_tx d) = []"
    "tx_sent (sock (flush_tx d)) = concat (map encode_frame (pending_tx d))"
    using assms(3) by (simp_all add: flush_tx_def)
  then show ?thesis using assms(1,5) recv_frames_arrived[of "pending_tx d" e] by simp
qed

definition demo_socket :: "octet list \<Rightarrow> nat \<Rightarrow> unix_socket" where
  "demo_socket bytes room = \<lparr>rx = bytes, rx_later = [], rx_end = None, tx_sent = [], tx_room = room,
     tx_broken = False, nonblocking_fails = False\<rparr>"

definition demo_device :: "octet list \<Rightarrow> nat \<Rightarrow> octet list list \<Rightarrow> net_device" where
  "demo_device bytes room fs = \<lparr>sock = demo_socket bytes room, pending_rx = None, pending_tx = fs, peer_closed = False\<rparr>"

text \<open>
  No frame above 65536 octets is ever delivered. A longer announced length closes the peer and
  delivers nothing, an end of the stream closes the peer, and a missing length prefix delivers
  nothing.
\<close>
lemma received_frame_bounded:
  "try_recv_frame d = Some (Some f, d') \<Longrightarrow>
   length f \<le> MAX_FRAME \<and> 4 \<le> length (rx (sock d)) \<and> u32_from_be (take 4 (rx (sock d))) = length f
   \<and> peer_closed d' = peer_closed d"
  by (auto simp: try_recv_frame_def read_exact_nonblocking_def read_exact_blocking_def Let_def
      split: if_splits option.splits sum.splits)

text \<open>When the send buffer is full in the middle of a frame, \<^verbatim>\<open>flush_tx\<close> drops the rest of it and the
  next frame is read by the peer as its remainder: here [9, 9] is never received, a frame made of
  both is.\<close>

lemma flush_tx_desynchronizes:
  "(let d1 = flush_tx (demo_device [] 5 [[1, 2, 3, 4, 5, 6]]);
        d2 = flush_tx (d1\<lparr>sock := (sock d1)\<lparr>tx_room := 100\<rparr>, pending_tx := [[9, 9]]\<rparr>)
    in tx_sent (sock d2) = [0, 0, 0, 6, 1, 0, 0, 0, 2, 9, 9]
       \<and> recv_frames 1 (demo_device (tx_sent (sock d2)) 0 []) = Some [[1, 0, 0, 0, 2, 9]])"
  by (simp add: demo_device_def demo_socket_def flush_tx_def write_all_nonblocking_def u32_to_be_def
      try_recv_frame_def read_exact_nonblocking_def read_exact_blocking_def u32_from_be_def MAX_FRAME_def)

end
