(* ===== verification/Proxy.thy ===== *)
theory Proxy
  imports TlsThread Dns Forward NetDev "HOL-Library.AList" "HOL-Library.List_Lexorder" "HOL-Library.Char_ord"
begin

text \<open>
  The poll loop of the proxy, \<^verbatim>\<open>run\<close> of \<^verbatim>\<open>src/src/proxy.rs\<close>: the listeners with their backlogs, the
  acceptance of connections (with the allowlist check for SSH, which has no SNI), the DNS step, the
  turn of every connection and the removal of finished ones; and the audit log. The smoltcp stack is
  a parameter: what a poll does to the sockets, the slot a new socket gets and the socket
  operations. What the threads do with their ends of the channels between two turns, and the hosts
  they discover, are inputs of a turn.
\<close>

definition MAX_CONNECTIONS :: nat where
  "MAX_CONNECTIONS = 128"

definition LISTEN_BACKLOG :: nat where
  "LISTEN_BACKLOG = 32"

subsection \<open>Audit events\<close>

definition event_severity :: "string \<Rightarrow> string" where
  "event_severity event = (if event = ''reject'' \<or> event = ''warn'' then ''warning'' else ''info'')"

fun insert_field :: "string \<Rightarrow> string \<Rightarrow> (string \<times> string) list \<Rightarrow> (string \<times> string) list" where
  "insert_field k v [] = [(k, v)]"
| "insert_field k v ((k', v') # kvs) = (if k' = k then (k, v) # kvs else (k', v') # insert_field k v kvs)"

definition audit_record :: "string \<Rightarrow> audit_event \<Rightarrow> (string \<times> string) list" where
  "audit_record ts ev =
     foldl (\<lambda>m (k, v). insert_field k v m)
       (insert_field ''severity'' (event_severity (fst ev))
         (insert_field ''event'' (fst ev) (insert_field ''ts'' ts [])))
       (snd ev)"

text \<open>One line per event; the serializer and the success of the write are parameters.\<close>

definition audit :: "((string \<times> string) list \<Rightarrow> string) \<Rightarrow> string \<Rightarrow> bool \<Rightarrow> bytes option \<Rightarrow> audit_event \<Rightarrow> bytes option" where
  "audit to_json ts write_ok log ev =
     (case log of
        None \<Rightarrow> None
      | Some file \<Rightarrow> Some (if write_ok then file @ to_json (audit_record ts ev) @ [CHR 0x0A] else file))"

subsection \<open>State of the loop\<close>

datatype backlog_kind = B_http | B_tls | B_ssh | B_forward "16 word"

record backlog =
  bl_port :: "16 word"
  bl_kind :: backlog_kind
  bl_handles :: "nat list"

record 's listen_ops =
  l_may_recv :: "'s \<Rightarrow> bool"
  l_listening :: "'s \<Rightarrow> bool"
  l_local_ip :: "'s \<Rightarrow> ipv4 option"
  l_close :: "'s \<Rightarrow> 's"
  l_new :: "16 word \<Rightarrow> 's"
  l_slot :: "nat list \<Rightarrow> nat"

record 's proxy_loop =
  socks :: "(nat \<times> 's) list"
  conns :: "(nat \<times> proxy_conn) list"
  threads :: "(nat \<times> conn_kind) list"
  backlogs :: "backlog list"
  hosts :: host_map
  iface_ips :: "ipv4 list"
  loop_events :: "audit_event list"
  found :: "string list"

definition add_tcp_listener :: "'s listen_ops \<Rightarrow> 16 word \<Rightarrow> 's proxy_loop \<Rightarrow> nat \<times> 's proxy_loop" where
  "add_tcp_listener ops port st =
     (let h = l_slot ops (map fst (socks st)) in (h, st\<lparr>socks := socks st @ [(h, l_new ops port)]\<rparr>))"

fun add_listeners :: "'s listen_ops \<Rightarrow> 16 word \<Rightarrow> nat \<Rightarrow> 's proxy_loop \<Rightarrow> nat list \<times> 's proxy_loop" where
  "add_listeners ops port 0 st = ([], st)"
| "add_listeners ops port (Suc n) st =
     (case add_tcp_listener ops port st of (h, st) \<Rightarrow>
      case add_listeners ops port n st of (hs, st) \<Rightarrow> (h # hs, st))"

definition add_backlog :: "'s listen_ops \<Rightarrow> 16 word \<Rightarrow> backlog_kind \<Rightarrow> nat \<Rightarrow> 's proxy_loop \<Rightarrow> 's proxy_loop" where
  "add_backlog ops port kind n st =
     (case add_listeners ops port n st of (hs, st) \<Rightarrow>
        st\<lparr>backlogs := backlogs st @ [\<lparr>bl_port = port, bl_kind = kind, bl_handles = hs\<rparr>]\<rparr>)"

definition proxy_setup :: "'s listen_ops \<Rightarrow> nat \<times> 's \<Rightarrow> forward_spec list \<Rightarrow> 's proxy_loop" where
  "proxy_setup ops dns forwards =
     (let st = \<lparr>socks = [dns], conns = [], threads = [], backlogs = [], hosts = new_host_map,
                iface_ips = [GATEWAY_IP], loop_events = [], found = []\<rparr>;
          st = add_backlog ops 80 B_http 4 st;
          st = add_backlog ops 443 B_tls LISTEN_BACKLOG st;
          st = add_backlog ops 22 B_ssh LISTEN_BACKLOG st
      in foldl (\<lambda>st f. add_backlog ops (guest_port f) (B_forward (host_port f)) LISTEN_BACKLOG st) st forwards)"

definition effective_allowlist :: "bool \<Rightarrow> string list option \<Rightarrow> string list option" where
  "effective_allowlist discover allowed = (if discover then None else allowed)"

subsection \<open>Accepting connections\<close>

datatype accept_decision = Accept conn_kind | Refuse_blocked string | Refuse_unknown

definition ssh_decision :: "string list option \<Rightarrow> string option \<Rightarrow> accept_decision" where
  "ssh_decision allowed hostname =
     (case hostname of
        None \<Rightarrow> Refuse_unknown
      | Some h \<Rightarrow> if \<not> host_allowed allowed h then Refuse_blocked h
                  else Accept (Ssh_relay h (explicitly_allowed allowed h)))"

definition accept_decision :: "string list option \<Rightarrow> host_map \<Rightarrow> backlog_kind \<Rightarrow> ipv4 option \<Rightarrow> accept_decision" where
  "accept_decision allowed m kind dest =
     (case kind of
        B_http \<Rightarrow> Accept Http
      | B_tls \<Rightarrow> Accept Tls_mitm
      | B_forward p \<Rightarrow> Accept (Tcp_forward p)
      | B_ssh \<Rightarrow> ssh_decision allowed (Option.bind dest (hostname_for_ip m)))"

definition close_handle :: "'s listen_ops \<Rightarrow> nat \<Rightarrow> 's proxy_loop \<Rightarrow> 's proxy_loop" where
  "close_handle ops h st = st\<lparr>socks := map (\<lambda>(h', s). (h', if h' = h then l_close ops s else s)) (socks st)\<rparr>"

definition accept_into :: "nat \<Rightarrow> conn_kind \<Rightarrow> 's proxy_loop \<Rightarrow> 's proxy_loop" where
  "accept_into h kind st =
     (case new_conn h kind of (conn, thread) \<Rightarrow>
        st\<lparr>conns := AList.update h conn (conns st),
           threads := threads st @ (case thread of None \<Rightarrow> [] | Some k \<Rightarrow> [(h, k)])\<rparr>)"

text \<open>One listener of a backlog: the handle that takes its place, and the new state.\<close>

definition accept_handle ::
  "'s listen_ops \<Rightarrow> bool \<Rightarrow> string list option \<Rightarrow> 16 word \<Rightarrow> backlog_kind \<Rightarrow> nat \<Rightarrow> 's proxy_loop \<Rightarrow> nat \<times> 's proxy_loop" where
  "accept_handle ops discover allowed port kind h st =
     (case map_of (socks st) h of
        None \<Rightarrow> (h, st)
      | Some s \<Rightarrow>
          if \<not> (l_may_recv ops s \<and> \<not> l_listening ops s) then (h, st)
          else if length (conns st) \<ge> MAX_CONNECTIONS
          then add_tcp_listener ops port (close_handle ops h st)
          else (case accept_decision allowed (hosts st) kind (l_local_ip ops s) of
              Refuse_unknown \<Rightarrow> add_tcp_listener ops 22 (close_handle ops h st)
            | Refuse_blocked host \<Rightarrow>
                add_tcp_listener ops 22
                  (close_handle ops h
                    (st\<lparr>loop_events := loop_events st @ [(''reject'', [(''host'', host), (''reason'', ''not_allowed'')])]\<rparr>))
            | Accept k \<Rightarrow>
                (let st = (case k of Ssh_relay host p \<Rightarrow>
                             if discover then st\<lparr>found := insort_insert host (found st)\<rparr> else st | _ \<Rightarrow> st)
                 in add_tcp_listener ops port (accept_into h k st))))"

fun accept_handles ::
  "'s listen_ops \<Rightarrow> bool \<Rightarrow> string list option \<Rightarrow> 16 word \<Rightarrow> backlog_kind \<Rightarrow> nat list \<Rightarrow> 's proxy_loop \<Rightarrow> nat list \<times> 's proxy_loop" where
  "accept_handles ops discover allowed port kind [] st = ([], st)"
| "accept_handles ops discover allowed port kind (h # hs) st =
     (case accept_handle ops discover allowed port kind h st of (h', st) \<Rightarrow>
      case accept_handles ops discover allowed port kind hs st of (hs', st) \<Rightarrow> (h' # hs', st))"

fun accept_backlogs :: "'s listen_ops \<Rightarrow> bool \<Rightarrow> string list option \<Rightarrow> backlog list \<Rightarrow> 's proxy_loop \<Rightarrow> backlog list \<times> 's proxy_loop" where
  "accept_backlogs ops discover allowed [] st = ([], st)"
| "accept_backlogs ops discover allowed (b # bs) st =
     (case accept_handles ops discover allowed (bl_port b) (bl_kind b) (bl_handles b) st of (hs, st) \<Rightarrow>
      case accept_backlogs ops discover allowed bs st of (bs', st) \<Rightarrow> (b\<lparr>bl_handles := hs\<rparr> # bs', st))"

subsection \<open>One turn of the loop\<close>

text \<open>Newly allocated addresses join the interface while its address table has room.\<close>

fun add_ips :: "nat \<Rightarrow> ipv4 list \<Rightarrow> ipv4 list \<Rightarrow> ipv4 list" where
  "add_ips capacity [] addrs = addrs"
| "add_ips capacity (ip # ips) addrs =
     add_ips capacity ips
       (if ip \<notin> set (tl addrs) \<and> length addrs < capacity then addrs @ [ip] else addrs)"

record ('s, 'a) turn_input =
  in_elapsed :: nat
  in_peer_closed :: bool
  in_sends :: "nat \<Rightarrow> chan \<Rightarrow> chan"
  in_takes :: "nat \<Rightarrow> chan \<Rightarrow> chan"
  in_found :: "string list"
  in_poll :: "(nat \<times> 's) list \<Rightarrow> (nat \<times> 's) list"
  in_changed :: bool
  in_queries :: "(octet list \<times> 'a) option list"

definition threads_turn :: "(nat \<Rightarrow> chan \<Rightarrow> chan) \<Rightarrow> (nat \<Rightarrow> chan \<Rightarrow> chan) \<Rightarrow> (nat \<times> proxy_conn) list \<Rightarrow> (nat \<times> proxy_conn) list" where
  "threads_turn sends takes cs =
     map (\<lambda>(h, c). (h, c\<lparr>from_thread := map_option (sends h) (from_thread c),
                        to_thread := map_option (takes h) (to_thread c)\<rparr>)) cs"

definition dns_turn :: "nat \<Rightarrow> (octet list \<times> 'a) option list \<Rightarrow> 's proxy_loop \<Rightarrow> 's proxy_loop \<times> (octet list \<times> 'a) list" where
  "dns_turn capacity queries st =
     (let r = process_dns alloc queries \<lparr>dns_state = hosts st, dns_new_ips = [], dns_sent = [], dns_audit = []\<rparr>
      in (st\<lparr>hosts := dns_state r, iface_ips := add_ips capacity (dns_new_ips r) (iface_ips st),
             loop_events := loop_events st @ map (\<lambda>h. (''dns'', [(''hostname'', h)])) (dns_audit r)\<rparr>,
          dns_sent r))"

fun shuttle_all :: "'s tcp_ops \<Rightarrow> (nat \<times> proxy_conn) list \<Rightarrow> (nat \<times> 's) list
    \<Rightarrow> ((nat \<times> proxy_conn) list \<times> (nat \<times> 's) list) option" where
  "shuttle_all ops [] ss = Some ([], ss)"
| "shuttle_all ops ((h, c) # cs) ss =
     (case map_of ss (handle c) of
        None \<Rightarrow> None
      | Some s \<Rightarrow>
          do {
            (s', c') \<leftarrow> shuttle_bytes ops s c;
            (cs', ss') \<leftarrow> shuttle_all ops cs (map (\<lambda>(h', s). (h', if h' = handle c then s' else s)) ss);
            Some ((h, c') # cs', ss')
          })"

text \<open>\<open>Inl\<close> ends the loop. The sleep between turns has no effect on the state.\<close>

definition proxy_turn ::
  "'s listen_ops \<Rightarrow> 's tcp_ops \<Rightarrow> nat \<Rightarrow> nat \<Rightarrow> bool \<Rightarrow> string list option \<Rightarrow> ('s, 'a) turn_input
     \<Rightarrow> 's proxy_loop \<Rightarrow> (string list + 's proxy_loop) option" where
  "proxy_turn lops tops capacity timeout discover allowed inp st =
     (if (timeout \<noteq> 0 \<and> in_elapsed inp > timeout) \<or> in_peer_closed inp then Some (Inl (found st))
      else (let st = st\<lparr>socks := in_poll inp (socks st),
                         conns := threads_turn (in_sends inp) (in_takes inp) (conns st),
                         found := fold insort_insert (in_found inp) (found st)\<rparr>;
                st = (if in_changed inp
                      then (case accept_backlogs lops discover allowed (backlogs st)
                                   (fst (dns_turn capacity (in_queries inp) st)) of
                              (bs, st) \<Rightarrow> st\<lparr>backlogs := bs\<rparr>)
                      else st)
            in do {
              (cs, ss) \<leftarrow> shuttle_all tops (conns st) (socks st);
              (case reap_done cs (map fst ss) of (cs, live) \<Rightarrow>
                 Some (Inr (st\<lparr>conns := cs, socks := filter (\<lambda>(h, s). h \<in> set live) ss\<rparr>)))
            }))"

text \<open>The whole loop, turn after turn.\<close>

fun proxy_turns ::
  "'s listen_ops \<Rightarrow> 's tcp_ops \<Rightarrow> nat \<Rightarrow> nat \<Rightarrow> bool \<Rightarrow> string list option \<Rightarrow> ('s, 'a) turn_input list
     \<Rightarrow> 's proxy_loop \<Rightarrow> (string list + 's proxy_loop) option" where
  "proxy_turns lops tops capacity timeout discover allowed [] st = Some (Inr st)"
| "proxy_turns lops tops capacity timeout discover allowed (inp # inps) st =
     do {
       r \<leftarrow> proxy_turn lops tops capacity timeout discover allowed inp st;
       (case r of
          Inl result \<Rightarrow> Some (Inl result)
        | Inr st \<Rightarrow> proxy_turns lops tops capacity timeout discover allowed inps st)
     }"

definition proxy_run ::
  "'s listen_ops \<Rightarrow> 's tcp_ops \<Rightarrow> nat \<Rightarrow> nat \<Rightarrow> bool \<Rightarrow> string list option \<Rightarrow> nat \<times> 's \<Rightarrow> forward_spec list
     \<Rightarrow> ('s, 'a) turn_input list \<Rightarrow> (string list + 's proxy_loop) option" where
  "proxy_run lops tops capacity timeout discover allowed dns forwards inps =
     proxy_turns lops tops capacity timeout discover (effective_allowlist discover allowed) inps
       (proxy_setup lops dns forwards)"

subsection \<open>The invariant of the loop\<close>

context host_pool
begin

lemma process_dns_keeps:
  "pool_inv (dns_state r) \<Longrightarrow> host_of (dns_state r) a = Some g \<Longrightarrow>
   host_of (dns_state (process_dns pool_alloc q r)) a = Some g \<and> pool_inv (dns_state (process_dns pool_alloc q r))"
proof (induction q arbitrary: r)
  case (Cons d q)
  have step: "pool_inv s' \<and> host_of s' a = Some g"
    if "resolve_for pool_alloc (dns_state r) h = (ip, fresh, s')" for h ip fresh s'
    using that Cons.prems resolve_for_inv resolve_for_keeps by blast
  show ?case
  proof (cases d)
    case (Some ds)
    obtain data sender where ds: "ds = (data, sender)" by fastforce
    show ?thesis
    proof (cases "query_hostname data")
      case host: (Some h)
      obtain ip fresh s' where res: "resolve_for pool_alloc (dns_state r) h = (ip, fresh, s')"
        using prod_cases3 by blast
      show ?thesis
        using Cons.IH step[OF res] Some ds host res by (simp add: Let_def split: option.splits prod.splits)
    qed (use Cons Some ds in simp)
  qed (use Cons in simp)
qed simp

lemma process_dns_inv: "pool_inv (dns_state r) \<Longrightarrow> pool_inv (dns_state (process_dns pool_alloc q r))"
proof (induction q arbitrary: r)
  case (Cons d q)
  show ?case
  proof (cases d)
    case (Some ds)
    obtain data sender where ds: "ds = (data, sender)" by fastforce
    show ?thesis
    proof (cases "query_hostname data")
      case host: (Some h)
      obtain ip fresh s' where res: "resolve_for pool_alloc (dns_state r) h = (ip, fresh, s')"
        using prod_cases3 by blast
      show ?thesis
        using Cons.IH resolve_for_inv[OF Cons.prems res] Some ds host res
        by (simp add: Let_def split: option.splits prod.splits)
    qed (use Cons Some ds in simp)
  qed (use Cons in simp)
qed simp

end

definition ssh_ok :: "string list option \<Rightarrow> host_map \<Rightarrow> nat \<times> conn_kind \<Rightarrow> bool" where
  "ssh_ok allowed m t \<longleftrightarrow>
     (case snd t of
        Ssh_relay host private \<Rightarrow> host_allowed allowed host \<and> private = explicitly_allowed allowed host
          \<and> (\<exists>ip. hostname_for_ip m ip = Some host)
      | _ \<Rightarrow> True)"

lemma ssh_ok_mono:
  "ssh_ok allowed m t \<Longrightarrow> (\<And>ip g. hostname_for_ip m ip = Some g \<Longrightarrow> hostname_for_ip m' ip = Some g) \<Longrightarrow>
   ssh_ok allowed m' t"
  unfolding ssh_ok_def by (cases "snd t"; simp only: conn_kind.case; blast)

text \<open>\<open>L\<close> are the handles that listen: of the backlogs, or of those being rebuilt.\<close>

definition loop_ok :: "string list option \<Rightarrow> nat list \<Rightarrow> 's proxy_loop \<Rightarrow> bool" where
  "loop_ok allowed L st \<longleftrightarrow>
     host_map_inv (hosts st) \<and> length (conns st) \<le> MAX_CONNECTIONS
     \<and> distinct (L @ map fst (conns st)) \<and> set (L @ map fst (conns st)) \<subseteq> set (map fst (socks st))
     \<and> distinct (map fst (socks st))
     \<and> list_all (\<lambda>(h, c). conn_inv c \<and> handle c = h) (conns st)
     \<and> list_all (ssh_ok allowed (hosts st)) (threads st)"

definition listeners :: "'s proxy_loop \<Rightarrow> nat list" where
  "listeners st = concat (map bl_handles (backlogs st))"

definition loop_inv :: "string list option \<Rightarrow> 's proxy_loop \<Rightarrow> bool" where
  "loop_inv allowed st \<longleftrightarrow> loop_ok allowed (listeners st) st"

definition fresh_slots :: "'s listen_ops \<Rightarrow> bool" where
  "fresh_slots ops \<longleftrightarrow> (\<forall>hs. l_slot ops hs \<notin> set hs)"

lemma add_listener_ok:
  assumes F: "fresh_slots ops" and I: "loop_ok allowed (A @ B) st"
    and r: "add_tcp_listener ops port st = (h, st')"
  shows "loop_ok allowed (A @ h # B) st'"
proof -
  have "l_slot ops (map fst (socks st)) \<notin> set (map fst (socks st))" using F unfolding fresh_slots_def by blast
  then have h: "h \<notin> set (map fst (socks st))" "st' = st\<lparr>socks := socks st @ [(h, l_new ops port)]\<rparr>"
    using r by (auto simp: add_tcp_listener_def Let_def simp del: set_map)
  then show ?thesis using I by (auto simp: loop_ok_def)
qed

lemma map_fst_close [simp]: "map fst (socks (close_handle ops h st)) = map fst (socks st)"
  by (auto simp: close_handle_def)

lemma loop_ok_close [simp]: "loop_ok allowed L (close_handle ops h st) = loop_ok allowed L st"
  by (simp add: loop_ok_def) (simp add: close_handle_def)

lemma loop_ok_events [simp]:
  "loop_ok allowed L (st\<lparr>loop_events := e\<rparr>) = loop_ok allowed L st"
  "loop_ok allowed L (st\<lparr>found := f\<rparr>) = loop_ok allowed L st"
  "loop_ok allowed L (st\<lparr>backlogs := b\<rparr>) = loop_ok allowed L st"
  by (simp_all add: loop_ok_def)

lemma loop_ok_drop: "loop_ok allowed (A @ h # B) st \<Longrightarrow> loop_ok allowed (A @ B) st"
  by (auto simp: loop_ok_def)

lemma update_fresh: "k \<notin> set (map fst xs) \<Longrightarrow> AList.update k v xs = xs @ [(k, v)]"
  by (induction xs) auto

lemma handle_new_conn [simp]: "handle (fst (new_conn h k)) = h"
  by (cases k) (simp_all add: new_conn_def Let_def)

lemma new_conn_thread: "snd (new_conn h k) = Some k' \<Longrightarrow> k' = k"
  by (cases k) (simp_all add: new_conn_def Let_def)

lemma accept_into_ok:
  assumes I: "loop_ok allowed (A @ h # B) st" and len: "length (conns st) < MAX_CONNECTIONS"
    and k: "ssh_ok allowed (hosts st) (h, k)"
  shows "loop_ok allowed (A @ B) (accept_into h k st)"
proof -
  obtain c t where n: "new_conn h k = (c, t)" by fastforce
  have c: "conn_inv c" "handle c = h" using new_conn_inv[of h k] handle_new_conn[of h k] n by simp_all
  have "h \<notin> set (map fst (conns st))" using I by (auto simp: loop_ok_def)
  then have u: "AList.update h c (conns st) = conns st @ [(h, c)]" by (rule update_fresh)
  have t: "list_all (ssh_ok allowed (hosts st)) (case t of None \<Rightarrow> [] | Some k' \<Rightarrow> [(h, k')])"
    using new_conn_thread[of h k] n k by (cases t) auto
  show ?thesis
    using I len c t by (auto simp: accept_into_def n u loop_ok_def)
qed

lemma accept_decision_ssh:
  "accept_decision allowed m kind dest = Accept k \<Longrightarrow> ssh_ok allowed m (h, k)"
  by (auto simp: accept_decision_def ssh_decision_def ssh_ok_def bind_eq_Some_conv simp del: split_paired_Ex
      split: backlog_kind.splits option.splits if_splits)

lemma accept_handle_ok:
  assumes F: "fresh_slots ops" and I: "loop_ok allowed (A @ h # B) st"
    and r: "accept_handle ops discover allowed port kind h st = (h', st')"
  shows "loop_ok allowed (A @ h' # B) st'"
proof -
  have "h \<in> fst ` set (socks st)" using I by (auto simp: loop_ok_def)
  then obtain s where s: "map_of (socks st) h = Some s"
    by (cases "map_of (socks st) h") (auto simp: map_of_eq_None_iff)
  have I': "loop_ok allowed (A @ B) st" using I by (rule loop_ok_drop)
  show ?thesis
  proof (cases "l_may_recv ops s \<and> \<not> l_listening ops s")
    case False
    then have "h' = h" "st' = st" using r s by (auto simp: accept_handle_def)
    then show ?thesis using I by simp
  next
    case ready: True
    show ?thesis
    proof (cases "length (conns st) \<ge> MAX_CONNECTIONS")
      case True
      then have "add_tcp_listener ops port (close_handle ops h st) = (h', st')"
        using r s ready by (simp add: accept_handle_def)
      from add_listener_ok[OF F _ this, of allowed A B] I' show ?thesis by simp
    next
      case room: False
      show ?thesis
      proof (cases "accept_decision allowed (hosts st) kind (l_local_ip ops s)")
        case Refuse_unknown
        then have "add_tcp_listener ops 22 (close_handle ops h st) = (h', st')"
          using r s ready room by (simp add: accept_handle_def)
        from add_listener_ok[OF F _ this, of allowed A B] I' show ?thesis by simp
      next
        case (Refuse_blocked host)
        then have "add_tcp_listener ops 22 (close_handle ops h
            (st\<lparr>loop_events := loop_events st @ [(''reject'', [(''host'', host), (''reason'', ''not_allowed'')])]\<rparr>)) = (h', st')"
          using r s ready room by (simp add: accept_handle_def)
        from add_listener_ok[OF F _ this, of allowed A B] I' show ?thesis by simp
      next
        case (Accept k)
        define st1 where "st1 = (case k of Ssh_relay host p \<Rightarrow>
             if discover then st\<lparr>found := insort_insert host (found st)\<rparr> else st | _ \<Rightarrow> st)"
        have st1: "loop_ok allowed (A @ h # B) st1" "length (conns st1) < MAX_CONNECTIONS" "hosts st1 = hosts st"
          using I room by (simp_all add: st1_def split: conn_kind.splits)
        have "loop_ok allowed (A @ B) (accept_into h k st1)"
          using accept_into_ok[OF st1(1,2)] accept_decision_ssh[OF Accept] st1(3) by simp
        moreover have "add_tcp_listener ops port (accept_into h k st1) = (h', st')"
          using r s ready room Accept by (simp add: accept_handle_def st1_def Let_def)
        ultimately show ?thesis using add_listener_ok[OF F] by blast
      qed
    qed
  qed
qed

lemma accept_handles_ok:
  assumes F: "fresh_slots ops"
  shows "loop_ok allowed (A @ hs @ B) st \<Longrightarrow> accept_handles ops discover allowed port kind hs st = (hs', st') \<Longrightarrow>
    loop_ok allowed (A @ hs' @ B) st'"
proof (induction hs arbitrary: A st hs' st')
  case (Cons h hs)
  obtain h1 st1 where 1: "accept_handle ops discover allowed port kind h st = (h1, st1)" by fastforce
  obtain hs2 st2 where 2: "accept_handles ops discover allowed port kind hs st1 = (hs2, st2)" by fastforce
  have "loop_ok allowed (A @ h1 # hs @ B) st1"
    using accept_handle_ok[OF F, of allowed A h "hs @ B"] Cons.prems(1) 1 by simp
  then have "loop_ok allowed ((A @ [h1]) @ hs @ B) st1" by simp
  from Cons.IH[OF this 2] show ?case using Cons.prems(2) 1 2 by auto
qed simp

lemma accept_backlogs_ok:
  assumes F: "fresh_slots ops"
  shows "loop_ok allowed (A @ concat (map bl_handles bs)) st \<Longrightarrow> accept_backlogs ops discover allowed bs st = (bs', st') \<Longrightarrow>
    loop_ok allowed (A @ concat (map bl_handles bs')) st'"
proof (induction bs arbitrary: A st bs' st')
  case (Cons b bs)
  obtain hs1 st1 where 1: "accept_handles ops discover allowed (bl_port b) (bl_kind b) (bl_handles b) st = (hs1, st1)"
    by fastforce
  obtain bs2 st2 where 2: "accept_backlogs ops discover allowed bs st1 = (bs2, st2)" by fastforce
  have "loop_ok allowed (A @ hs1 @ concat (map bl_handles bs)) st1"
    using accept_handles_ok[OF F, of allowed A "bl_handles b" "concat (map bl_handles bs)"] Cons.prems(1) 1 by simp
  then have "loop_ok allowed ((A @ hs1) @ concat (map bl_handles bs)) st1" by simp
  from Cons.IH[OF this 2] show ?case using Cons.prems(2) 1 2 by auto
qed simp

lemma dns_turn_ok:
  assumes "loop_ok allowed L st"
  shows "loop_ok allowed L (fst (dns_turn cap q st))"
proof -
  let ?init = "\<lparr>dns_state = hosts st, dns_new_ips = [], dns_sent = [], dns_audit = []\<rparr>"
  let ?r = "process_dns alloc q ?init"
  have I: "host_map_inv (hosts st)" using assms by (simp add: loop_ok_def)
  have "host_map_inv (dns_state ?r)" using hm.process_dns_inv[of ?init q] I by simp
  moreover have "list_all (ssh_ok allowed (dns_state ?r)) (threads st)"
    unfolding list_all_iff
  proof
    fix x assume "x \<in> set (threads st)"
    then have "ssh_ok allowed (hosts st) x" using assms by (auto simp: loop_ok_def list_all_iff)
    then show "ssh_ok allowed (dns_state ?r) x"
      by (rule ssh_ok_mono) (use hm.process_dns_keeps[of ?init _ _ q] I in simp)
  qed
  ultimately show ?thesis using assms by (simp add: dns_turn_def loop_ok_def Let_def)
qed

lemma shuttle_handle: "shuttle_bytes ops s c = Some (s', c') \<Longrightarrow> handle c' = handle c"
proof -
  have "drain_to_socket ops s c = Some (s', c') \<Longrightarrow> handle c' = handle c" for s c s' c'
    by (auto simp: drain_to_socket_def split: bind_splits if_splits)
  then show "shuttle_bytes ops s c = Some (s', c') \<Longrightarrow> ?thesis"
    by (auto simp: shuttle_bytes_def shuttle_waiting_def shuttle_running_def feed_thread_def collect_thread_def Let_def
        split: conn_state.splits bind_splits prod.splits option.splits if_splits)
qed

lemma shuttle_all_ok:
  assumes C: "tcp_contract ops wire"
  shows "list_all (\<lambda>(h, c). conn_inv c \<and> handle c = h) cs \<Longrightarrow> set (map fst cs) \<subseteq> set (map fst ss) \<Longrightarrow>
    \<exists>cs' ss'. shuttle_all ops cs ss = Some (cs', ss') \<and> map fst cs' = map fst cs \<and> map fst ss' = map fst ss
      \<and> list_all (\<lambda>(h, c). conn_inv c \<and> handle c = h) cs'"
proof (induction cs arbitrary: ss)
  case (Cons x cs)
  obtain h c where x: "x = (h, c)" by fastforce
  then have c: "conn_inv c" "handle c = h" using Cons.prems(1) by simp_all
  have "h \<in> fst ` set ss" using Cons.prems(2) x by auto
  then obtain s where s: "map_of ss h = Some s"
    by (cases "map_of ss h") (auto simp: map_of_eq_None_iff)
  obtain s' c' where sh: "shuttle_bytes ops s c = Some (s', c')" "conn_inv c'"
    using shuttle_spec[OF C c(1), of s] by blast
  define ss1 where "ss1 = map (\<lambda>(h', s). (h', if h' = h then s' else s)) ss"
  have f: "map fst ss1 = map fst ss" by (auto simp: ss1_def)
  then obtain cs2 ss2 where r: "shuttle_all ops cs ss1 = Some (cs2, ss2)" "map fst cs2 = map fst cs"
      "map fst ss2 = map fst ss1" "list_all (\<lambda>(h, c). conn_inv c \<and> handle c = h) cs2"
    using Cons.IH[of ss1] Cons.prems by auto
  show ?case
    using r f sh c s x shuttle_handle[OF sh(1)] by (simp add: ss1_def)
qed simp

lemma reap_ok:
  assumes "loop_ok allowed L st" "map fst cs = map fst (conns st)" "map fst ss = map fst (socks st)"
    "list_all (\<lambda>(h, c). conn_inv c \<and> handle c = h) cs" "reap_done cs (map fst ss) = (cs', live)"
  shows "loop_ok allowed L (st\<lparr>conns := cs', socks := filter (\<lambda>(h, s). h \<in> set live) ss\<rparr>)"
proof -
  have r: "cs' = filter (\<lambda>(h, c). state c \<noteq> Done) cs"
    "live = filter (\<lambda>h. \<not> list_ex (\<lambda>(h', c). h' = h \<and> state c = Done) cs) (map fst ss)"
    using assms(5) by (simp_all add: reap_done_def)
  have d: "distinct (L @ map fst cs)" "set (L @ map fst cs) \<subseteq> set (map fst ss)" "distinct (map fst ss)"
    "length cs \<le> MAX_CONNECTIONS"
    using assms(1-3) by (auto simp: loop_ok_def dest: map_eq_imp_length_eq)
  have sub: "set (map fst cs') \<subseteq> set (map fst cs)" "length cs' \<le> length cs" "distinct (map fst cs')"
    using d(1) by (auto simp: r(1) distinct_map_filter)
  have live: "h \<in> set live" if h: "h \<in> set L \<or> h \<in> set (map fst cs')" for h
  proof -
    have "h \<in> set (L @ map fst cs)" using h sub(1) unfolding set_append by blast
    then have ss: "h \<in> set (map fst ss)" using d(2) by (rule subsetD[rotated])
    have "\<not> (\<exists>c. (h, c) \<in> set cs \<and> state c = Done)"
    proof
      assume "\<exists>c. (h, c) \<in> set cs \<and> state c = Done"
      then obtain c where c: "(h, c) \<in> set cs" "state c = Done" by blast
      then have "h \<in> set (map fst cs)" by force
      then have "h \<notin> set L" using d(1) by auto
      then obtain c' where "(h, c') \<in> set cs" "state c' \<noteq> Done" using h by (auto simp: r(1))
      moreover have "distinct (map fst cs)" using d(1) by simp
      ultimately show False using c eq_key_imp_eq_value by metis
    qed
    then show ?thesis using ss by (auto simp: r(2) list_ex_iff)
  qed
  have "set (L @ map fst cs') \<subseteq> set (map fst (filter (\<lambda>(h, s). h \<in> set live) ss))"
  proof
    fix h assume h: "h \<in> set (L @ map fst cs')"
    then have "h \<in> set live" using live by auto
    then have "h \<in> set (map fst ss)" by (auto simp: r(2))
    then show "h \<in> set (map fst (filter (\<lambda>(h, s). h \<in> set live) ss))"
      using \<open>h \<in> set live\<close> by force
  qed
  moreover have "distinct (L @ map fst cs')" using d(1) sub by auto
  moreover have "list_all (\<lambda>(h, c). conn_inv c \<and> handle c = h) cs'"
    using assms(4) by (auto simp: r(1) list_all_iff)
  ultimately show ?thesis
    using assms(1) d(3,4) sub(2) by (simp add: loop_ok_def distinct_map_filter)
qed

lemma threads_turn_ok:
  "map fst (threads_turn f g cs) = map fst cs"
  "list_all (\<lambda>(h, c). conn_inv c \<and> handle c = h) cs \<Longrightarrow>
   list_all (\<lambda>(h, c). conn_inv c \<and> handle c = h) (threads_turn f g cs)"
  by (auto simp: threads_turn_def list_all_iff conn_inv_def outstanding_def)

lemma proxy_turn_ok:
  assumes F: "fresh_slots lops" and C: "tcp_contract tops wire"
    and P: "\<And>ss. map fst (in_poll inp ss) = map fst ss" and I: "loop_inv allowed st"
  shows "\<exists>r. proxy_turn lops tops cap timeout discover allowed inp st = Some r
    \<and> (\<forall>st'. r = Inr st' \<longrightarrow> loop_inv allowed st' \<and> list_all (\<lambda>(h, c). state c \<noteq> Done) (conns st'))"
proof (cases "(timeout \<noteq> 0 \<and> in_elapsed inp > timeout) \<or> in_peer_closed inp")
  case True
  then show ?thesis by (simp add: proxy_turn_def)
next
  case go: False
  define st1 where "st1 = st\<lparr>socks := in_poll inp (socks st),
    conns := threads_turn (in_sends inp) (in_takes inp) (conns st),
    found := fold insort_insert (in_found inp) (found st)\<rparr>"
  have "length (threads_turn f g (conns st)) = length (conns st)" for f g by (simp add: threads_turn_def)
  then have 1: "loop_ok allowed (listeners st) st1" "backlogs st1 = backlogs st"
    using I P threads_turn_ok by (simp_all add: st1_def loop_inv_def loop_ok_def)
  define st2 where "st2 = (if in_changed inp
      then (case accept_backlogs lops discover allowed (backlogs st1) (fst (dns_turn cap (in_queries inp) st1)) of
              (bs, st) \<Rightarrow> st\<lparr>backlogs := bs\<rparr>) else st1)"
  have 2: "loop_ok allowed (listeners st2) st2"
  proof (cases "in_changed inp")
    case True
    obtain bs st' where a: "accept_backlogs lops discover allowed (backlogs st1) (fst (dns_turn cap (in_queries inp) st1)) = (bs, st')"
      by fastforce
    have "loop_ok allowed ([] @ concat (map bl_handles bs)) st'"
      by (rule accept_backlogs_ok[OF F _ a]) (use 1 in \<open>simp add: dns_turn_ok listeners_def\<close>)
    then show ?thesis using True a by (simp add: st2_def listeners_def)
  next
    case False
    then show ?thesis using 1 by (simp add: st2_def listeners_def)
  qed
  then obtain cs ss where s: "shuttle_all tops (conns st2) (socks st2) = Some (cs, ss)" "map fst cs = map fst (conns st2)"
      "map fst ss = map fst (socks st2)" "list_all (\<lambda>(h, c). conn_inv c \<and> handle c = h) cs"
    using shuttle_all_ok[OF C, of "conns st2" "socks st2"] by (auto simp: loop_ok_def)
  obtain cs' live where r: "reap_done cs (map fst ss) = (cs', live)" by fastforce
  define st3 where "st3 = st2\<lparr>conns := cs', socks := filter (\<lambda>(h, s). h \<in> set live) ss\<rparr>"
  have "loop_ok allowed (listeners st2) st3"
    unfolding st3_def by (rule reap_ok[OF 2 s(2-4) r])
  moreover have "listeners st3 = listeners st2" by (simp add: st3_def listeners_def)
  moreover have "list_all (\<lambda>(h, c). state c \<noteq> Done) (conns st3)"
    using r by (auto simp: st3_def reap_done_def list_all_iff)
  moreover have "proxy_turn lops tops cap timeout discover allowed inp st = Some (Inr st3)"
  proof -
    have "proxy_turn lops tops cap timeout discover allowed inp st
        = do { (cs, ss) \<leftarrow> shuttle_all tops (conns st2) (socks st2);
               (case reap_done cs (map fst ss) of (cs, live) \<Rightarrow>
                 Some (Inr (st2\<lparr>conns := cs, socks := filter (\<lambda>(h, s). h \<in> set live) ss\<rparr>))) }"
      using go by (simp only: proxy_turn_def if_False Let_def st1_def[symmetric] st2_def[symmetric])
    then show ?thesis using s(1) r by (simp add: st3_def)
  qed
  ultimately show ?thesis by (simp add: loop_inv_def)
qed

text \<open>The first state: fresh listeners only.\<close>

lemma add_listeners_ok:
  "fresh_slots ops \<Longrightarrow> loop_ok allowed L st \<Longrightarrow> add_listeners ops port n st = (hs, st') \<Longrightarrow>
   loop_ok allowed (L @ hs) st' \<and> backlogs st' = backlogs st"
proof (induction n arbitrary: L st hs st')
  case (Suc n)
  obtain h st1 where 1: "add_tcp_listener ops port st = (h, st1)" by fastforce
  obtain hs2 st2 where 2: "add_listeners ops port n st1 = (hs2, st2)" by fastforce
  have "loop_ok allowed (L @ [h]) st1"
    using add_listener_ok[OF Suc.prems(1) _ 1, of allowed L "[]"] Suc.prems(2) by simp
  moreover have "backlogs st1 = backlogs st" using 1 by (auto simp: add_tcp_listener_def Let_def)
  ultimately show ?case using Suc.IH[OF Suc.prems(1) _ 2, of "L @ [h]"] Suc.prems(3) 1 2 by auto
qed simp

lemma add_backlog_inv:
  assumes "fresh_slots ops" "loop_inv allowed st"
  shows "loop_inv allowed (add_backlog ops port kind n st)"
proof -
  obtain hs st1 where 1: "add_listeners ops port n st = (hs, st1)" by fastforce
  have "loop_ok allowed (listeners st @ hs) st1" "backlogs st1 = backlogs st"
    using add_listeners_ok[OF assms(1) _ 1, of allowed "listeners st"] assms(2) by (simp_all add: loop_inv_def)
  then show ?thesis using 1 by (simp add: add_backlog_def loop_inv_def listeners_def)
qed

lemma proxy_setup_inv:
  assumes "fresh_slots ops"
  shows "loop_inv allowed (proxy_setup ops dns forwards)"
proof -
  have fold: "loop_inv allowed st \<Longrightarrow> loop_inv allowed (foldl (\<lambda>st f. add_backlog ops (guest_port f)
      (B_forward (host_port f)) LISTEN_BACKLOG st) st forwards)" for st
    by (induction forwards arbitrary: st) (auto intro: add_backlog_inv[OF assms])
  show ?thesis
    unfolding proxy_setup_def Let_def
    by (intro fold add_backlog_inv[OF assms])
       (simp add: loop_inv_def loop_ok_def listeners_def new_host_map_inv)
qed

subsection \<open>The backlogs keep their shape\<close>

definition backlog_shape :: "backlog list \<Rightarrow> (16 word \<times> backlog_kind \<times> nat) list" where
  "backlog_shape bs = map (\<lambda>b. (bl_port b, bl_kind b, length (bl_handles b))) bs"

lemma accept_handles_length:
  "accept_handles ops discover allowed port kind hs st = (hs', st') \<Longrightarrow> length hs' = length hs"
  by (induction hs arbitrary: st hs' st') (auto split: prod.splits)

lemma accept_backlogs_shape:
  "accept_backlogs ops discover allowed bs st = (bs', st') \<Longrightarrow> backlog_shape bs' = backlog_shape bs"
  by (induction bs arbitrary: st bs' st') (auto simp: backlog_shape_def dest: accept_handles_length split: prod.splits)

lemma proxy_turn_shape:
  "proxy_turn lops tops cap timeout discover allowed inp st = Some (Inr st') \<Longrightarrow>
   backlog_shape (backlogs st') = backlog_shape (backlogs st)"
  by (auto simp: proxy_turn_def Let_def dns_turn_def split: if_splits prod.splits bind_splits
      dest: accept_backlogs_shape)

lemma add_listeners_length: "add_listeners ops port n st = (hs, st') \<Longrightarrow> length hs = n \<and> backlogs st' = backlogs st"
  by (induction n arbitrary: st hs st') (auto simp: add_tcp_listener_def Let_def split: prod.splits)

lemma add_backlog_shape:
  "backlog_shape (backlogs (add_backlog ops port kind n st)) = backlog_shape (backlogs st) @ [(port, kind, n)]"
  by (auto simp: add_backlog_def backlog_shape_def dest: add_listeners_length split: prod.splits)

definition expected_backlogs :: "forward_spec list \<Rightarrow> (16 word \<times> backlog_kind \<times> nat) list" where
  "expected_backlogs forwards =
     [(80, B_http, 4), (443, B_tls, LISTEN_BACKLOG), (22, B_ssh, LISTEN_BACKLOG)]
     @ map (\<lambda>f. (guest_port f, B_forward (host_port f), LISTEN_BACKLOG)) forwards"

lemma proxy_setup_shape: "backlog_shape (backlogs (proxy_setup ops dns forwards)) = expected_backlogs forwards"
proof -
  have "backlog_shape (backlogs (foldl (\<lambda>st f. add_backlog ops (guest_port f)
      (B_forward (host_port f)) LISTEN_BACKLOG st) st forwards))
    = backlog_shape (backlogs st) @ map (\<lambda>f. (guest_port f, B_forward (host_port f), LISTEN_BACKLOG)) forwards" for st
    by (induction forwards arbitrary: st) (simp_all add: add_backlog_shape)
  then show ?thesis
    by (simp add: proxy_setup_def Let_def add_backlog_shape expected_backlogs_def)
       (simp add: backlog_shape_def)
qed

lemma proxy_turns_ok:
  assumes F: "fresh_slots lops" and C: "tcp_contract tops wire"
  shows "loop_inv allowed st \<Longrightarrow> \<forall>inp\<in>set inps. \<forall>ss. map fst (in_poll inp ss) = map fst ss \<Longrightarrow>
    \<exists>r. proxy_turns lops tops cap timeout discover allowed inps st = Some r
      \<and> (\<forall>st'. r = Inr st' \<longrightarrow> loop_inv allowed st' \<and> backlog_shape (backlogs st') = backlog_shape (backlogs st))"
proof (induction inps arbitrary: st)
  case (Cons inp inps)
  then have "\<And>ss. map fst (in_poll inp ss) = map fst ss" by simp
  from proxy_turn_ok[OF F C this Cons.prems(1)] obtain r where
    r: "proxy_turn lops tops cap timeout discover allowed inp st = Some r" "\<And>st'. r = Inr st' \<Longrightarrow> loop_inv allowed st'"
    by blast
  show ?case
  proof (cases r)
    case (Inr st1)
    then have "loop_inv allowed st1" "backlog_shape (backlogs st1) = backlog_shape (backlogs st)"
      using r proxy_turn_shape by auto
    then show ?thesis using Cons.IH[of st1] Cons.prems(2) r(1) Inr by simp
  qed (use r in simp)
qed simp

lemma loop_inv_facts:
  assumes "loop_inv allowed st"
  shows "length (conns st) \<le> MAX_CONNECTIONS" "distinct (listeners st @ map fst (conns st))"
    "set (listeners st @ map fst (conns st)) \<subseteq> set (map fst (socks st))" "host_map_inv (hosts st)"
    "(h, Ssh_relay host private) \<in> set (threads st) \<Longrightarrow> host_allowed allowed host
       \<and> private = explicitly_allowed allowed host \<and> (\<exists>ip. hostname_for_ip (hosts st) ip = Some host)"
  using assms by (auto simp: loop_inv_def loop_ok_def list_all_iff ssh_ok_def simp del: split_paired_Ex dest!: bspec)

subsection \<open>Properties\<close>

text \<open>
  C15: the poll loop is safe in every run. Whatever the guest sends, the network does and the threads
  do with their channels, no turn panics (no handle is looked up after its socket is gone, no
  drain runs forever); at most 128 connections are open; every port keeps its full backlog of
  listeners, all listeners and connections being different live sockets; and an SSH relay exists only for a
  hostname that the guest resolved and the allowlist permits, with private addresses opened only by
  an explicit allowlist entry, never by discover mode.
\<close>
theorem proxy_loop_safe:
  assumes "fresh_slots lops" "tcp_contract tops wire"
    "\<forall>inp\<in>set inps. \<forall>ss. map fst (in_poll inp ss) = map fst ss"
  shows "\<exists>r. proxy_run lops tops capacity timeout discover allowed dns forwards inps = Some r
    \<and> (\<forall>st. r = Inr st \<longrightarrow>
          length (conns st) \<le> MAX_CONNECTIONS
        \<and> backlog_shape (backlogs st) = expected_backlogs forwards
        \<and> distinct (listeners st @ map fst (conns st))
        \<and> set (listeners st @ map fst (conns st)) \<subseteq> set (map fst (socks st))
        \<and> host_map_inv (hosts st)
        \<and> (\<forall>h host priv. (h, Ssh_relay host priv) \<in> set (threads st) \<longrightarrow>
             (\<exists>ip. hostname_for_ip (hosts st) ip = Some host)
             \<and> (\<not> discover \<longrightarrow> host_allowed allowed host)
             \<and> (priv \<longrightarrow> \<not> discover \<and> explicitly_allowed allowed host)))"
proof -
  let ?A = "effective_allowlist discover allowed"
  let ?S = "proxy_setup lops dns forwards"
  have S: "loop_inv ?A ?S" "backlog_shape (backlogs ?S) = expected_backlogs forwards"
    by (rule proxy_setup_inv[OF assms(1)], rule proxy_setup_shape)
  obtain r where r: "proxy_run lops tops capacity timeout discover allowed dns forwards inps = Some r"
    "\<forall>st. r = Inr st \<longrightarrow> loop_inv ?A st \<and> backlog_shape (backlogs st) = expected_backlogs forwards"
    using proxy_turns_ok[OF assms(1,2) S(1) assms(3)] unfolding proxy_run_def S(2) by blast
  have A: "host_allowed ?A host \<Longrightarrow> priv = explicitly_allowed ?A host \<Longrightarrow>
      (\<not> discover \<longrightarrow> host_allowed allowed host) \<and> (priv \<longrightarrow> \<not> discover \<and> explicitly_allowed allowed host)"
    for host priv
    by (cases discover) (auto simp: effective_allowlist_def explicitly_allowed_def)
  show ?thesis
  proof (intro exI[of _ r] conjI allI impI)
    fix st assume st: "r = Inr st"
    note I = loop_inv_facts[OF r(2)[rule_format, OF st, THEN conjunct1]]
    show "length (conns st) \<le> MAX_CONNECTIONS" "distinct (listeners st @ map fst (conns st))"
      "set (listeners st @ map fst (conns st)) \<subseteq> set (map fst (socks st))" "host_map_inv (hosts st)"
      by (rule I)+
    show "backlog_shape (backlogs st) = expected_backlogs forwards" using r(2) st by blast
    fix h host priv assume t: "(h, Ssh_relay host priv) \<in> set (threads st)"
    show "\<exists>ip. hostname_for_ip (hosts st) ip = Some host" using I(5)[OF t] by blast
    show "host_allowed allowed host" if "\<not> discover" using I(5)[OF t] A that by blast
    show "\<not> discover" "explicitly_allowed allowed host" if priv using I(5)[OF t] A that by blast+
  qed (rule r(1))
qed

definition demo_listen :: "demo_tcp listen_ops" where
  "demo_listen = \<lparr>l_may_recv = dt_open, l_listening = (\<lambda>_. False), l_local_ip = (\<lambda>_. Some (192, 168, 127, 10)),
     l_close = (\<lambda>s. s\<lparr>dt_open := False\<rparr>),
     l_new = (\<lambda>_. \<lparr>dt_in = [], dt_buffered = 0, dt_wire = [], dt_open = True\<rparr>),
     l_slot = (\<lambda>hs. foldr (\<lambda>h n. max (Suc h) n) hs 0)\<rparr>"

lemma demo_listen_fresh: "fresh_slots demo_listen"
proof -
  have "h \<in> set hs \<Longrightarrow> h < foldr (\<lambda>h n. max (Suc h) n) hs 0" for h and hs :: "nat list"
    by (induction hs) auto
  then show ?thesis by (fastforce simp: fresh_slots_def demo_listen_def)
qed

definition demo_turn :: "(demo_tcp, nat) turn_input" where
  "demo_turn = \<lparr>in_elapsed = 5, in_peer_closed = False, in_sends = (\<lambda>_ c. c), in_takes = (\<lambda>_ c. c), in_found = [],
     in_poll = (\<lambda>ss. ss), in_changed = True, in_queries = []\<rparr>"

theorem proxy_loop_safe_witness:
  "\<exists>r. proxy_run demo_listen demo_ops 16 0 False (Some [''*.test'']) (0, l_new demo_listen 53) []
      [demo_turn, demo_turn] = Some r \<and> (\<forall>st. r = Inr st \<longrightarrow> length (conns st) \<le> MAX_CONNECTIONS)"
proof -
  have "\<forall>inp\<in>set [demo_turn, demo_turn]. \<forall>ss. map fst (in_poll inp ss) = map fst ss"
    by (simp add: demo_turn_def)
  from proxy_loop_safe[OF demo_listen_fresh demo_tcp_contract this] show ?thesis by blast
qed

text \<open>A refused socket is replaced in its backlog but never removed: no entry of any table names its
  handle any more.\<close>

lemma close_map: "map_of (map (\<lambda>(h', s). (h', if h' = h then f s else s)) ss) h = map_option f (map_of ss h)"
  by (induction ss) auto

lemma refused_socket_stays:
  assumes "map_of (socks st) h = Some s" "l_may_recv ops s" "\<not> l_listening ops s" "length (conns st) \<ge> MAX_CONNECTIONS"
    and r: "accept_handle ops discover allowed port kind h st = (h', st')"
  shows "map_of (socks st') h = Some (l_close ops s) \<and> conns st' = conns st \<and> h' = l_slot ops (map fst (socks st))"
proof -
  have "map_of (socks (close_handle ops h st)) h = Some (l_close ops s)"
    using assms(1) close_map[of h "l_close ops" "socks st"] by (simp add: close_handle_def)
  then show ?thesis
    using assms by (auto simp: accept_handle_def add_tcp_listener_def Let_def close_handle_def map_add_def comp_def case_prod_beta'
        split: option.splits)
qed

end
