(* ===== verification/Process.thy ===== *)
theory Process
  imports Host
begin

text \<open>
  Signals and process identifiers, shared by \<^verbatim>\<open>stop_session\<close> of \<^verbatim>\<open>src/src/main.rs\<close> and the
  browser teardown of \<^verbatim>\<open>src/src/browser.rs\<close>: a recorded \<^verbatim>\<open>u32\<close> becomes a \<^verbatim>\<open>pid_t\<close> (an \<^verbatim>\<open>i32\<close>)
  only when it fits, and \<^verbatim>\<open>kill(2)\<close> gives targets that are not positive a group meaning.
\<close>

datatype signal = SIGTERM | SIGKILL

definition pid_try_from :: "32 word \<Rightarrow> int option" where
  "pid_try_from pid = (if uint pid < 2 ^ 31 then Some (uint pid) else None)"

text \<open>Whom \<^verbatim>\<open>kill(target, _)\<close> reaches.\<close>

datatype kill_scope = One_process int | Own_group | Every_process | Group int

definition kill_scope :: "int \<Rightarrow> kill_scope" where
  "kill_scope target =
     (if target > 0 then One_process target
      else if target = 0 then Own_group
      else if target = -1 then Every_process else Group (- target))"

lemma pid_try_from_Some: "pid_try_from pid = Some t \<longleftrightarrow> t = uint pid \<and> uint pid < 2 ^ 31"
  by (auto simp: pid_try_from_def)

lemma kill_scope_one: "target > 0 \<Longrightarrow> kill_scope target = One_process target"
  by (simp add: kill_scope_def)

lemma kill_scope_group: "target > 1 \<Longrightarrow> kill_scope (- target) = Group target"
  by (simp add: kill_scope_def)

end
