(* ===== verification/Relay.thy ===== *)
theory Relay
  imports TlsThread
begin

text \<open>
  The two transparent relay threads of \<^verbatim>\<open>src/src/proxy.rs\<close>: \<^verbatim>\<open>ssh_relay_thread\<close>, which resolves and
  checks the address before it connects, and \<^verbatim>\<open>tcp_forward_thread\<close>, which only ever connects to
  127.0.0.1. Name resolution and the TCP stream are parameters: what its reads return, and a writer
  that says whether the whole buffer was taken.
\<close>

datatype stream_read = Got bytes | Reset | Read_fault string

record 'u relay_env =
  rl_resolve :: "string \<Rightarrow> 16 word \<Rightarrow> connect_error + socket_addr list"
  rl_connect :: "socket_addr \<Rightarrow> connect_error + 'u"
  rl_timeouts_ok :: "'u \<Rightarrow> bool"
  rl_clone_ok :: "'u \<Rightarrow> bool"
  rl_reads :: "'u \<Rightarrow> stream_read list"
  rl_write :: "'u \<Rightarrow> bytes \<Rightarrow> bool \<times> 'u"
  rl_shutdown :: "'u \<Rightarrow> 'u"

text \<open>Upstream to guest: an empty read, any error or a lost receiver ends the thread. The reads are
  those made so far.\<close>

fun relay_down :: "stream_read list \<Rightarrow> chan \<Rightarrow> chan" where
  "relay_down [] tx = tx"
| "relay_down (Got data # reads) tx =
     (if data = [] then tx
      else (case chan_send data tx of None \<Rightarrow> tx | Some tx \<Rightarrow> relay_down reads tx))"
| "relay_down (Reset # reads) tx = tx"
| "relay_down (Read_fault e # reads) tx = tx"

text \<open>Guest to upstream, until the channel ends or a write fails.\<close>

fun relay_up :: "('u \<Rightarrow> bytes \<Rightarrow> bool \<times> 'u) \<Rightarrow> bytes list \<Rightarrow> 'u \<Rightarrow> 'u" where
  "relay_up write [] u = u"
| "relay_up write (data # rx) u =
     (case write u data of (ok, u) \<Rightarrow> if ok then relay_up write rx u else u)"

record 'u relay_result =
  rr_upstream :: "connect_error + 'u"
  rr_guest :: chan
  rr_events :: "audit_event list"

text \<open>Both directions of a connected stream; the two events bracket the relay.\<close>

definition relay_stream ::
  "'u relay_env \<Rightarrow> string \<Rightarrow> audit_event \<Rightarrow> audit_event \<Rightarrow> bytes list \<Rightarrow> chan \<Rightarrow> 'u \<Rightarrow> 'u relay_result" where
  "relay_stream env what opened closed rx tx u =
     (if \<not> rl_clone_ok env u
      then \<lparr>rr_upstream = Inl (Connect_failed (what @ '' stream clone'')), rr_guest = tx, rr_events = [opened]\<rparr>
      else \<lparr>rr_upstream = Inr (rl_shutdown env (relay_up (rl_write env) rx u)),
            rr_guest = relay_down (rl_reads env u) tx, rr_events = [opened, closed]\<rparr>)"

definition ssh_connect :: "'u relay_env \<Rightarrow> string \<Rightarrow> bool \<Rightarrow> connect_error + 'u" where
  "ssh_connect env hostname allow_private =
     bindR (rl_resolve env hostname 22) (\<lambda>addrs.
     bindR (ok_or (find is_ipv4 addrs) Dns_not_found) (\<lambda>addr.
     case addr of
       V4 ip p \<Rightarrow> if \<not> allow_private \<and> is_private_ip ip then Inl (Private_ip ip) else rl_connect env addr
     | V6 ip p \<Rightarrow> rl_connect env addr))"

definition ssh_relay_thread ::
  "'u relay_env \<Rightarrow> string \<Rightarrow> bool \<Rightarrow> bytes list \<Rightarrow> chan \<Rightarrow> 'u relay_result" where
  "ssh_relay_thread env hostname allow_private rx tx =
     (case ssh_connect env hostname allow_private of
        Inl e \<Rightarrow> \<lparr>rr_upstream = Inl e, rr_guest = tx, rr_events = []\<rparr>
      | Inr u \<Rightarrow>
          if \<not> rl_timeouts_ok env u
          then \<lparr>rr_upstream = Inl (Connect_failed ''timeout''), rr_guest = tx, rr_events = []\<rparr>
          else relay_stream env ''SSH'' (''ssh_connect'', [(''host'', hostname)])
                 (''ssh_disconnect'', [(''host'', hostname)]) rx tx u)"

definition tcp_forward_thread :: "'u relay_env \<Rightarrow> 16 word \<Rightarrow> bytes list \<Rightarrow> chan \<Rightarrow> 'u relay_result" where
  "tcp_forward_thread env host_port rx tx =
     (case rl_connect env (V4 (127, 0, 0, 1) host_port) of
        Inl e \<Rightarrow> \<lparr>rr_upstream = Inl e, rr_guest = tx, rr_events = []\<rparr>
      | Inr u \<Rightarrow>
          relay_stream env ''TCP forward''
            (''forward_connect'', [(''host_port'', show_nat (unat host_port))])
            (''forward_disconnect'', [(''host_port'', show_nat (unat host_port))]) rx tx u)"

subsection \<open>Transparency\<close>

definition upstream_bytes :: "stream_read list \<Rightarrow> bytes" where
  "upstream_bytes reads = concat (map (\<lambda>r. case r of Got d \<Rightarrow> d | _ \<Rightarrow> []) reads)"

text \<open>What is relied on of the stream: a write appends its buffer, or a front part when it fails, and
  shutting down writes nothing.\<close>

definition stream_contract :: "'u relay_env \<Rightarrow> ('u \<Rightarrow> bytes) \<Rightarrow> bool" where
  "stream_contract env got \<longleftrightarrow>
     (\<forall>u b. \<exists>k. got (snd (rl_write env u b)) = got u @ take k b \<and> (fst (rl_write env u b) \<longrightarrow> length b \<le> k))
     \<and> (\<forall>u. got (rl_shutdown env u) = got u)"

lemma relay_down_prefix:
  "\<exists>bs. queue (relay_down reads tx) = queue tx @ bs \<and> prefix (concat bs) (upstream_bytes reads)"
proof (induction reads tx rule: relay_down.induct)
  case (2 data reads tx)
  show ?case
  proof (cases "data = [] \<or> \<not> peer_alive tx")
    case True
    then show ?thesis by (auto simp: chan_send_def)
  next
    case False
    let ?tx = "tx\<lparr>queue := queue tx @ [data]\<rparr>"
    have s: "chan_send data tx = Some ?tx" using False by (simp add: chan_send_def)
    obtain bs where "queue (relay_down reads ?tx) = queue ?tx @ bs" "prefix (concat bs) (upstream_bytes reads)"
      using 2 False s by blast
    then have "queue (relay_down (Got data # reads) tx) = queue tx @ data # bs
        \<and> prefix (concat (data # bs)) (upstream_bytes (Got data # reads))"
      using False s by (simp add: upstream_bytes_def)
    then show ?thesis by blast
  qed
qed auto

lemma relay_up_prefix:
  assumes C: "stream_contract env got"
  shows "\<exists>sent. got (relay_up (rl_write env) rx u) = got u @ sent \<and> prefix sent (concat rx)"
proof (induction rx arbitrary: u)
  case (Cons d rx)
  obtain ok u1 where w: "rl_write env u d = (ok, u1)" by fastforce
  obtain k where k: "got u1 = got u @ take k d" "ok \<longrightarrow> length d \<le> k"
    using C w unfolding stream_contract_def by (metis fst_conv snd_conv)
  show ?case
  proof (cases ok)
    case True
    obtain sent where "got (relay_up (rl_write env) rx u1) = got u1 @ sent" "prefix sent (concat rx)"
      using Cons.IH by blast
    then show ?thesis using w k True by simp
  next
    case False
    have "prefix (take k d) (concat (d # rx))" by (simp add: prefix_def) (metis append.assoc append_take_drop_id)
    then show ?thesis using w k False by auto
  qed
qed simp

lemma relay_up_all:
  assumes C: "stream_contract env got" and ok: "\<And>u b. fst (rl_write env u b)"
  shows "got (relay_up (rl_write env) rx u) = got u @ concat rx"
proof (induction rx arbitrary: u)
  case (Cons d rx)
  obtain u1 where w: "rl_write env u d = (True, u1)" using ok by (metis prod.collapse)
  then have "got u1 = got u @ d" using C unfolding stream_contract_def by (metis fst_conv snd_conv take_all)
  then show ?case using w Cons.IH by simp
qed simp

lemma relay_stream_transparent:
  assumes "stream_contract env got"
  shows "\<exists>bs. queue (rr_guest (relay_stream env what o1 o2 rx tx u)) = queue tx @ bs
      \<and> prefix (concat bs) (upstream_bytes (rl_reads env u))
      \<and> (\<forall>u'. rr_upstream (relay_stream env what o1 o2 rx tx u) = Inr u' \<longrightarrow>
           (\<exists>sent. got u' = got u @ sent \<and> prefix sent (concat rx)
              \<and> ((\<forall>v b. fst (rl_write env v b)) \<longrightarrow> sent = concat rx)))"
proof (cases "rl_clone_ok env u")
  case True
  have "\<exists>sent. got (relay_up (rl_write env) rx u) = got u @ sent \<and> prefix sent (concat rx)
      \<and> ((\<forall>v b. fst (rl_write env v b)) \<longrightarrow> sent = concat rx)"
    using relay_up_prefix[OF assms, of rx u] relay_up_all[OF assms, of rx u] by (metis same_append_eq)
  moreover have "got (rl_shutdown env v) = got v" for v using assms by (simp add: stream_contract_def)
  ultimately show ?thesis
    using relay_down_prefix[of "rl_reads env u" tx] True by (auto simp: relay_stream_def)
qed (simp add: relay_stream_def)

subsection \<open>Properties\<close>

text \<open>
  C19: an SSH relay reaches no private address and changes no byte. Unless private addresses are
  allowed, the outcome does not depend on what connecting to a private address would give; when the
  relay runs, the server got a front part of what the guest sent (all of it when no write fails),
  the guest a front part of what the server sent, and the connection and disconnection are logged.
\<close>
theorem ssh_relay_safe:
  assumes "stream_contract env got" "\<And>ip p. \<not> is_private_ip ip \<Longrightarrow> rl_connect env (V4 ip p) = connect' (V4 ip p)"
  shows "ssh_relay_thread env hostname False rx tx = ssh_relay_thread (env\<lparr>rl_connect := connect'\<rparr>) hostname False rx tx
    \<and> (\<forall>u'. rr_upstream (ssh_relay_thread env hostname allow rx tx) = Inr u' \<longrightarrow>
         (\<exists>u sent bs. ssh_connect env hostname allow = Inr u
            \<and> got u' = got u @ sent \<and> prefix sent (concat rx)
            \<and> ((\<forall>v b. fst (rl_write env v b)) \<longrightarrow> sent = concat rx)
            \<and> queue (rr_guest (ssh_relay_thread env hostname allow rx tx)) = queue tx @ bs
            \<and> prefix (concat bs) (upstream_bytes (rl_reads env u))
            \<and> rr_events (ssh_relay_thread env hostname allow rx tx)
                = [(''ssh_connect'', [(''host'', hostname)]), (''ssh_disconnect'', [(''host'', hostname)])]))"
proof -
  have "ssh_connect env hostname False = ssh_connect (env\<lparr>rl_connect := connect'\<rparr>) hostname False"
  proof -
    have "is_ipv4 a \<Longrightarrow> \<exists>ip p. a = V4 ip p" for a by (cases a) auto
    then have "find is_ipv4 addrs = Some a \<Longrightarrow> \<exists>ip p. a = V4 ip p" for addrs a by (auto simp: find_Some_iff)
    then show ?thesis
      using assms(2)
      by (fastforce simp: ssh_connect_def bindR_def ok_or_def split: sum.splits option.splits socket_addr.splits)
  qed
  then have "ssh_relay_thread env hostname False rx tx = ssh_relay_thread (env\<lparr>rl_connect := connect'\<rparr>) hostname False rx tx"
    by (simp add: ssh_relay_thread_def relay_stream_def split: sum.split)
  moreover
  { fix u' assume r: "rr_upstream (ssh_relay_thread env hostname allow rx tx) = Inr u'"
    then obtain u where u: "ssh_connect env hostname allow = Inr u" "rl_timeouts_ok env u"
      by (auto simp: ssh_relay_thread_def split: sum.splits if_splits)
    then have e: "ssh_relay_thread env hostname allow rx tx = relay_stream env ''SSH'' (''ssh_connect'', [(''host'', hostname)])
        (''ssh_disconnect'', [(''host'', hostname)]) rx tx u"
      by (simp add: ssh_relay_thread_def)
    have "rl_clone_ok env u" using r e by (auto simp: relay_stream_def split: if_splits)
    then have "rr_events (ssh_relay_thread env hostname allow rx tx)
        = [(''ssh_connect'', [(''host'', hostname)]), (''ssh_disconnect'', [(''host'', hostname)])]"
      by (simp add: e relay_stream_def)
    then have "\<exists>u sent bs. ssh_connect env hostname allow = Inr u
            \<and> got u' = got u @ sent \<and> prefix sent (concat rx)
            \<and> ((\<forall>v b. fst (rl_write env v b)) \<longrightarrow> sent = concat rx)
            \<and> queue (rr_guest (ssh_relay_thread env hostname allow rx tx)) = queue tx @ bs
            \<and> prefix (concat bs) (upstream_bytes (rl_reads env u))
            \<and> rr_events (ssh_relay_thread env hostname allow rx tx)
                = [(''ssh_connect'', [(''host'', hostname)]), (''ssh_disconnect'', [(''host'', hostname)])]"
      using relay_stream_transparent[OF assms(1)] u(1) r unfolding e by blast }
  ultimately show ?thesis by blast
qed

definition demo_relay :: "bytes relay_env" where
  "demo_relay = \<lparr>rl_resolve = (\<lambda>_ _. Inr [V4 (140, 82, 121, 3) 22]), rl_connect = (\<lambda>_. Inr []),
     rl_timeouts_ok = (\<lambda>_. True), rl_clone_ok = (\<lambda>_. True), rl_reads = (\<lambda>_. [Got ''SSH-2.0-x'', Reset]),
     rl_write = (\<lambda>u b. (True, u @ b)), rl_shutdown = (\<lambda>u. u)\<rparr>"

lemma demo_relay_contract: "stream_contract demo_relay (\<lambda>u. u)"
  by (auto simp: stream_contract_def demo_relay_def) (metis order_refl take_all)

theorem ssh_relay_safe_witness:
  "rr_upstream (ssh_relay_thread demo_relay ''git.test'' False [''SSH-2.0-y''] open_chan) = Inr ''SSH-2.0-y''
   \<and> (\<exists>sent. ''SSH-2.0-y'' = [] @ sent \<and> prefix sent ''SSH-2.0-y'')"
proof -
  have r: "rr_upstream (ssh_relay_thread demo_relay ''git.test'' False [''SSH-2.0-y''] open_chan) = Inr ''SSH-2.0-y''"
    by code_simp
  have "rl_connect demo_relay (V4 ip p) = rl_connect demo_relay (V4 ip p)" for ip p by (rule refl)
  from ssh_relay_safe[OF demo_relay_contract this, THEN conjunct2, rule_format, OF r]
  obtain u sent where "ssh_connect demo_relay ''git.test'' False = Inr u" "''SSH-2.0-y'' = u @ sent"
    "prefix sent (concat [''SSH-2.0-y''])"
    by blast
  moreover have "ssh_connect demo_relay ''git.test'' False = Inr []" by code_simp
  ultimately show ?thesis using r by simp
qed

text \<open>
  A forwarded port reaches the loopback address only. The outcome of the thread depends on the
  connect function only at 127.0.0.1 with the configured host port, and the bytes pass unchanged.
\<close>
lemma forward_only_loopback:
  assumes "stream_contract env got" "rl_connect env (V4 (127, 0, 0, 1) host_port) = connect' (V4 (127, 0, 0, 1) host_port)"
  shows "tcp_forward_thread env host_port rx tx = tcp_forward_thread (env\<lparr>rl_connect := connect'\<rparr>) host_port rx tx
    \<and> (\<forall>u'. rr_upstream (tcp_forward_thread env host_port rx tx) = Inr u' \<longrightarrow>
         (\<exists>u sent. rl_connect env (V4 (127, 0, 0, 1) host_port) = Inr u \<and> got u' = got u @ sent
            \<and> prefix sent (concat rx) \<and> ((\<forall>v b. fst (rl_write env v b)) \<longrightarrow> sent = concat rx)))"
proof -
  have "tcp_forward_thread env host_port rx tx = tcp_forward_thread (env\<lparr>rl_connect := connect'\<rparr>) host_port rx tx"
    using assms(2) by (simp add: tcp_forward_thread_def relay_stream_def split: sum.split)
  moreover
  { fix u' assume r: "rr_upstream (tcp_forward_thread env host_port rx tx) = Inr u'"
    then obtain u where u: "rl_connect env (V4 (127, 0, 0, 1) host_port) = Inr u"
      by (auto simp: tcp_forward_thread_def split: sum.splits)
    then have "\<exists>u sent. rl_connect env (V4 (127, 0, 0, 1) host_port) = Inr u \<and> got u' = got u @ sent
            \<and> prefix sent (concat rx) \<and> ((\<forall>v b. fst (rl_write env v b)) \<longrightarrow> sent = concat rx)"
      using relay_stream_transparent[OF assms(1)] r by (simp add: tcp_forward_thread_def) blast }
  ultimately show ?thesis by blast
qed

end
