(* ===== verification/Browser.thy ===== *)
theory Browser
  imports Process Relay
begin

text \<open>
  The headless browser on the host, \<^verbatim>\<open>src/src/browser.rs\<close>: finding Chrome, starting it behind the
  allowlist proxy, the proxy itself (its accept loop and one connection from request line to relay),
  and the teardown. Name resolution, TCP streams and processes are parameters.
\<close>

subsection \<open>Finding Chrome\<close>

definition CHROME_CANDIDATES :: "string list" where
  "CHROME_CANDIDATES = [''chromium'', ''chromium-browser'', ''google-chrome-stable'', ''google-chrome'']"

definition find_chrome_in :: "host \<Rightarrow> string \<Rightarrow> path option" where
  "find_chrome_in h path_var =
     find (is_file h)
       (concat (map (\<lambda>candidate. map (\<lambda>dir. path_join dir candidate) (split_on (CHR '':'') path_var))
          CHROME_CANDIDATES))"

definition find_chrome :: "host \<Rightarrow> path option" where
  "find_chrome h = Option.bind (env_var h ''PATH'') (find_chrome_in h)"

subsection \<open>Request targets\<close>

definition parse_connect_target :: "string \<Rightarrow> (string \<times> 16 word) option" where
  "parse_connect_target target =
     Option.bind (rsplit_once (CHR '':'') target) (\<lambda>(hostname, port_str).
       if hostname = [] then None else map_option (Pair hostname) (parse_u16 port_str))"

definition parse_absolute_uri :: "string \<Rightarrow> (string \<times> 16 word \<times> string) option" where
  "parse_absolute_uri uri =
     Option.bind (strip_prefix ''http://'' uri) (\<lambda>rest.
       let (authority, p) = (case split_once (CHR ''/'') rest of
                               None \<Rightarrow> (rest, ''/'') | Some (a, p) \<Rightarrow> (a, ''/'' @ p))
       in Option.bind (case rsplit_once (CHR '':'') authority of
                         Some (hostname, p) \<Rightarrow> map_option (Pair hostname) (parse_u16 p)
                       | None \<Rightarrow> Some (authority, 80))
            (\<lambda>(hostname, port). if hostname = [] then None else Some (hostname, port, p)))"

definition is_host_allowed :: "string \<Rightarrow> string list option \<Rightarrow> bool" where
  "is_host_allowed hostname allowed =
     (case allowed of None \<Rightarrow> True | Some patterns \<Rightarrow> list_ex (\<lambda>pattern. host_matches pattern hostname) patterns)"

subsection \<open>Connecting\<close>

record ('c, 'u) browser_env =
  bp_resolve :: "string \<Rightarrow> 16 word \<Rightarrow> string + socket_addr list"
  bp_connect :: "ipv4 \<times> 16 word \<Rightarrow> string + 'u"
  bp_clone_ok :: bool
  bp_upstream_reads :: "'u \<Rightarrow> stream_read list"
  bp_write_upstream :: "'u \<Rightarrow> bytes \<Rightarrow> bool \<times> 'u"
  bp_shutdown_upstream :: "'u \<Rightarrow> 'u"
  bp_write_client :: "'c \<Rightarrow> bytes \<Rightarrow> bool \<times> 'c"
  bp_shutdown_client :: "'c \<Rightarrow> 'c"

fun v4_addr :: "socket_addr \<Rightarrow> (ipv4 \<times> 16 word) option" where
  "v4_addr (V4 ip port) = Some (ip, port)"
| "v4_addr (V6 ip port) = None"

datatype browse_error = Resolution string | No_ipv4 | Private_addr "ipv4 \<times> 16 word" | All_failed string

text \<open>The attempts are returned with the result.\<close>

fun connect_first ::
  "(ipv4 \<times> 16 word \<Rightarrow> string + 'u) \<Rightarrow> string \<Rightarrow> (ipv4 \<times> 16 word) list \<Rightarrow> (browse_error + 'u) \<times> (ipv4 \<times> 16 word) list" where
  "connect_first connect last_err [] = (Inl (All_failed last_err), [])"
| "connect_first connect last_err (addr # addrs) =
     (case connect addr of
        Inr stream \<Rightarrow> (Inr stream, [addr])
      | Inl e \<Rightarrow> (case connect_first connect e addrs of (r, tried) \<Rightarrow> (r, addr # tried)))"

definition resolve_and_connect ::
  "('c, 'u) browser_env \<Rightarrow> string \<Rightarrow> 16 word \<Rightarrow> (browse_error + 'u) \<times> (ipv4 \<times> 16 word) list" where
  "resolve_and_connect env hostname port =
     (case bp_resolve env hostname port of
        Inl e \<Rightarrow> (Inl (Resolution e), [])
      | Inr all_addrs \<Rightarrow>
          (let addrs = List.map_filter v4_addr all_addrs
           in if addrs = [] then (Inl No_ipv4, [])
              else (case find (\<lambda>(ip, p). is_private_ip ip) addrs of
                  Some addr \<Rightarrow> (Inl (Private_addr addr), [])
                | None \<Rightarrow> connect_first (bp_connect env) [] addrs)))"

text \<open>One direction of \<^verbatim>\<open>relay_bidirectional\<close>; the reads are those made until the stream ends.\<close>

fun copy_loop :: "('w \<Rightarrow> bytes \<Rightarrow> bool \<times> 'w) \<Rightarrow> stream_read list \<Rightarrow> 'w \<Rightarrow> 'w" where
  "copy_loop write [] w = w"
| "copy_loop write (Got data # reads) w =
     (if data = [] then w else (case write w data of (ok, w) \<Rightarrow> if ok then copy_loop write reads w else w))"
| "copy_loop write (Reset # reads) w = w"
| "copy_loop write (Read_fault e # reads) w = w"

definition relay_bidirectional ::
  "('c, 'u) browser_env \<Rightarrow> stream_read list \<Rightarrow> 'c \<Rightarrow> 'u \<Rightarrow> 'c \<times> 'u" where
  "relay_bidirectional env reads client upstream =
     (if \<not> bp_clone_ok env then (client, upstream)
      else (bp_shutdown_client env (copy_loop (bp_write_client env) (bp_upstream_reads env upstream) client),
            bp_shutdown_upstream env (copy_loop (bp_write_upstream env) reads upstream)))"

subsection \<open>One connection\<close>

record ('c, 'u) browser_result =
  br_client :: 'c
  br_upstream :: "'u option"
  br_tried :: "(ipv4 \<times> 16 word) list"

definition reply :: "('c, 'u) browser_env \<Rightarrow> 'c \<Rightarrow> string \<Rightarrow> (ipv4 \<times> 16 word) list \<Rightarrow> ('c, 'u) browser_result" where
  "reply env client text tried =
     \<lparr>br_client = snd (bp_write_client env client text), br_upstream = None, br_tried = tried\<rparr>"

definition BAD_REQUEST :: string where
  "BAD_REQUEST = ''HTTP/1.1 400 Bad Request'' @ CRLF @ CRLF"

definition FORBIDDEN :: string where
  "FORBIDDEN = ''HTTP/1.1 403 Forbidden'' @ CRLF @ ''Connection: close'' @ CRLF @ CRLF"

definition BAD_GATEWAY :: string where
  "BAD_GATEWAY = ''HTTP/1.1 502 Bad Gateway'' @ CRLF @ ''Connection: close'' @ CRLF @ CRLF"

definition ESTABLISHED :: string where
  "ESTABLISHED = ''HTTP/1.1 200 Connection Established'' @ CRLF @ CRLF"

definition TOO_LARGE :: string where
  "TOO_LARGE = ''HTTP/1.1 431 Request Header Fields Too Large'' @ CRLF @ CRLF"

definition handle_connect ::
  "('c, 'u) browser_env \<Rightarrow> stream_read list \<Rightarrow> 'c \<Rightarrow> string \<Rightarrow> string list option \<Rightarrow> ('c, 'u) browser_result" where
  "handle_connect env reads client target allowed =
     (case parse_connect_target target of
        None \<Rightarrow> reply env client BAD_REQUEST []
      | Some (hostname, port) \<Rightarrow>
          if \<not> is_host_allowed hostname allowed then reply env client FORBIDDEN []
          else (case resolve_and_connect env hostname port of
              (Inl msg, tried) \<Rightarrow> reply env client BAD_GATEWAY tried
            | (Inr upstream, tried) \<Rightarrow>
                (case bp_write_client env client ESTABLISHED of (ok, client) \<Rightarrow>
                   if \<not> ok then \<lparr>br_client = client, br_upstream = Some upstream, br_tried = tried\<rparr>
                   else (case relay_bidirectional env reads client upstream of (client, upstream) \<Rightarrow>
                     \<lparr>br_client = client, br_upstream = Some upstream, br_tried = tried\<rparr>))))"

definition line_end :: "bytes \<Rightarrow> nat" where
  "line_end data = (case find_sub CRLF data of Some i \<Rightarrow> i | None \<Rightarrow> length data)"

definition rewritten_line :: "bytes \<Rightarrow> string \<Rightarrow> string \<Rightarrow> string" where
  "rewritten_line header_data method p =
     (let version_str = (case from_utf8 (take (line_end header_data) header_data) of
                           Some line \<Rightarrow> last (split_on (CHR '' '') line) | None \<Rightarrow> ''HTTP/1.1'')
      in method @ '' '' @ p @ '' '' @ version_str @ CRLF)"

definition handle_forward_http ::
  "('c, 'u) browser_env \<Rightarrow> stream_read list \<Rightarrow> 'c \<Rightarrow> bytes \<Rightarrow> string \<Rightarrow> string \<Rightarrow> string list option
     \<Rightarrow> ('c, 'u) browser_result" where
  "handle_forward_http env reads client header_data method target allowed =
     (case parse_absolute_uri target of
        None \<Rightarrow> reply env client BAD_REQUEST []
      | Some (hostname, port, p) \<Rightarrow>
          if \<not> is_host_allowed hostname allowed then reply env client FORBIDDEN []
          else (case resolve_and_connect env hostname port of
              (Inl msg, tried) \<Rightarrow> reply env client BAD_GATEWAY tried
            | (Inr upstream, tried) \<Rightarrow>
                (case bp_write_upstream env upstream (rewritten_line header_data method p) of (ok, upstream) \<Rightarrow>
                   if \<not> ok then \<lparr>br_client = client, br_upstream = Some upstream, br_tried = tried\<rparr>
                   else (let after_first_line = line_end header_data + 2
                         in case (if after_first_line < length header_data
                                  then bp_write_upstream env upstream (drop after_first_line header_data)
                                  else (True, upstream)) of (ok, upstream) \<Rightarrow>
                           if \<not> ok then \<lparr>br_client = client, br_upstream = Some upstream, br_tried = tried\<rparr>
                           else (case relay_bidirectional env reads client upstream of (client, upstream) \<Rightarrow>
                             \<lparr>br_client = client, br_upstream = Some upstream, br_tried = tried\<rparr>)))))"

text \<open>A read of at most \<open>n\<close> bytes; what the kernel delivered beyond stays for the next read.\<close>

fun read_some :: "nat \<Rightarrow> stream_read list \<Rightarrow> bytes option \<times> stream_read list" where
  "read_some n [] = (Some [], [])"
| "read_some n (Got data # reads) =
     (if length data \<le> n then (Some data, reads) else (Some (take n data), Got (drop n data) # reads))"
| "read_some n (Reset # reads) = (None, reads)"
| "read_some n (Read_fault e # reads) = (None, reads)"

datatype head_read = Head_closed | Head_full | Head_done bytes "stream_read list"

definition BUF_SIZE :: nat where
  "BUF_SIZE = 8192"

function read_head :: "bytes \<Rightarrow> stream_read list \<Rightarrow> head_read" where
  "read_head filled reads =
     (if length filled \<ge> BUF_SIZE then Head_full
      else (case read_some (BUF_SIZE - length filled) reads of
          (None, reads) \<Rightarrow> Head_closed
        | (Some data, reads) \<Rightarrow>
            if data = [] then Head_closed
            else if find_header_end (filled @ data) \<noteq> None then Head_done (filled @ data) reads
            else read_head (filled @ data) reads))"
  by pat_completeness auto
termination by (relation "measure (\<lambda>(filled, reads). BUF_SIZE - length filled)") (auto intro!: diff_less_mono2)

declare read_head.simps [simp del]

text \<open>\<^verbatim>\<open>splitn(3, ' ')\<close>: method and target are its first two parts.\<close>

definition request_parts :: "string \<Rightarrow> string \<times> string" where
  "request_parts line =
     (case split_once (CHR '' '') line of
        None \<Rightarrow> (line, [])
      | Some (method, rest) \<Rightarrow>
          (method, case split_once (CHR '' '') rest of None \<Rightarrow> rest | Some (target, version) \<Rightarrow> target))"

definition handle_proxy_connection ::
  "('c, 'u) browser_env \<Rightarrow> string list option \<Rightarrow> stream_read list \<Rightarrow> 'c \<Rightarrow> ('c, 'u) browser_result" where
  "handle_proxy_connection env allowed reads client =
     (case read_head [] reads of
        Head_closed \<Rightarrow> \<lparr>br_client = client, br_upstream = None, br_tried = []\<rparr>
      | Head_full \<Rightarrow> reply env client TOO_LARGE []
      | Head_done buf reads \<Rightarrow>
          (case from_utf8 (take (line_end buf) buf) of
             None \<Rightarrow> reply env client BAD_REQUEST []
           | Some req_line \<Rightarrow>
               (case request_parts req_line of (method, target) \<Rightarrow>
                  if eq_ignore_ascii_case method ''CONNECT'' then handle_connect env reads client target allowed
                  else handle_forward_http env reads client buf method target allowed)))"

subsection \<open>Containment\<close>

text \<open>The host and port a request line asks for.\<close>

definition requested :: "string \<Rightarrow> (string \<times> 16 word) option" where
  "requested line =
     (case request_parts line of (method, target) \<Rightarrow>
        if eq_ignore_ascii_case method ''CONNECT'' then parse_connect_target target
        else map_option (\<lambda>(hostname, port, p). (hostname, port)) (parse_absolute_uri target))"

lemma connect_first_tried: "connect_first connect e addrs = (r, tried) \<Longrightarrow> prefix tried addrs"
  by (induction addrs arbitrary: e r tried) (auto split: sum.splits prod.splits)

lemma connect_first_stream:
  "connect_first connect e addrs = (Inr s, tried) \<Longrightarrow> \<exists>addr. tried \<noteq> [] \<and> last tried = addr \<and> connect addr = Inr s"
  by (induction addrs arbitrary: e tried) (auto split: sum.splits prod.splits)

text \<open>An address list is fit for use when it has an IPv4 address and no private one.\<close>

definition safe_addrs :: "socket_addr list \<Rightarrow> bool" where
  "safe_addrs addrs \<longleftrightarrow> (\<forall>ip p. V4 ip p \<in> set addrs \<longrightarrow> \<not> is_private_ip ip)"

lemma set_v4_addr: "(ip, p) \<in> set (List.map_filter v4_addr addrs) \<longleftrightarrow> V4 ip p \<in> set addrs"
proof (induction addrs)
  case (Cons a addrs)
  then show ?case by (cases a) (auto simp: map_filter_simps)
qed (simp add: map_filter_simps)

lemma resolve_and_connect_tried:
  assumes "resolve_and_connect env hostname port = (r, tried)"
  shows "tried = [] \<and> (\<exists>e. r = Inl e) \<or>
    (\<exists>addrs. bp_resolve env hostname port = Inr addrs \<and> safe_addrs addrs \<and>
       (\<forall>(ip, p) \<in> set tried. V4 ip p \<in> set addrs) \<and> (\<forall>s. r = Inr s \<longrightarrow> bp_connect env (last tried) = Inr s))"
proof (cases "bp_resolve env hostname port")
  case (Inr all_addrs)
  define addrs where "addrs = List.map_filter v4_addr all_addrs"
  have c: "(if addrs = [] then (Inl No_ipv4, [])
      else case find (\<lambda>(ip, p). is_private_ip ip) addrs of
          Some addr \<Rightarrow> (Inl (Private_addr addr), [])
        | None \<Rightarrow> connect_first (bp_connect env) [] addrs) = (r, tried)"
    using assms Inr unfolding addrs_def by (simp add: resolve_and_connect_def Let_def)
  show ?thesis
  proof (cases "addrs = []")
    case True
    then show ?thesis using c by auto
  next
    case ne: False
    show ?thesis
    proof (cases "find (\<lambda>(ip, p). is_private_ip ip) addrs")
      case (Some addr)
      then have "(Inl (Private_addr addr), []) = (r, tried)" using c ne by (simp only: if_False option.case)
      then show ?thesis by auto
    next
      case None
      then have c': "connect_first (bp_connect env) [] addrs = (r, tried)" using c ne by simp
      have "\<not> is_private_ip ip" if "V4 ip p \<in> set all_addrs" for ip p
        using None that set_v4_addr[of ip p all_addrs] unfolding addrs_def find_None_iff by (metis case_prod_conv)
      then have safe: "safe_addrs all_addrs" unfolding safe_addrs_def by blast
      have in_addrs: "V4 ip p \<in> set all_addrs" if "(ip, p) \<in> set tried" for ip p
        using set_mono_prefix[OF connect_first_tried[OF c']] set_v4_addr[of ip p all_addrs] that
        unfolding addrs_def by blast
      show ?thesis
      proof (intro disjI2 exI[of _ all_addrs] conjI allI impI ballI)
        show "case x of (ip, p) \<Rightarrow> V4 ip p \<in> set all_addrs" if "x \<in> set tried" for x
          using in_addrs[of "fst x" "snd x"] that by (simp add: case_prod_beta)
        show "bp_connect env (last tried) = Inr s" if "r = Inr s" for s
          using connect_first_stream[of "bp_connect env" "[]" addrs s tried] c' that by simp
      qed (rule Inr safe)+
    qed
  qed
qed (use assms in \<open>auto simp: resolve_and_connect_def\<close>)

text \<open>The bytes of a stream up to its end or first error.\<close>

fun stream_bytes :: "stream_read list \<Rightarrow> bytes" where
  "stream_bytes (Got data # reads) = (if data = [] then [] else data @ stream_bytes reads)"
| "stream_bytes _ = []"

lemma read_some_bytes:
  "read_some n reads = (Some data, rest) \<Longrightarrow> data \<noteq> [] \<Longrightarrow> 0 < n \<Longrightarrow>
   length data \<le> n \<and> stream_bytes reads = data @ stream_bytes rest"
  by (cases reads rule: stream_bytes.cases) (auto split: if_splits)

lemma read_head_done:
  "read_head filled reads = Head_done buf rest \<Longrightarrow>
   length buf \<le> BUF_SIZE \<and> find_header_end buf \<noteq> None \<and> filled @ stream_bytes reads = buf @ stream_bytes rest"
proof (induction filled reads rule: read_head.induct)
  case (1 filled reads)
  show ?case
  proof (cases "length filled \<ge> BUF_SIZE")
    case True
    then show ?thesis using 1(2) by (subst (asm) read_head.simps) simp
  next
    case room: False
    obtain d rs where d: "read_some (BUF_SIZE - length filled) reads = (Some d, rs)" "d \<noteq> []"
      using 1(2) room by (subst (asm) read_head.simps) (auto split: prod.splits option.splits if_splits)
    then have b: "length d \<le> BUF_SIZE - length filled" "stream_bytes reads = d @ stream_bytes rs"
      using read_some_bytes room by (metis not_le zero_less_diff)+
    show ?thesis
    proof (cases "find_header_end (filled @ d)")
      case None
      then have "read_head (filled @ d) rs = Head_done buf rest"
        using 1(2) room d by (subst (asm) read_head.simps) simp
      then show ?thesis using 1(1)[OF room d(1)[symmetric] refl d(2)] None b by simp
    next
      case (Some e)
      then have "Head_done (filled @ d) rs = Head_done buf rest"
        using 1(2) room d by (subst (asm) read_head.simps) simp
      then show ?thesis using Some b room by auto
    qed
  qed
qed

lemma reply_sel [simp]:
  "br_upstream (reply env client text tried) = None" "br_tried (reply env client text tried) = tried"
  by (simp_all add: reply_def)

text \<open>What a result may show for a host and port: nothing, or a safe connection to an allowed host.\<close>

definition contained ::
  "('c, 'u) browser_env \<Rightarrow> string list option \<Rightarrow> string \<times> 16 word \<Rightarrow> ('c, 'u) browser_result \<Rightarrow> bool" where
  "contained env allowed hp r \<longleftrightarrow> (case hp of (hostname, port) \<Rightarrow>
     is_host_allowed hostname allowed \<and>
     (\<exists>addrs. bp_resolve env hostname port = Inr addrs \<and> safe_addrs addrs \<and>
        (\<forall>(ip, p) \<in> set (br_tried r). V4 ip p \<in> set addrs)))"

definition untouched :: "('c, 'u) browser_result \<Rightarrow> bool" where
  "untouched r \<longleftrightarrow> br_tried r = [] \<and> br_upstream r = None"

lemma handle_connect_contained:
  assumes "r = handle_connect env reads client target allowed"
  shows "untouched r \<or> (\<exists>hp. parse_connect_target target = Some hp \<and> contained env allowed hp r)"
proof (cases "parse_connect_target target")
  case (Some hp)
  obtain hostname port where hp: "hp = (hostname, port)" by (cases hp)
  obtain res tried where rc: "resolve_and_connect env hostname port = (res, tried)"
    by (cases "resolve_and_connect env hostname port")
  show ?thesis
  proof (cases "is_host_allowed hostname allowed")
    case True
    then have "br_tried r = tried" "untouched r \<or> res \<noteq> Inl e \<or> br_upstream r = None" for e
      using assms Some hp rc by (auto simp: handle_connect_def split: sum.splits prod.splits)
    moreover have "res = Inl e \<Longrightarrow> br_upstream r = None" for e
      using True assms Some hp rc by (simp add: handle_connect_def)
    ultimately show ?thesis
      using resolve_and_connect_tried[OF rc] True Some hp by (auto simp: untouched_def contained_def)
  next
    case False
    then show ?thesis using assms Some hp by (simp add: handle_connect_def untouched_def)
  qed
qed (use assms in \<open>simp add: handle_connect_def untouched_def\<close>)

lemma handle_forward_http_contained:
  assumes "r = handle_forward_http env reads client header_data method target allowed"
  shows "untouched r \<or> (\<exists>hostname port p. parse_absolute_uri target = Some (hostname, port, p)
      \<and> contained env allowed (hostname, port) r)"
proof (cases "parse_absolute_uri target")
  case (Some hp)
  obtain hostname port p where hp: "hp = (hostname, port, p)" by (cases hp)
  obtain res tried where rc: "resolve_and_connect env hostname port = (res, tried)"
    by (cases "resolve_and_connect env hostname port")
  show ?thesis
  proof (cases "is_host_allowed hostname allowed")
    case True
    then have "br_tried r = tried"
      using assms Some hp rc by (auto simp: handle_forward_http_def Let_def split: sum.splits prod.splits)
    moreover have "res = Inl e \<Longrightarrow> br_upstream r = None" for e
      using True assms Some hp rc by (simp add: handle_forward_http_def)
    ultimately show ?thesis
      using resolve_and_connect_tried[OF rc] True Some hp by (auto simp: untouched_def contained_def)
  next
    case False
    then show ?thesis using assms Some hp by (simp add: handle_forward_http_def untouched_def)
  qed
qed (use assms in \<open>simp add: handle_forward_http_def untouched_def\<close>)

lemma blocked_reply:
  assumes "requested line = Some (hostname, port)" "\<not> is_host_allowed hostname allowed"
    "read_head [] reads = Head_done buf rest" "from_utf8 (take (line_end buf) buf) = Some line"
  shows "handle_proxy_connection env allowed reads client = reply env client FORBIDDEN []"
  using assms by (auto simp: handle_proxy_connection_def requested_def handle_connect_def handle_forward_http_def
      split: prod.splits if_splits)

text \<open>With writers that append, the upstream of a plain request gets the rewritten request line, the
  other header lines and the body as the client sent them.\<close>

lemma copy_loop_append:
  "(\<And>w d. write w d = (True, w @ d)) \<Longrightarrow> copy_loop write reads w = w @ stream_bytes reads"
  by (induction reads arbitrary: w rule: stream_bytes.induct) auto

lemma forwarded_bytes:
  assumes "parse_absolute_uri target = Some (hostname, port, p)" "is_host_allowed hostname allowed"
    "resolve_and_connect env hostname port = (Inr [], tried)" "bp_clone_ok env"
    "bp_write_upstream env = (\<lambda>w d. (True, w @ d))" "bp_shutdown_upstream env = id" "find_sub CRLF buf = Some i"
  shows "br_upstream (handle_forward_http env rest client buf method target allowed)
    = Some (rewritten_line buf method p @ drop (i + 2) buf @ stream_bytes rest)"
  using assms copy_loop_append[of "bp_write_upstream env" rest]
  by (auto simp: handle_forward_http_def relay_bidirectional_def line_end_def Let_def)

subsection \<open>The accept loop\<close>

definition MAX_PROXY_WORKERS :: nat where
  "MAX_PROXY_WORKERS = 32"

text \<open>\<open>active\<close> is the counter of the code, \<open>workers\<close> the connection threads that run. An event is what
  the next poll of the loop sees, or the end of a worker.\<close>

record allow_proxy =
  active :: nat
  workers :: nat
  accepting :: bool

datatype proxy_event = Client_arrived bool | No_client | Accept_failed | Worker_done | Shutdown_set

definition proxy_event :: "proxy_event \<Rightarrow> allow_proxy \<Rightarrow> allow_proxy" where
  "proxy_event e st =
     (case e of
        Client_arrived spawn_ok \<Rightarrow>
          if \<not> accepting st \<or> active st \<ge> MAX_PROXY_WORKERS then st
          else (let st = st\<lparr>active := active st + 1\<rparr>
                in if spawn_ok then st\<lparr>workers := workers st + 1\<rparr> else st)
      | No_client \<Rightarrow> st
      | Accept_failed \<Rightarrow> st\<lparr>accepting := False\<rparr>
      | Worker_done \<Rightarrow> if workers st = 0 then st else st\<lparr>active := active st - 1, workers := workers st - 1\<rparr>
      | Shutdown_set \<Rightarrow> st\<lparr>accepting := False\<rparr>)"

definition run_allowlist_proxy :: "proxy_event list \<Rightarrow> allow_proxy" where
  "run_allowlist_proxy evs =
     foldl (\<lambda>st e. proxy_event e st) \<lparr>active = 0, workers = 0, accepting = True\<rparr> evs"

definition proxy_bounded :: "allow_proxy \<Rightarrow> bool" where
  "proxy_bounded st \<longleftrightarrow> workers st \<le> active st \<and> active st \<le> MAX_PROXY_WORKERS"

lemma proxy_event_bounded: "proxy_bounded st \<Longrightarrow> proxy_bounded (proxy_event e st)"
  by (cases e) (auto simp: proxy_event_def proxy_bounded_def Let_def)

lemma run_allowlist_proxy_bounded: "proxy_bounded (run_allowlist_proxy evs)"
proof -
  have "proxy_bounded st \<Longrightarrow> proxy_bounded (foldl (\<lambda>st e. proxy_event e st) st evs)" for st
    by (induction evs arbitrary: st) (auto intro: proxy_event_bounded)
  then show ?thesis by (simp add: run_allowlist_proxy_def proxy_bounded_def)
qed

text \<open>A failed spawn never gives its slot back: after 32 of them no client is served any more.\<close>

lemma spawn_failures_close_proxy:
  "active (run_allowlist_proxy (replicate 32 (Client_arrived False))) = MAX_PROXY_WORKERS \<and>
   workers (run_allowlist_proxy (replicate 32 (Client_arrived False) @ [Client_arrived True])) = 0"
  by (simp add: run_allowlist_proxy_def MAX_PROXY_WORKERS_def proxy_event_def numeral_eq_Suc)

subsection \<open>Properties\<close>

text \<open>
  C18: the browser's proxy is no way around the allowlist. Whatever the client sends and the network
  answers, a connection attempt is made only when the request line, taken from the first 8192 bytes
  of the client, names a host the allowlist admits, and then only to IPv4 addresses that name
  resolves to, none of which is private; otherwise nothing is contacted. A request for any other
  host gets exactly the 403 answer. At most 32 connections are served at a time.
\<close>
theorem browser_proxy_contained:
  "(case read_head [] reads of
      Head_done buf rest \<Rightarrow> length buf \<le> 8192 \<and> stream_bytes reads = buf @ stream_bytes rest
    | _ \<Rightarrow> untouched (handle_proxy_connection env allowed reads client))
   \<and> (untouched (handle_proxy_connection env allowed reads client) \<or>
      (\<exists>buf rest line hp. read_head [] reads = Head_done buf rest \<and> from_utf8 (take (line_end buf) buf) = Some line
         \<and> requested line = Some hp \<and> contained env allowed hp (handle_proxy_connection env allowed reads client)))
   \<and> (case read_head [] reads of
        Head_done buf rest \<Rightarrow>
          (case Option.bind (from_utf8 (take (line_end buf) buf)) requested of
             Some (hostname, port) \<Rightarrow>
               is_host_allowed hostname allowed \<or>
               handle_proxy_connection env allowed reads client = reply env client FORBIDDEN []
           | None \<Rightarrow> untouched (handle_proxy_connection env allowed reads client))
      | _ \<Rightarrow> True)
   \<and> workers (run_allowlist_proxy evs) \<le> 32"
proof -
  let ?r = "handle_proxy_connection env allowed reads client"
  have unt: "untouched (reply env client msg [])" for msg by (simp add: untouched_def)
  have w: "workers (run_allowlist_proxy evs) \<le> 32"
    using run_allowlist_proxy_bounded[of evs] by (simp add: proxy_bounded_def MAX_PROXY_WORKERS_def)
  show ?thesis
  proof (cases "read_head [] reads")
    case (Head_done buf rest)
    have b: "length buf \<le> 8192 \<and> stream_bytes reads = buf @ stream_bytes rest"
      using read_head_done[OF Head_done] by (simp add: BUF_SIZE_def)
    show ?thesis
    proof (cases "from_utf8 (take (line_end buf) buf)")
      case None
      then have "?r = reply env client BAD_REQUEST []" using Head_done by (simp add: handle_proxy_connection_def)
      then show ?thesis using Head_done None b w unt by simp
    next
      case (Some line)
      have c: "untouched ?r \<or> (\<exists>hp. requested line = Some hp \<and> contained env allowed hp ?r)"
      proof -
        obtain verb target where mt: "request_parts line = (verb, target)" by (cases "request_parts line")
        have r: "?r = (if eq_ignore_ascii_case verb ''CONNECT'' then handle_connect env rest client target allowed
            else handle_forward_http env rest client buf verb target allowed)"
          using Head_done Some mt by (simp add: handle_proxy_connection_def)
        show ?thesis
        proof (cases "eq_ignore_ascii_case verb ''CONNECT''")
          case True
          then show ?thesis
            using handle_connect_contained[of ?r env rest client target allowed] r mt by (simp add: requested_def)
        next
          case False
          then show ?thesis
            using handle_forward_http_contained[of ?r env rest client buf verb target allowed] r mt
            by (fastforce simp: requested_def)
        qed
      qed
      show ?thesis
      proof (cases "requested line")
        case None
        then show ?thesis using c Head_done Some b w by auto
      next
        case (Some hp)
        then show ?thesis
          using c Head_done \<open>from_utf8 _ = Some line\<close> b w
            blocked_reply[of line "fst hp" "snd hp" allowed reads buf rest env client]
          by (cases hp) auto
      qed
    qed
  qed (use unt w in \<open>simp_all add: handle_proxy_connection_def untouched_def\<close>)
qed

end
