(* ===== verification/Chrome.thy ===== *)
theory Chrome
  imports Browser
begin

text \<open>
  Starting and stopping the browser process, \<^verbatim>\<open>Browser::launch\<close>, \<^verbatim>\<open>spawn_chrome\<close> and the \<^verbatim>\<open>Drop\<close>
  of \<^verbatim>\<open>src/src/browser.rs\<close>. What the operating system answers at each step is a record; the world
  is what a launch may leave behind: profile directories, the proxy thread, the process group.
\<close>

record browser_world =
  profiles :: "path list"
  proxy_running :: bool
  chrome_group :: "32 word option"

record browser =
  b_pid :: "32 word"
  b_profile_dir :: path
  b_proxy_port :: "16 word"

record launch_env =
  le_chrome :: "path option"
  le_cdp_free :: bool
  le_random :: "string + bytes"
  le_temp_dir :: path
  le_mkdir :: "string + unit"
  le_bind :: "string + unit"
  le_local_addr :: "string + 16 word"
  le_nonblocking :: "string + unit"
  le_thread :: "string + unit"
  le_spawn :: "string + 32 word"
  le_cdp_answers :: "nat option list"  \<comment> \<open>the polls before the deadline: an HTTP status, or no answer\<close>
  le_exit_status :: "string option"
  le_stderr :: string

definition BROWSER_CDP_PORT :: "16 word" where
  "BROWSER_CDP_PORT = 9222"

definition spawn_chrome_args :: "path \<Rightarrow> 16 word \<Rightarrow> string list" where
  "spawn_chrome_args profile_dir proxy_port =
     [''--headless=new'', ''--remote-debugging-port='' @ show_nat (unat BROWSER_CDP_PORT),
      ''--remote-debugging-address=127.0.0.1'', ''--user-data-dir='' @ profile_dir, ''--no-first-run'',
      ''--disable-extensions'', ''--disable-sync'', ''--disable-background-networking'',
      ''--proxy-server=http://127.0.0.1:'' @ show_nat (unat proxy_port), ''--proxy-bypass-list=<-loopback>'',
      ''about:blank'']"

definition poll_cdp_ready :: "nat option list \<Rightarrow> bool" where
  "poll_cdp_ready answers = list_ex (\<lambda>r. r = Some 200) answers"

definition cleanup_proxy :: "path \<Rightarrow> browser_world \<Rightarrow> browser_world" where
  "cleanup_proxy profile_dir w = w\<lparr>proxy_running := False, profiles := remove1 profile_dir (profiles w)\<rparr>"

text \<open>The steps up to the proxy thread: an error leaves what the earlier steps made.\<close>

definition prepare_launch :: "launch_env \<Rightarrow> browser_world \<Rightarrow> (string + path \<times> path \<times> 16 word) \<times> browser_world" where
  "prepare_launch env w =
     (case le_chrome env of
        None \<Rightarrow> (Inl ''no Chrome/Chromium binary found on PATH. Install chromium or google-chrome.'', w)
      | Some chrome \<Rightarrow>
          if \<not> le_cdp_free env then (Inl ''port 9222 is already in use. Stop the existing Chrome/CDP process.'', w)
          else (case le_random env of
              Inl e \<Rightarrow> (Inl (''failed to generate random bytes: '' @ e), w)
            | Inr rng_buf \<Rightarrow>
                (let profile_dir = path_join (le_temp_dir env) (''redan-chrome-'' @ hex_encode rng_buf)
                 in case le_mkdir env of
                      Inl e \<Rightarrow> (Inl (''failed to create profile dir: '' @ e), w)
                    | Inr _ \<Rightarrow>
                        (let w = w\<lparr>profiles := profile_dir # profiles w\<rparr>
                         in case le_bind env of
                              Inl e \<Rightarrow> (Inl (''failed to bind allowlist proxy: '' @ e), w)
                            | Inr _ \<Rightarrow> (case le_local_addr env of
                                Inl e \<Rightarrow> (Inl (''failed to get proxy address: '' @ e), w)
                              | Inr proxy_port \<Rightarrow> (case le_nonblocking env of
                                  Inl e \<Rightarrow> (Inl (''failed to set listener non-blocking: '' @ e), w)
                                | Inr _ \<Rightarrow> (case le_thread env of
                                    Inl e \<Rightarrow> (Inl (''failed to spawn proxy thread: '' @ e), w)
                                  | Inr _ \<Rightarrow> (Inr (chrome, profile_dir, proxy_port), w\<lparr>proxy_running := True\<rparr>))))))))"

definition launch :: "launch_env \<Rightarrow> browser_world \<Rightarrow> (string + browser) \<times> browser_world" where
  "launch env w =
     (case prepare_launch env w of
        (Inl e, w) \<Rightarrow> (Inl e, w)
      | (Inr (chrome, profile_dir, proxy_port), w) \<Rightarrow>
          (case le_spawn env of
             Inl e \<Rightarrow> (Inl (''failed to launch Chrome at '' @ chrome @ '': '' @ e), cleanup_proxy profile_dir w)
           | Inr pid \<Rightarrow>
               (let w = w\<lparr>chrome_group := Some pid\<rparr>
                in if \<not> poll_cdp_ready (le_cdp_answers env)
                   then (Inl (case le_exit_status env of
                                Some status \<Rightarrow>
                                  if le_stderr env = [] then ''Chrome exited with '' @ status @ '' before CDP was ready''
                                  else ''Chrome exited with '' @ status @ '': '' @ str_trim (le_stderr env)
                              | None \<Rightarrow> ''Chrome started but CDP endpoint did not respond within 10s''),
                         cleanup_proxy profile_dir (w\<lparr>chrome_group := None\<rparr>))
                   else (Inr \<lparr>b_pid = pid, b_profile_dir = profile_dir, b_proxy_port = proxy_port\<rparr>, w))))"

subsection \<open>Teardown\<close>

text \<open>The argument of \<^verbatim>\<open>kill\<close>, when it is called at all.\<close>

definition signal_process_group :: "32 word \<Rightarrow> signal \<Rightarrow> (int \<times> signal) list" where
  "signal_process_group pid sig =
     (case pid_try_from pid of
        None \<Rightarrow> []
      | Some pgid \<Rightarrow> if pgid \<le> 1 then [] else [(- pgid, sig)])"

text \<open>\<open>exited\<close>: what \<^verbatim>\<open>try_wait\<close> says in the polls before the two-second deadline.\<close>

definition drop_browser :: "bool list \<Rightarrow> browser \<Rightarrow> browser_world \<Rightarrow> (int \<times> signal) list \<times> browser_world" where
  "drop_browser exited b w =
     (signal_process_group (b_pid b) SIGTERM
        @ (if list_ex id exited then [] else signal_process_group (b_pid b) SIGKILL),
      w\<lparr>proxy_running := False, chrome_group := None, profiles := remove1 (b_profile_dir b) (profiles w)\<rparr>)"

lemma signal_process_group_target:
  "(target, sig) \<in> set (signal_process_group pid s) \<Longrightarrow> kill_scope target = Group (uint pid) \<and> sig = s"
  by (auto simp: signal_process_group_def pid_try_from_def kill_scope_group split: if_splits)

lemma prepare_launch_Inr:
  "prepare_launch env w = (Inr (chrome, dir, port), w') \<Longrightarrow>
   w' = w\<lparr>profiles := dir # profiles w, proxy_running := True\<rparr>"
  by (auto simp: prepare_launch_def Let_def split: option.splits sum.splits if_splits)

text \<open>A launch that fails once the proxy thread runs, and a launch followed by the teardown, both
  leave the world as it was; the teardown signals no other process than the browser's group.\<close>

lemma launch_restores:
  assumes "launch env w = (r, w')" "\<not> proxy_running w" "chrome_group w = None"
    "prepare_launch env w = (Inr p, w1)"
  shows "case r of Inl e \<Rightarrow> w' = w | Inr b \<Rightarrow> snd (drop_browser exited b w') = w"
proof -
  obtain chrome dir port where p: "p = (chrome, dir, port)" by (cases p)
  then have w1: "w1 = w\<lparr>profiles := dir # profiles w, proxy_running := True\<rparr>" using prepare_launch_Inr assms(4) by blast
  show ?thesis
    using assms p w1
    by (cases w) (auto simp: launch_def cleanup_proxy_def drop_browser_def Let_def split: sum.splits if_splits)
qed

lemma drop_browser_scope:
  "(target, sig) \<in> set (fst (drop_browser exited b w)) \<Longrightarrow> kill_scope target = Group (uint (b_pid b))"
  using signal_process_group_target by (auto simp: drop_browser_def split: if_splits)

end
