(* ===== verification/Terminal.thy ===== *)
theory Terminal
  imports Main
begin

text \<open>
  The terminal, \<^verbatim>\<open>src/src/terminal.rs\<close>: its size, the saved settings and the raw mode of
  \<^verbatim>\<open>redan attach\<close>. The settings are of any type \<open>'m\<close>; what the system calls answer is part of the
  state, \<^verbatim>\<open>cfmakeraw\<close> a parameter. \<open>tm_saved\<close> is the global \<^verbatim>\<open>SAVED_TERMIOS\<close>, \<open>tm_poisoned\<close> says
  that its mutex cannot be locked.
\<close>

record 'm terminal =
  tm_tty :: bool
  tm_mode :: 'm
  tm_get_err :: "string option"
  tm_set_err :: "string option"
  tm_winsize :: "(nat \<times> nat) option"
  tm_saved :: "'m option"
  tm_poisoned :: bool

definition host_terminal_size :: "'m terminal \<Rightarrow> (nat \<times> nat) option" where
  "host_terminal_size t =
     (if \<not> tm_tty t then None
      else (case tm_winsize t of
          None \<Rightarrow> None
        | Some (cols, rows) \<Rightarrow> if cols > 0 \<and> rows > 0 then Some (cols, rows) else None))"

definition get_termios :: "'m terminal \<Rightarrow> string + 'm" where
  "get_termios t = (case tm_get_err t of Some e \<Rightarrow> Inl e | None \<Rightarrow> Inr (tm_mode t))"

definition set_termios :: "'m \<Rightarrow> 'm terminal \<Rightarrow> (string + unit) \<times> 'm terminal" where
  "set_termios m t = (case tm_set_err t of Some e \<Rightarrow> (Inl e, t) | None \<Rightarrow> (Inr (), t\<lparr>tm_mode := m\<rparr>))"

definition restore_saved_terminal :: "'m terminal \<Rightarrow> 'm terminal" where
  "restore_saved_terminal t =
     (if tm_poisoned t then t
      else (case tm_saved t of None \<Rightarrow> t | Some original \<Rightarrow> snd (set_termios original t)))"

definition save_terminal :: "'m terminal \<Rightarrow> 'm terminal" where
  "save_terminal t =
     (if \<not> tm_tty t then t
      else (case get_termios t of
          Inl e \<Rightarrow> t
        | Inr current \<Rightarrow>
            if \<not> tm_poisoned t \<and> tm_saved t = None then t\<lparr>tm_saved := Some current\<rparr> else t))"

text \<open>The guard holds the original settings; dropping it sets them again, best effort.\<close>

definition enter_raw :: "('m \<Rightarrow> 'm) \<Rightarrow> 'm terminal \<Rightarrow> (string + 'm) \<times> 'm terminal" where
  "enter_raw make_raw t =
     (if \<not> tm_tty t then (Inl ''stdin is not a TTY'', t)
      else (case get_termios t of
          Inl e \<Rightarrow> (Inl e, t)
        | Inr original \<Rightarrow>
            (case set_termios (make_raw original) t of
               (Inl e, t) \<Rightarrow> (Inl e, t)
             | (Inr _, t) \<Rightarrow> (Inr original, t))))"

definition drop_raw :: "'m \<Rightarrow> 'm terminal \<Rightarrow> 'm terminal" where
  "drop_raw original t = snd (set_termios original t)"

lemmas terminal_defs = get_termios_def set_termios_def restore_saved_terminal_def save_terminal_def enter_raw_def drop_raw_def

text \<open>Whatever mode the terminal was put into in between, restoring brings back the settings of the
  first save; saving again and restoring again change nothing.\<close>

definition usable :: "'m terminal \<Rightarrow> bool" where
  "usable t \<longleftrightarrow> tm_tty t \<and> tm_get_err t = None \<and> tm_set_err t = None \<and> \<not> tm_poisoned t"

lemma save_keeps_mode [simp]: "tm_mode (save_terminal t) = tm_mode t"
  by (simp add: terminal_defs split: option.splits sum.splits)

lemma save_saved: "usable t \<Longrightarrow> tm_saved t = None \<Longrightarrow> save_terminal t = t\<lparr>tm_saved := Some (tm_mode t)\<rparr>"
  by (simp add: terminal_defs usable_def)

lemma save_not_tty: "\<not> tm_tty t \<Longrightarrow> save_terminal t = t"
  by (simp add: save_terminal_def)

lemma restore_saved: "usable t \<Longrightarrow> tm_saved t = Some m \<Longrightarrow> restore_saved_terminal t = t\<lparr>tm_mode := m\<rparr>"
  by (simp add: terminal_defs usable_def)

lemma restore_undoes: "usable t \<Longrightarrow> tm_saved t = None \<Longrightarrow>
   tm_mode (restore_saved_terminal ((save_terminal t)\<lparr>tm_mode := m\<rparr>)) = tm_mode t"
  by (simp add: save_saved) (simp add: terminal_defs usable_def)

lemma save_idem: "save_terminal (save_terminal t) = save_terminal t"
  by (auto simp: terminal_defs split: option.splits)

lemma restore_idem: "restore_saved_terminal (restore_saved_terminal t) = restore_saved_terminal t"
  by (auto simp: terminal_defs split: option.splits)

lemma enter_drop:
  assumes "enter_raw make_raw t = (r, t')"
  shows "(\<exists>e. r = Inl e) \<and> t' = t \<or> r = Inr (tm_mode t) \<and> t' = t\<lparr>tm_mode := make_raw (tm_mode t)\<rparr> \<and> drop_raw (tm_mode t) t' = t"
  using assms by (auto simp: terminal_defs split: option.splits if_splits)

end
