(* ===== verification/Run.thy ===== *)
theory Run
  imports Daemon Proxy Chrome Terminal
begin

text \<open>
  One session from start to end, \<^verbatim>\<open>run\<close> of \<^verbatim>\<open>src/src/cmd/exec.rs\<close> with \<^verbatim>\<open>Vm::boot\<close> of
  \<^verbatim>\<open>src/src/vm.rs\<close>: the session directory, the certificate, the preparation, the boot, the forwards,
  the browser, the proxy loop and the teardown. The world is everything the process can leave behind;
  what the operating system answers, the certificate authority and what the guest does to shared
  files and to the terminal are parameters. A \<^verbatim>\<open>process::exit\<close> ends the run where it stands: no
  destructor runs, so the world it leaves is the one returned.
\<close>

subsection \<open>The world\<close>

datatype vm_child = Not_booted | Booted vm_config | Ended int bool  \<comment> \<open>exit code, killed\<close>

record proxied =
  px_secrets :: "secret_binding list"
  px_timeout :: nat
  px_allowed :: "string list option"
  px_audit_log :: path
  px_discover :: bool
  px_forwards :: "forward_spec list"

record 'm world =
  w_fs :: linked_host
  w_term :: "'m terminal"
  w_stderr :: "path option"
  w_vm :: vm_child
  w_sigint_ignored :: bool
  w_browser :: browser_world
  w_proxied :: "proxied option"
  w_report :: "string list"

record ('s, 'a, 'm) run_env =
  re_daemon :: daemon_env
  re_fresh_id :: string
  re_ca :: "string + string"  \<comment> \<open>the PEM of a generated authority\<close>
  re_secret :: secret_env
  re_pair :: "string + unit"
  re_fork :: "string + unit"
  re_signal_ok :: bool
  re_clone :: "string + unit"
  re_launch :: launch_env
  re_browser_exited :: "bool list"
  re_nonblocking :: "string + unit"
  re_address_ok :: bool
  re_listen :: "'s listen_ops"
  re_tcp :: "'s tcp_ops"
  re_capacity :: nat
  re_dns_socket :: "nat \<times> 's"
  re_turns :: "('s, 'a) turn_input list"
  re_guest_files :: "linked_host \<Rightarrow> linked_host"
  re_boot_mode :: "'m \<Rightarrow> 'm"  \<comment> \<open>what the child does to the terminal as soon as it runs\<close>
  re_guest_mode :: "'m \<Rightarrow> 'm"
  re_wait :: "wait_result \<times> wait_result"

datatype run_end = R_exit exit | R_code int | R_serving | R_panic

subsection \<open>The steps\<close>

text \<open>\<^verbatim>\<open>OpenOptions::new().create(true).append(true).open(path)\<close>.\<close>

definition open_append :: "path \<Rightarrow> host \<Rightarrow> host option" where
  "open_append p h =
     (if \<not> writable h p then None
      else (case entry h p of
          Some Directory \<Rightarrow> None
        | Some (Regular m r c) \<Rightarrow> Some h
        | None \<Rightarrow> Some (h\<lparr>entry := (entry h)(p \<mapsto> Regular 420 True [])\<rparr>)))"

definition redirect_logs :: "path \<Rightarrow> 'm world \<Rightarrow> 'm world" where
  "redirect_logs p w =
     (case open_append p (snd (w_fs w)) of
        None \<Rightarrow> w
      | Some h \<Rightarrow> w\<lparr>w_fs := (fst (w_fs w), h), w_stderr := Some p\<rparr>)"

text \<open>\<^verbatim>\<open>Vm::boot\<close> as its caller sees it: a socket pair, then a fork. The child shares the terminal.\<close>

definition set_mode :: "('m \<Rightarrow> 'm) \<Rightarrow> 'm world \<Rightarrow> 'm world" where
  "set_mode f w = w\<lparr>w_term := (w_term w)\<lparr>tm_mode := f (tm_mode (w_term w))\<rparr>\<rparr>"

definition boot :: "('s, 'a, 'm) run_env \<Rightarrow> vm_config \<Rightarrow> 'm world \<Rightarrow> (string + unit) \<times> 'm world" where
  "boot env cfg w =
     (case re_pair env of
        Inl e \<Rightarrow> (Inl e, w)
      | Inr _ \<Rightarrow> (case re_fork env of
          Inl e \<Rightarrow> (Inl e, w)
        | Inr _ \<Rightarrow> (Inr (), set_mode (re_boot_mode env) (w\<lparr>w_vm := Booted cfg\<rparr>))))"

text \<open>From the session to the plan: what happens before anything is started.\<close>

definition run_setup ::
  "('s, 'a, 'm) run_env \<Rightarrow> exec_call \<Rightarrow> 'm world \<Rightarrow> (exit + session_meta \<times> path \<times> exec_plan) \<times> 'm world" where
  "run_setup env call w =
     (case start_session (re_daemon env) (re_fresh_id env) call (snd (w_fs w)) of
        (Inl e, h) \<Rightarrow> (Inl e, w\<lparr>w_fs := (fst (w_fs w), h)\<rparr>)
      | (Inr (i, meta), h) \<Rightarrow>
          (let w = w\<lparr>w_fs := (fst (w_fs w), h)\<rparr>
           in case session_dir h i of
                Inl e \<Rightarrow> (Inl e, w)
              | Inr dir \<Rightarrow>
                  (let w = (if xc_log_to_file call then redirect_logs (path_join dir ''redan.log'') w else w)
                   in case audit_log_of call i (snd (w_fs w)) of
                        Inl e \<Rightarrow> (Inl e, w)
                      | Inr audit_log \<Rightarrow>
                          (case re_ca env of
                             Inl e \<Rightarrow> (Inl (Exit 1 (''failed to generate MITM CA: '' @ e)), w)
                           | Inr pem \<Rightarrow>
                               (case install_ca_cert (ec_rootfs (xc_config call)) pem (w_fs w) of
                                  (ok, lh) \<Rightarrow>
                                    (if \<not> ok then (Inl (Exit 1 ''failed to install CA cert in rootfs''), w\<lparr>w_fs := lh\<rparr>)
                                     else (case exec_prepare (re_secret env) (xc_config call) lh of
                                         (Inl e, lh) \<Rightarrow> (Inl e, w\<lparr>w_fs := lh\<rparr>)
                                       | (Inr plan, lh) \<Rightarrow> (Inr (meta, audit_log, plan), w\<lparr>w_fs := lh\<rparr>))))))))"

text \<open>From the boot to the forwards the proxy is to serve.\<close>

definition start_browser :: "launch_env \<Rightarrow> forward_spec list \<Rightarrow> 'm world \<Rightarrow> (exit + browser \<times> forward_spec list) \<times> 'm world" where
  "start_browser env fwds w =
     (case launch env (w_browser w) of
        (Inl e, bw) \<Rightarrow> (Inl (Exit 1 (''error: failed to launch browser: '' @ e)), w\<lparr>w_browser := bw\<rparr>)
      | (Inr b, bw) \<Rightarrow>
          (case browser_forward fwds of
             Inl e \<Rightarrow> (Inl e, w\<lparr>w_browser := bw\<rparr>)
           | Inr fwds \<Rightarrow> (Inr (b, fwds), w\<lparr>w_browser := bw\<rparr>)))"

definition run_start ::
  "('s, 'a, 'm) run_env \<Rightarrow> exec_config \<Rightarrow> exec_plan \<Rightarrow> 'm world \<Rightarrow> (exit + browser option \<times> forward_spec list) \<times> 'm world" where
  "run_start env cfg plan w =
     (let w = w\<lparr>w_term := save_terminal (w_term w)\<rparr>
      in case boot env (pl_vm plan) w of
           (Inl e, w) \<Rightarrow> (Inl (Exit 1 (''failed to boot VM: '' @ e)), w)
         | (Inr _, w) \<Rightarrow>
             (let w = (if re_signal_ok env then w\<lparr>w_sigint_ignored := True\<rparr> else w)
              in case re_clone env of
                   Inl e \<Rightarrow> (Inl (Exit 1 (''failed to clone VM network socket: '' @ e)), w)
                 | Inr _ \<Rightarrow>
                     (case parse_forwards (ec_forward_specs cfg) [] of
                        Inl e \<Rightarrow> (Inl e, w)
                      | Inr fwds \<Rightarrow>
                          if \<not> ec_browser cfg then (Inr (None, fwds), w)
                          else (case start_browser (re_launch env) fwds w of
                              (Inl e, w) \<Rightarrow> (Inl e, w)
                            | (Inr (b, fwds), w) \<Rightarrow> (Inr (Some b, fwds), w)))))"

text \<open>\<^verbatim>\<open>proxy::run\<close>: the audit log is opened, then the loop serves until it returns the hosts it
  discovered. While it runs the guest changes shared files and the terminal.\<close>

definition guest_acts :: "('s, 'a, 'm) run_env \<Rightarrow> 'm world \<Rightarrow> 'm world" where
  "guest_acts env w = set_mode (re_guest_mode env) (w\<lparr>w_fs := re_guest_files env (w_fs w)\<rparr>)"

definition run_proxy ::
  "('s, 'a, 'm) run_env \<Rightarrow> proxied \<Rightarrow> 'm world \<Rightarrow> (run_end + string list) \<times> 'm world" where
  "run_proxy env px w =
     (case open_append (px_audit_log px) (snd (w_fs w)) of
        None \<Rightarrow> (Inl (R_exit (Exit 1 (''cannot open audit log '' @ px_audit_log px))), w)
      | Some h \<Rightarrow>
          (let w = guest_acts env (w\<lparr>w_fs := (fst (w_fs w), h), w_proxied := Some px\<rparr>)
           in case re_nonblocking env of
                Inl e \<Rightarrow> (Inr [], w)
              | Inr _ \<Rightarrow>
                  if \<not> re_address_ok env then (Inr [], w)
                  else (case proxy_run (re_listen env) (re_tcp env) (re_capacity env) (px_timeout px) (px_discover px)
                               (px_allowed px) (re_dns_socket env) (px_forwards px) (re_turns env) of
                      None \<Rightarrow> (Inl R_panic, w)
                    | Some (Inr st) \<Rightarrow> (Inl R_serving, w)
                    | Some (Inl seen) \<Rightarrow> (Inr seen, w))))"

text \<open>The guest is reaped, the terminal restored, the hosts reported and the session closed; the
  browser is dropped when the function returns.\<close>

definition run_finish ::
  "('s, 'a, 'm) run_env \<Rightarrow> exec_config \<Rightarrow> session_meta \<Rightarrow> browser option \<Rightarrow> string list \<Rightarrow> 'm world \<Rightarrow> run_end \<times> 'm world" where
  "run_finish env cfg meta browser seen w =
     (case shutdown (fst (re_wait env)) (snd (re_wait env)) of
        (code, killed) \<Rightarrow>
          (let w = w\<lparr>w_vm := Ended code killed, w_term := restore_saved_terminal (w_term w),
                     w_report := w_report w @ discover_report (ec_discover cfg) seen\<rparr>
           in case finish (dv_sessions (re_daemon env)) (code = 0) meta (snd (w_fs w)) of
                Inl e \<Rightarrow> (R_exit e, w)
              | Inr (meta, h) \<Rightarrow>
                  (let w = w\<lparr>w_fs := (fst (w_fs w), h)\<rparr>
                   in (R_code code,
                       case browser of
                         None \<Rightarrow> w
                       | Some b \<Rightarrow> w\<lparr>w_browser := snd (drop_browser (re_browser_exited env) b (w_browser w))\<rparr>))))"

definition exec_run :: "('s, 'a, 'm) run_env \<Rightarrow> exec_call \<Rightarrow> 'm world \<Rightarrow> run_end \<times> 'm world" where
  "exec_run env call w =
     (case run_setup env call w of
        (Inl e, w) \<Rightarrow> (R_exit e, w)
      | (Inr (meta, audit_log, plan), w) \<Rightarrow>
          (case run_start env (xc_config call) plan w of
             (Inl e, w) \<Rightarrow> (R_exit e, w)
           | (Inr (browser, fwds), w) \<Rightarrow>
               (case run_proxy env \<lparr>px_secrets = pl_secrets plan, px_timeout = ec_timeout (xc_config call),
                        px_allowed = pl_allowed plan, px_audit_log = audit_log,
                        px_discover = ec_discover (xc_config call), px_forwards = fwds\<rparr> w of
                  (Inl r, w) \<Rightarrow> (r, w)
                | (Inr seen, w) \<Rightarrow> run_finish env (xc_config call) meta browser seen w)))"

subsection \<open>What the steps leave alone\<close>

text \<open>Two worlds that differ in files and the log at most.\<close>

definition same_but_files :: "'m world \<Rightarrow> 'm world \<Rightarrow> bool" where
  "same_but_files w w' \<longleftrightarrow> w_term w' = w_term w \<and> w_vm w' = w_vm w \<and> w_sigint_ignored w' = w_sigint_ignored w
     \<and> w_browser w' = w_browser w \<and> w_proxied w' = w_proxied w \<and> w_report w' = w_report w"

lemma same_but_files_refl [simp]: "same_but_files w w"
  by (simp add: same_but_files_def)

lemma same_but_files_update [simp]:
  "same_but_files w (w'\<lparr>w_fs := x\<rparr>) = same_but_files w w'" "same_but_files w (w'\<lparr>w_stderr := y\<rparr>) = same_but_files w w'"
  by (simp_all add: same_but_files_def)

lemma redirect_logs_same [simp]: "same_but_files w (redirect_logs p w') = same_but_files w w'"
  by (simp add: redirect_logs_def split: option.split)

lemma run_setup_same: "run_setup env call w = (r, w') \<Longrightarrow> same_but_files w w'"
  by (auto simp: run_setup_def Let_def split: sum.splits prod.splits if_splits)

text \<open>A start that fails before the fork has started nothing; after the fork the VM runs.\<close>

lemma run_start_cases:
  assumes "run_start env cfg plan w = (r, w')"
  shows "w_fs w' = w_fs w \<and> w_proxied w' = w_proxied w \<and> w_report w' = w_report w
    \<and> ((\<exists>e. r = Inl e) \<and> w' = w\<lparr>w_term := save_terminal (w_term w)\<rparr>
       \<or> w_vm w' = Booted (pl_vm plan)
         \<and> w_term w' = (save_terminal (w_term w))\<lparr>tm_mode := re_boot_mode env (tm_mode (w_term w))\<rparr>)"
  using assms
  by (auto simp: run_start_def start_browser_def boot_def set_mode_def Let_def
      split: sum.splits prod.splits if_splits)

lemma run_start_Inr:
  assumes "run_start env cfg plan w = (Inr (b, fwds), w')"
  shows "exec_forwards cfg True = Inr fwds"
    "case b of None \<Rightarrow> w_browser w' = w_browser w | Some br \<Rightarrow> launch (re_launch env) (w_browser w) = (Inr br, w_browser w')"
    "w_term w' = (save_terminal (w_term w))\<lparr>tm_mode := re_boot_mode env (tm_mode (w_term w))\<rparr>"
  using assms
  by (auto simp: run_start_def start_browser_def boot_def set_mode_def exec_forwards_def bindR_def Let_def
      split: sum.splits prod.splits if_splits)

lemma run_proxy_Inr:
  assumes "run_proxy env px w = (Inr seen, w')"
  shows "w_term w' = (w_term w)\<lparr>tm_mode := re_guest_mode env (tm_mode (w_term w))\<rparr>"
    "w_browser w' = w_browser w \<and> w_proxied w' = Some px \<and> w_vm w' = w_vm w \<and> w_report w' = w_report w"
  using assms
  by (auto simp: run_proxy_def guest_acts_def set_mode_def Let_def split: sum.splits option.splits if_splits)

lemma launch_then_drop:
  assumes "launch env bw = (Inr b, bw')" "\<not> proxy_running bw" "chrome_group bw = None"
  shows "snd (drop_browser polls b bw') = bw"
proof (cases "prepare_launch env bw")
  case (Pair r bw1)
  show ?thesis
  proof (cases r)
    case (Inl e)
    then show ?thesis using Pair assms(1) by (simp add: launch_def)
  next
    case (Inr p)
    then show ?thesis using launch_restores[OF assms(1-3), of p bw1 polls] Pair by simp
  qed
qed

lemma terminal_restored:
  assumes "usable t" "tm_saved t = None"
  shows "tm_mode (restore_saved_terminal ((save_terminal t)\<lparr>tm_mode := m\<rparr>)) = tm_mode t"
  using assms by (rule restore_undoes)

subsection \<open>What depends on the values of the secrets\<close>

lemma run_setup_secret:
  "(\<exists>e w0. \<forall>s. run_setup (env\<lparr>re_secret := s\<rparr>) call w = (Inl e, w0))
   \<or> (\<exists>meta log w0 lh. \<forall>s. run_setup (env\<lparr>re_secret := s\<rparr>) call w =
        (case exec_prepare s (xc_config call) lh of
           (Inl e, lh) \<Rightarrow> (Inl e, w0\<lparr>w_fs := lh\<rparr>) | (Inr plan, lh) \<Rightarrow> (Inr (meta, log, plan), w0\<lparr>w_fs := lh\<rparr>)))"
proof -
  obtain r h where s: "start_session (re_daemon env) (re_fresh_id env) call (snd (w_fs w)) = (r, h)" by fastforce
  let ?w = "w\<lparr>w_fs := (fst (w_fs w), h)\<rparr>"
  show ?thesis
  proof (cases "\<exists>i meta dir. r = Inr (i, meta) \<and> session_dir h i = Inr dir")
    case False
    then show ?thesis using s by (cases r) (auto simp: run_setup_def Let_def split: sum.splits)
  next
    case True
    then obtain i meta dir where i: "r = Inr (i, meta)" "session_dir h i = Inr dir" by blast
    define w0 where "w0 = (if xc_log_to_file call then redirect_logs (path_join dir ''redan.log'') ?w else ?w)"
    have e: "run_setup (env\<lparr>re_secret := s\<rparr>) call w =
        (case audit_log_of call i (snd (w_fs w0)) of
           Inl e \<Rightarrow> (Inl e, w0)
         | Inr log \<Rightarrow> (case re_ca env of
             Inl e \<Rightarrow> (Inl (Exit 1 (''failed to generate MITM CA: '' @ e)), w0)
           | Inr pem \<Rightarrow> (case install_ca_cert (ec_rootfs (xc_config call)) pem (w_fs w0) of (ok, lh) \<Rightarrow>
               (if \<not> ok then (Inl (Exit 1 ''failed to install CA cert in rootfs''), w0\<lparr>w_fs := lh\<rparr>)
                else (case exec_prepare s (xc_config call) lh of
                    (Inl e, lh) \<Rightarrow> (Inl e, w0\<lparr>w_fs := lh\<rparr>) | (Inr plan, lh) \<Rightarrow> (Inr (meta, log, plan), w0\<lparr>w_fs := lh\<rparr>))))))" for s
      using s i by (simp add: run_setup_def w0_def Let_def cong: sum.case_cong prod.case_cong if_cong)
    show ?thesis
    proof (cases "audit_log_of call i (snd (w_fs w0))")
      case log: (Inr log)
      show ?thesis
      proof (cases "re_ca env")
        case (Inr pem)
        obtain ok lh where ca: "install_ca_cert (ec_rootfs (xc_config call)) pem (w_fs w0) = (ok, lh)" by (meson surj_pair)
        show ?thesis
        proof (cases ok)
          case True
          then have "\<forall>s. run_setup (env\<lparr>re_secret := s\<rparr>) call w = (case exec_prepare s (xc_config call) lh of
              (Inl e, lh) \<Rightarrow> (Inl e, w0\<lparr>w_fs := lh\<rparr>) | (Inr plan, lh) \<Rightarrow> (Inr (meta, log, plan), w0\<lparr>w_fs := lh\<rparr>))"
            unfolding e using log Inr ca by simp
          then show ?thesis by blast
        qed (unfold e, use log Inr ca in auto)
      qed (use log e in auto)
    qed (use e in auto)
  qed
qed

lemma run_start_secret:
  "pl_vm p1 = pl_vm p2 \<Longrightarrow> run_start (env\<lparr>re_secret := s\<rparr>) cfg p1 w = run_start env cfg p2 w"
  by (cases env) (simp only: run_start_def boot_def run_env.select_convs run_env.update_convs cong: sum.case_cong option.case_cong prod.case_cong if_cong)

lemma run_proxy_secret:
  assumes "run_proxy (env\<lparr>re_secret := s\<rparr>) px w = (r, w')"
  shows "\<exists>q. run_proxy env (px\<lparr>px_secrets := ss\<rparr>) w = (r, w'\<lparr>w_proxied := q\<rparr>)"
proof -
  have u: "v = w'\<lparr>w_proxied := w_proxied v\<rparr>" if "v\<lparr>w_proxied := None\<rparr> = w'\<lparr>w_proxied := None\<rparr>" for v
    using that by (cases v; cases w') simp
  obtain r' v where v: "run_proxy env (px\<lparr>px_secrets := ss\<rparr>) w = (r', v)" by fastforce
  have "r' = r \<and> v\<lparr>w_proxied := None\<rparr> = w'\<lparr>w_proxied := None\<rparr>"
    using assms v
    by (auto simp: run_proxy_def guest_acts_def set_mode_def Let_def split: option.splits sum.splits if_splits)
  with u v show ?thesis by metis
qed

lemma run_proxy_env: "run_proxy (env\<lparr>re_secret := s\<rparr>) px w = run_proxy env px w"
  by (cases env) (simp only: run_proxy_def guest_acts_def run_env.select_convs run_env.update_convs cong: sum.case_cong option.case_cong)

lemma run_finish_secret:
  "run_finish (env\<lparr>re_secret := s\<rparr>) cfg meta b seen (w\<lparr>w_proxied := q\<rparr>)
     = (case run_finish env cfg meta b seen w of (r, w) \<Rightarrow> (r, w\<lparr>w_proxied := q\<rparr>))"
  by (simp add: run_finish_def Let_def split: prod.splits sum.splits option.splits)

subsection \<open>Properties\<close>


text \<open>An exit before the fork has started nothing and touched the terminal's saved settings only. One
  after it finds the guest running, and nothing puts the terminal back.\<close>

lemma run_exit_before_boot:
  assumes "exec_run env call w = (R_exit e, w')" "w_vm w' = w_vm w" "\<And>cfg. w_vm w \<noteq> Booted cfg" "\<And>c k. w_vm w \<noteq> Ended c k"
  shows "w_browser w' = w_browser w \<and> w_proxied w' = w_proxied w \<and> tm_mode (w_term w') = tm_mode (w_term w)"
proof (cases "run_setup env call w")
  case (Pair r w1)
  note s = run_setup_same[OF Pair]
  show ?thesis
  proof (cases r)
    case (Inl e1)
    then show ?thesis using assms(1) Pair s by (simp add: exec_run_def same_but_files_def)
  next
    case (Inr x)
    then obtain meta audit_log plan where x: "r = Inr (meta, audit_log, plan)" by (cases x) auto
    obtain r2 w2 where 2: "run_start env (xc_config call) plan w1 = (r2, w2)" by fastforce
    show ?thesis
    proof (cases r2)
      case (Inl e2)
      then have "w' = w2" using assms(1) Pair x 2 by (simp add: exec_run_def)
      then show ?thesis using run_start_cases[OF 2] s assms(2,3) by (auto simp: same_but_files_def)
    next
      case (Inr y)
      then have b2: "w_vm w2 = Booted (pl_vm plan)" using run_start_cases[OF 2] by auto
      have "(\<exists>cfg. w_vm w' = Booted cfg) \<or> (\<exists>c k. w_vm w' = Ended c k)"
        using assms(1) Pair x 2 Inr b2
        by (auto simp: exec_run_def run_proxy_def run_finish_def guest_acts_def set_mode_def Let_def
            split: prod.splits sum.splits option.splits if_splits)
      then show ?thesis using assms(2-4) by auto
    qed
  qed
qed

lemma late_exit_not_restored:
  assumes "run_setup env call w = (Inr (meta, audit_log, plan), w1)" "re_pair env = Inr ()" "re_fork env = Inr ()"
    "run_start env (xc_config call) plan w1 = (Inl e, w2)"
  shows "exec_run env call w = (R_exit e, w2) \<and> tm_mode (w_term w2) = re_boot_mode env (tm_mode (w_term w))"
proof -
  have "w_term w1 = w_term w" using run_setup_same[OF assms(1)] by (simp add: same_but_files_def)
  moreover have "tm_mode (w_term w2) = re_boot_mode env (tm_mode (w_term w1))"
    using assms(2-4) by (auto simp: run_start_def start_browser_def boot_def set_mode_def Let_def
        split: sum.splits prod.splits if_splits)
  ultimately show ?thesis using assms(1,4) by (simp add: exec_run_def)
qed

text \<open>A forward that already takes the debugging port is refused only after Chrome was started, and the
  exit skips the destructor that would stop it.\<close>

lemma cdp_conflict_leaves_browser:
  assumes "launch env (w_browser w) = (Inr b, bw)" "browser_forward fwds = Inl e"
  shows "start_browser env fwds w = (Inl e, w\<lparr>w_browser := bw\<rparr>) \<and> b_profile_dir b \<in> set (profiles bw)"
proof -
  have "b_profile_dir b \<in> set (profiles bw)"
  proof (cases "prepare_launch env (w_browser w)")
    case (Pair r bw1)
    then show ?thesis
    proof (cases r)
      case (Inl e)
      then show ?thesis using Pair assms(1) by (simp add: launch_def)
    next
      case (Inr p)
      obtain chrome dir port where p: "p = (chrome, dir, port)" by (cases p)
      then show ?thesis
        using prepare_launch_Inr[of env "w_browser w" chrome dir port bw1] Pair Inr assms(1)
        by (auto simp: launch_def Let_def split: sum.splits if_splits)
    qed
  qed
  then show ?thesis using assms by (simp add: start_browser_def)
qed

subsection \<open>Every session ends\<close>

definition ends_loop :: "nat \<Rightarrow> ('s, 'a) turn_input \<Rightarrow> bool" where
  "ends_loop timeout inp \<longleftrightarrow> in_peer_closed inp \<or> timeout \<noteq> 0 \<and> in_elapsed inp > timeout"

lemma proxy_turns_end:
  assumes F: "fresh_slots lops" and C: "tcp_contract tops wire"
  shows "loop_inv allowed st \<Longrightarrow> \<forall>inp\<in>set inps. \<forall>ss. map fst (in_poll inp ss) = map fst ss \<Longrightarrow>
    \<exists>inp\<in>set inps. ends_loop timeout inp \<Longrightarrow>
    \<exists>seen. proxy_turns lops tops cap timeout disc allowed inps st = Some (Inl seen)"
proof (induction inps arbitrary: st)
  case (Cons inp inps)
  then have P: "\<And>ss. map fst (in_poll inp ss) = map fst ss" by simp
  show ?case
  proof (cases "ends_loop timeout inp")
    case True
    then have "proxy_turn lops tops cap timeout disc allowed inp st = Some (Inl (found st))"
      by (auto simp: proxy_turn_def ends_loop_def)
    then show ?thesis by simp
  next
    case False
    from proxy_turn_ok[OF F C P Cons.prems(1)] obtain r where
      r: "proxy_turn lops tops cap timeout disc allowed inp st = Some r" "\<And>st'. r = Inr st' \<Longrightarrow> loop_inv allowed st'"
      by blast
    show ?thesis
    proof (cases r)
      case (Inr st1)
      then have "loop_inv allowed st1" using r(2) by simp
      then show ?thesis using Cons.IH[of st1] Cons.prems(2,3) r(1) Inr False by simp
    qed (use r in simp)
  qed
qed simp

lemma proxy_run_ends:
  assumes "fresh_slots lops" "tcp_contract tops wire" "\<forall>inp\<in>set inps. \<forall>ss. map fst (in_poll inp ss) = map fst ss"
    "\<exists>inp\<in>set inps. ends_loop timeout inp"
  shows "\<exists>seen. proxy_run lops tops cap timeout disc allowed dns forwards inps = Some (Inl seen)"
  unfolding proxy_run_def
  using proxy_turns_end[OF assms(1,2) proxy_setup_inv[OF assms(1)] assms(3,4)] .

lemma finish_ends: "sessions_dir h = Inr d \<Longrightarrow> \<exists>r. finish env ok meta h = Inr r"
  by (auto simp: finish_def save_def session_dir_def bindR_def Let_def split: sum.splits option.splits)

text \<open>The environment variables outlive every step of the setup.\<close>

lemma make_dirs_env: "make_dirs links pre cs h = (ok, h') \<Longrightarrow> env_var h' = env_var h"
proof (induction cs arbitrary: pre h)
  case (Cons c cs)
  then show ?case by (auto split: option.splits file_entry.splits if_splits)
qed simp

lemma create_dirs_env: "create_dirs_through p lh = (ok, lh') \<Longrightarrow> env_var (snd lh') = env_var (snd lh)"
  by (auto simp: create_dirs_through_def split: prod.splits dest: make_dirs_env)

lemma write_through_env: "write_through p c lh = (ok, lh') \<Longrightarrow> env_var (snd lh') = env_var (snd lh)"
  by (auto simp: write_through_def bind_eq_Some_conv dest!: write_file_Some split: prod.splits option.splits)

lemma remove_link_env: "remove_link p lh = (ok, lh') \<Longrightarrow> env_var (snd lh') = env_var (snd lh)"
  by (auto simp: remove_link_def unlink_link_def split: option.splits if_splits prod.splits)

lemma then_do_env:
  "then_do f g lh = (ok, lh') \<Longrightarrow> (\<And>ok a b. f a = (ok, b) \<Longrightarrow> env_var (snd b) = env_var (snd a))
   \<Longrightarrow> (\<And>ok a b. g a = (ok, b) \<Longrightarrow> env_var (snd b) = env_var (snd a)) \<Longrightarrow> env_var (snd lh') = env_var (snd lh)"
  by (auto simp: then_do_def split: prod.splits if_splits)

lemma install_sources_env: "install_sources rootfs pem rels lh = (ok, lh') \<Longrightarrow> env_var (snd lh') = env_var (snd lh)"
proof (induction rels arbitrary: lh ok lh')
  case (Cons rel rels)
  show ?case
  proof (cases "is_dir_through (path_join rootfs rel) lh")
    case True
    then have "then_do (write_through (path_join (path_join rootfs rel) ''redan-ca.crt'') pem)
        (install_sources rootfs pem rels) lh = (ok, lh')" using Cons.prems by (simp add: Let_def)
    then show ?thesis using write_through_env Cons.IH by (rule then_do_env)
  next
    case False
    then show ?thesis using Cons by (simp add: Let_def)
  qed
qed simp

lemma install_ca_env: "install_ca_cert rootfs pem lh = (ok, lh') \<Longrightarrow> env_var (snd lh') = env_var (snd lh)"
  unfolding install_ca_cert_def install_standalone_def Let_def
  by (erule then_do_env | erule remove_link_env | erule create_dirs_env | erule write_through_env | erule install_sources_env)+

lemma add_mounts_env: "add_mounts_from rootfs i specs st lh = (r, lh') \<Longrightarrow> env_var (snd lh') = env_var (snd lh)"
proof (induction rootfs i specs st lh rule: add_mounts_from.induct)
  case (2 rootfs i spec specs st lh)
  show ?case
  proof (cases "add_mount (snd lh) i spec st")
    case (Inr x)
    obtain st' g where x: "x = (st', g)" by (cases x)
    have "env_var (snd (create_mount_point rootfs g lh)) = env_var (snd lh)"
      using create_dirs_env[of _ lh] by (metis create_mount_point_def prod.collapse)
    then show ?thesis using 2 Inr x by simp
  qed (use 2 in simp)
qed simp

lemma exec_prepare_env: "exec_prepare env cfg lh = (r, lh') \<Longrightarrow> env_var (snd lh') = env_var (snd lh)"
proof -
  have p: "env_var (snd (write_guest_policy rootfs al x)) = env_var (snd x)" for rootfs al x
    unfolding write_guest_policy_def Let_def
    by (rule then_do_env[OF prod.collapse[symmetric]]) (auto dest: create_dirs_env write_through_env)
  show "exec_prepare env cfg lh = (r, lh') \<Longrightarrow> ?thesis"
    by (auto simp: exec_prepare_def Let_def p split: sum.splits prod.splits dest: add_mounts_env)
qed

lemma open_append_env: "open_append p h = Some h' \<Longrightarrow> env_var h' = env_var h"
  by (auto simp: open_append_def split: if_splits option.splits file_entry.splits)

lemma redirect_logs_env [simp]: "env_var (snd (w_fs (redirect_logs p w))) = env_var (snd (w_fs w))"
  by (auto simp: redirect_logs_def dest: open_append_env split: option.split)

lemma run_setup_sessions_dir:
  assumes "run_setup env call w = (Inr x, w')"
  shows "\<exists>d. sessions_dir (snd (w_fs w')) = Inr d"
proof -
  have cong: "env_var h' = env_var h \<Longrightarrow> sessions_dir h' = sessions_dir h" for h h'
    by (simp only: sessions_dir_def)
  obtain i meta h dir where i: "session_dir h i = Inr dir" "env_var (snd (w_fs w')) = env_var h"
    using assms
    by (auto simp: run_setup_def Let_def split: sum.splits prod.splits if_splits dest!: install_ca_env exec_prepare_env)
  then show ?thesis using cong[OF i(2)] by (auto simp: session_dir_def bindR_Inr)
qed

text \<open>
  C10: a session ends. Once the setup, the boot and the start succeeded and the audit log can be opened, \<^verbatim>\<open>run\<close>
  returns a code as soon as one turn of the loop finds the guest's socket closed, or the timeout
  passed if there is one: no input of the guest, no network event and no thread can keep the loop
  from ending or make it panic.
\<close>
theorem session_ends:
  assumes prepared: "run_setup env call w = (Inr (meta, audit_log, plan), w1)"
    and started: "run_start env (xc_config call) plan w1 = (Inr (b, fwds), w2)"
    and opened: "open_append audit_log (snd (w_fs w2)) \<noteq> None"
    and guest: "\<And>lh. env_var (snd (re_guest_files env lh)) = env_var (snd lh)"
    and stack: "fresh_slots (re_listen env)" "tcp_contract (re_tcp env) wire"
      "\<forall>inp\<in>set (re_turns env). \<forall>ss. map fst (in_poll inp ss) = map fst ss"
    and ended: "\<exists>inp\<in>set (re_turns env). ends_loop (ec_timeout (xc_config call)) inp"
  shows "\<exists>code w'. exec_run env call w = (R_code code, w')"
proof -
  let ?px = "\<lparr>px_secrets = pl_secrets plan, px_timeout = ec_timeout (xc_config call), px_allowed = pl_allowed plan,
    px_audit_log = audit_log, px_discover = ec_discover (xc_config call), px_forwards = fwds\<rparr>"
  obtain h where h: "open_append audit_log (snd (w_fs w2)) = Some h" using opened by blast
  obtain seen where "proxy_run (re_listen env) (re_tcp env) (re_capacity env) (ec_timeout (xc_config call))
      (ec_discover (xc_config call)) (pl_allowed plan) (re_dns_socket env) fwds (re_turns env) = Some (Inl seen)"
    using proxy_run_ends[OF stack ended] by blast
  then have "\<exists>seen w3. run_proxy env ?px w2 = (Inr seen, w3) \<and> w_fs w3 = re_guest_files env (fst (w_fs w2), h)"
    using h by (cases "re_nonblocking env"; cases "re_address_ok env") (simp_all add: run_proxy_def guest_acts_def set_mode_def Let_def)
  then obtain seen w3 where 3: "run_proxy env ?px w2 = (Inr seen, w3)"
      "w_fs w3 = re_guest_files env (fst (w_fs w2), h)" by blast
  have "env_var (snd (w_fs w3)) = env_var (snd (w_fs w1))"
    using 3(2) guest open_append_env[OF h] run_start_cases[OF started] by simp
  then have "sessions_dir (snd (w_fs w3)) = sessions_dir (snd (w_fs w1))" by (simp only: sessions_dir_def)
  with run_setup_sessions_dir[OF prepared] obtain d where d: "sessions_dir (snd (w_fs w3)) = Inr d" by auto
  obtain code killed where sh: "shutdown (fst (re_wait env)) (snd (re_wait env)) = (code, killed)" by fastforce
  obtain r where "finish (dv_sessions (re_daemon env)) (code = 0) meta (snd (w_fs w3)) = Inr r"
    using finish_ends[OF d] by blast
  then have "\<exists>w'. run_finish env (xc_config call) meta b seen w3 = (R_code code, w')"
    using sh by (cases r) (auto simp: run_finish_def Let_def)
  then show ?thesis using prepared started 3(1) by (auto simp: exec_run_def)
qed


subsection \<open>A session\<close>

definition demo_run_env :: "(demo_tcp, nat, nat) run_env" where
  "demo_run_env =
     \<lparr>re_daemon = demo_daemon_env, re_fresh_id = ''abcd1234'', re_ca = Inr ''PEM'',
      re_secret = demo_secret_env ''sk-1'', re_pair = Inr (), re_fork = Inr (), re_signal_ok = True, re_clone = Inr (),
      re_launch = \<lparr>le_chrome = Some ''/usr/bin/chromium'', le_cdp_free = True, le_random = Inr ''r'', le_temp_dir = ''/tmp'',
        le_mkdir = Inr (), le_bind = Inr (), le_local_addr = Inr 8080, le_nonblocking = Inr (), le_thread = Inr (),
        le_spawn = Inr 4000, le_cdp_answers = [None, Some 200], le_exit_status = None, le_stderr = []\<rparr>,
      re_browser_exited = [True], re_nonblocking = Inr (), re_address_ok = True, re_listen = demo_listen, re_tcp = demo_ops,
      re_capacity = 16, re_dns_socket = (0, l_new demo_listen 53),
      re_turns = [demo_turn, demo_turn\<lparr>in_peer_closed := True\<rparr>],
      re_guest_files = id, re_boot_mode = (\<lambda>m. m + 1), re_guest_mode = (\<lambda>m. m + 1),
      re_wait = (Reaped (Exited 0), Wait_error)\<rparr>"

definition demo_call :: exec_call where
  "demo_call =
     \<lparr>xc_config = \<lparr>ec_rootfs = ''/r'', ec_command = ''id'', ec_interactive = False, ec_timeout = 9, ec_secret_specs = [''K=env://K:api.test''],
        ec_allow_specs = [''a.test''], ec_forward_specs = [], ec_mount_specs = [], ec_guest_env = [], ec_discover = False,
        ec_run_as = None, ec_chown_dir = None, ec_browser = True\<rparr>,
      xc_audit_log = None, xc_image_name = None, xc_session_name = None, xc_session_id = None, xc_log_to_file = True\<rparr>"

definition demo_world :: "nat world" where
  "demo_world =
     \<lparr>w_fs = (\<lambda>_. None, demo_state),
      w_term = \<lparr>tm_tty = True, tm_mode = 0, tm_get_err = None, tm_set_err = None, tm_winsize = None, tm_saved = None, tm_poisoned = False\<rparr>,
      w_stderr = None, w_vm = Not_booted, w_sigint_ignored = False,
      w_browser = \<lparr>profiles = [], proxy_running = False, chrome_group = None\<rparr>, w_proxied = None, w_report = []\<rparr>"

text \<open>The session starts whatever the secret is, as long as it resolves.\<close>

lemma demo_prepared:
  assumes "case exec_secrets s (xc_config demo_call) of Inl e \<Rightarrow> False | Inr xs \<Rightarrow> True"
  obtains plan al where "\<And>lh. exec_prepare s (xc_config demo_call) lh = (Inr plan, write_guest_policy ''/r'' al lh)"
proof -
  let ?cfg = "xc_config demo_call"
  obtain xs where xs: "exec_secrets s ?cfg = Inr xs" using assms by (auto split: sum.splits)
  have "check_run_as ?cfg = Inr ()" "ec_mount_specs ?cfg = []" "ec_rootfs ?cfg = ''/r''"
    by (code_simp, simp_all add: demo_call_def)
  with xs have "exec_prepare s ?cfg lh = (Inr (exec_plan_of ?cfg xs NO_MOUNTS),
      write_guest_policy ''/r'' (pl_allowed (exec_plan_of ?cfg xs NO_MOUNTS)) lh)" for lh
    by (simp add: exec_prepare_def Let_def)
  then show thesis by (rule that)
qed

lemma demo_starts:
  assumes "case exec_secrets s (xc_config demo_call) of Inl e \<Rightarrow> False | Inr xs \<Rightarrow> True"
  obtains meta audit_log plan w1 b fwds w2 where
    "run_setup (demo_run_env\<lparr>re_secret := s\<rparr>) demo_call demo_world = (Inr (meta, audit_log, plan), w1)"
    "run_start (demo_run_env\<lparr>re_secret := s\<rparr>) (xc_config demo_call) plan w1 = (Inr (Some b, fwds), w2)"
    "open_append audit_log (snd (w_fs w2)) \<noteq> None"
proof -
  let ?env = "demo_run_env\<lparr>re_secret := s\<rparr>"
  obtain plan al where p: "\<And>lh. exec_prepare s (xc_config demo_call) lh = (Inr plan, write_guest_policy ''/r'' al lh)"
    using demo_prepared[OF assms] by blast
  have e: "re_secret ?env = s" by simp
  have "case run_setup ?env demo_call demo_world of
      (Inl e, w) \<Rightarrow> False
    | (Inr (meta, audit_log, plan), w) \<Rightarrow>
        (case run_start ?env (xc_config demo_call) plan w of
           (Inl e, w) \<Rightarrow> False
         | (Inr (None, fwds), w) \<Rightarrow> False
         | (Inr (Some b, fwds), w) \<Rightarrow> (case open_append audit_log (snd (w_fs w)) of None \<Rightarrow> False | Some h \<Rightarrow> True))"
    unfolding run_setup_def e p by code_simp
  note run = this
  obtain r w1 where 1: "run_setup ?env demo_call demo_world = (r, w1)" by fastforce
  with run obtain meta audit_log plan where r: "r = Inr (meta, audit_log, plan)" by (cases r) auto
  obtain r2 w2 where 2: "run_start ?env (xc_config demo_call) plan w1 = (r2, w2)" by fastforce
  with run 1 r obtain b fwds where r2: "r2 = Inr (Some b, fwds)"
    by (cases r2) (auto split: option.splits)
  have "open_append audit_log (snd (w_fs w2)) \<noteq> None" using run 1 r 2 r2 by (simp split: option.splits)
  then show thesis using that 1 r 2 r2 by blast
qed

lemma demo_secret_ok: "case exec_secrets (demo_secret_env ''sk-1'') (xc_config demo_call) of Inl e \<Rightarrow> False | Inr xs \<Rightarrow> True"
  by code_simp

lemma demo_session_starts:
  obtains meta audit_log plan w1 b fwds w2 where
    "run_setup demo_run_env demo_call demo_world = (Inr (meta, audit_log, plan), w1)"
    "run_start demo_run_env (xc_config demo_call) plan w1 = (Inr (Some b, fwds), w2)"
    "open_append audit_log (snd (w_fs w2)) \<noteq> None"
proof -
  have "demo_run_env\<lparr>re_secret := demo_secret_env ''sk-1''\<rparr> = demo_run_env" by (simp add: demo_run_env_def)
  then show thesis using demo_starts[OF demo_secret_ok] that by metis
qed

lemma session_ends_witness:
  "\<exists>code w'. exec_run demo_run_env demo_call demo_world = (R_code code, w')"
proof -
  obtain meta audit_log plan w1 b fwds w2 where
    s: "run_setup demo_run_env demo_call demo_world = (Inr (meta, audit_log, plan), w1)"
      "run_start demo_run_env (xc_config demo_call) plan w1 = (Inr (Some b, fwds), w2)"
      "open_append audit_log (snd (w_fs w2)) \<noteq> None"
    by (rule demo_session_starts)
  have "re_guest_files demo_run_env = id" "re_listen demo_run_env = demo_listen" "re_tcp demo_run_env = demo_ops"
    "re_turns demo_run_env = [demo_turn, demo_turn\<lparr>in_peer_closed := True\<rparr>]"
    by (simp_all add: demo_run_env_def)
  then show ?thesis
    using session_ends[OF s] demo_listen_fresh demo_tcp_contract by (simp add: ends_loop_def demo_turn_def)
qed



end
