(* ===== verification/Attach.thy ===== *)
theory Attach
  imports Daemon Terminal
begin

text \<open>
  Attaching to a session, \<^verbatim>\<open>attach_session\<close> of \<^verbatim>\<open>src/src/main.rs\<close>: finding it, waiting for the
  console socket in its metadata, and the relay between the terminal and that socket. The states of
  the file system at the reloads, the connection and what the descriptors deliver are parameters.
\<close>

record attach_env =
  at_sessions :: session_env
  at_states :: "nat \<Rightarrow> host"  \<comment> \<open>the files as the \<open>n\<close>-th reload sees them\<close>
  at_connect :: "string + unit"
  at_clone :: "string + unit"
  at_stdin :: "(bytes option \<times> bool) list"  \<comment> \<open>each read, and whether the write to the socket succeeds\<close>
  at_socket :: "bytes option list"

definition ATTACH_POLLS :: nat where
  "ATTACH_POLLS = 10"

definition reload_meta :: "session_env \<Rightarrow> host \<Rightarrow> session_meta \<Rightarrow> exit + session_meta" where
  "reload_meta env h m =
     bindR (session_dir h (sm_id m)) (\<lambda>dir. Inr (case read_meta env h dir of Some fresh \<Rightarrow> fresh | None \<Rightarrow> m))"

text \<open>Each poll looks at the metadata, then reloads it; the last reload is not looked at.\<close>

fun wait_socket :: "attach_env \<Rightarrow> nat \<Rightarrow> nat \<Rightarrow> session_meta \<Rightarrow> exit + string \<times> session_meta" where
  "wait_socket env i 0 m = Inl (Exit 1 (''session '' @ sm_id m @ '' has no console socket (started without --detach?)''))"
| "wait_socket env i (Suc n) m =
     (case sm_console_socket m of
        Some s \<Rightarrow> Inr (s, m)
      | None \<Rightarrow> bindR (reload_meta (at_sessions env) (at_states env i) m) (wait_socket env (Suc i) n))"

text \<open>The two directions of the relay; an empty read is the end.\<close>

fun relay_out :: "bytes option list \<Rightarrow> bytes" where
  "relay_out [] = []"
| "relay_out (r # rs) = (case r of None \<Rightarrow> [] | Some b \<Rightarrow> if b = [] then [] else b @ relay_out rs)"

fun relay_in :: "(bytes option \<times> bool) list \<Rightarrow> bytes" where
  "relay_in [] = []"
| "relay_in ((r, ok) # rs) =
     (case r of None \<Rightarrow> [] | Some b \<Rightarrow> if b = [] then [] else if \<not> ok then [] else b @ relay_in rs)"

text \<open>What reached stdout and the socket. An exit after the guard was made does not drop it.\<close>

definition attach_session ::
  "('m \<Rightarrow> 'm) \<Rightarrow> attach_env \<Rightarrow> host \<Rightarrow> string option \<Rightarrow> 'm terminal \<Rightarrow> (exit + bytes \<times> bytes) \<times> 'm terminal" where
  "attach_session make_raw env h id_or_name t =
     (case find_session (at_sessions env) h id_or_name of
        Inl e \<Rightarrow> (Inl e, t)
      | Inr None \<Rightarrow>
          (Inl (Exit 1 (case id_or_name of Some q \<Rightarrow> ''session '' @ q @ '' not found'' | None \<Rightarrow> ''no sessions found'')), t)
      | Inr (Some m) \<Rightarrow>
          if \<not> is_alive h m then (Inl (Exit 1 (''session '' @ sm_id m @ '' is not running'')), t)
          else (case wait_socket env 0 ATTACH_POLLS m of
              Inl e \<Rightarrow> (Inl e, t)
            | Inr (sock_path, m) \<Rightarrow>
                if \<not> path_exists (at_states env ATTACH_POLLS) sock_path
                then (Inl (Exit 1 (''console socket not found: '' @ sock_path)), t)
                else (case at_connect env of
                    Inl e \<Rightarrow> (Inl (Exit 1 (''cannot connect to console: '' @ e)), t)
                  | Inr _ \<Rightarrow>
                      (case enter_raw make_raw t of
                         (Inl e, t) \<Rightarrow> (Inl (Exit 1 (''cannot enter raw terminal mode: '' @ e)), t)
                       | (Inr original, t) \<Rightarrow>
                           (case at_clone env of
                              Inl e \<Rightarrow> (Inl (Exit 1 (''cannot clone socket: '' @ e)), t)
                            | Inr _ \<Rightarrow> (Inr (relay_out (at_socket env), relay_in (at_stdin env)), drop_raw original t))))))"

subsection \<open>The terminal\<close>

text \<open>Attaching leaves the terminal as it was, except when the socket cannot be cloned: then the process
  exits in raw mode.\<close>

lemma attach_terminal:
  assumes "attach_session make_raw env h q t = (r, t')"
  shows "t' = t \<or> (\<exists>e. at_clone env = Inl e) \<and> t' = t\<lparr>tm_mode := make_raw (tm_mode t)\<rparr>"
proof -
  have "t' = t \<or> (\<exists>e. at_clone env = Inl e) \<and> t' = t\<lparr>tm_mode := make_raw (tm_mode t)\<rparr>"
    if "(case enter_raw make_raw t of
           (Inl e, t) \<Rightarrow> (Inl (Exit 1 (''cannot enter raw terminal mode: '' @ e)), t)
         | (Inr original, t) \<Rightarrow>
             (case at_clone env of
                Inl e \<Rightarrow> (Inl (Exit 1 (''cannot clone socket: '' @ e)), t)
              | Inr _ \<Rightarrow> (Inr (relay_out (at_socket env), relay_in (at_stdin env)), drop_raw original t))) = (r, t')"
  proof (cases "enter_raw make_raw t")
    case (Pair x t1)
    from enter_drop[OF Pair] show ?thesis using that Pair by (cases x) (auto split: sum.splits)
  qed
  then show ?thesis using assms
    by (auto simp: attach_session_def split: sum.splits option.splits if_splits)
qed

lemma clone_failure_keeps_raw:
  assumes "usable t" "at_clone env = Inl e" "find_session (at_sessions env) h q = Inr (Some m)" "is_alive h m"
    "wait_socket env 0 ATTACH_POLLS m = Inr (s, m')" "path_exists (at_states env ATTACH_POLLS) s" "at_connect env = Inr ()"
  shows "snd (attach_session make_raw env h q t) = t\<lparr>tm_mode := make_raw (tm_mode t)\<rparr>"
  using assms by (simp add: attach_session_def terminal_defs usable_def)

subsection \<open>Metadata without a console\<close>

text \<open>No metadata that can be read names a console socket.\<close>

definition no_consoles :: "session_env \<Rightarrow> host \<Rightarrow> bool" where
  "no_consoles env h \<longleftrightarrow> (\<forall>d m. read_meta env h d = Some m \<longrightarrow> sm_console_socket m = None)"

text \<open>The metadata is read back as it was written.\<close>

definition meta_roundtrip :: "session_env \<Rightarrow> bool" where
  "meta_roundtrip env \<longleftrightarrow> (\<forall>m s. sv_print env m = Inr s \<longrightarrow> sv_parse env s = Some m)"

text \<open>A step that changes a file of that name only by writing metadata without a console keeps it.\<close>

lemma no_consoles_step:
  assumes "no_consoles env h"
    "\<And>p s. read_to_string h' p = Some s \<Longrightarrow> read_to_string h p = Some s \<or> \<not> suffix ''meta.json'' p \<or>
       (\<exists>m. sv_parse env s = Some m \<and> sm_console_socket m = None)"
  shows "no_consoles env h'"
proof -
  have "suffix ''meta.json'' (path_join d ''meta.json'')" for d by (auto simp: path_join_def suffix_def)
  then show ?thesis using assms unfolding no_consoles_def read_meta_def by (fastforce simp: bind_eq_Some_conv)
qed

lemma read_created: "create_dir_all h dir = Some h' \<Longrightarrow> read_to_string h' p = Some s \<Longrightarrow> read_to_string h p = Some s"
  using create_dir_all_Some[of h dir h'] by (auto simp: read_to_string_def split: if_splits)

lemma read_written: "write_file h p c = Some h' \<Longrightarrow> read_to_string h' q = Some s \<Longrightarrow> read_to_string h q = Some s \<or> q = p \<and> s = c"
  using write_file_Some[of h p c h'] by (auto simp: read_to_string_def split: if_splits)

lemma read_removed: "remove_dir_all h dir = Some h' \<Longrightarrow> read_to_string h' p = Some s \<Longrightarrow> read_to_string h p = Some s"
  using remove_dir_all_Some[of h dir h'] by (auto simp: read_to_string_def split: if_splits)

lemma save_no_consoles:
  assumes "no_consoles env h" "meta_roundtrip env" "sm_console_socket m = None" "save env m h = Inr (r, h')"
  shows "no_consoles env h'"
proof (rule no_consoles_step[OF assms(1)])
  fix p s assume s: "read_to_string h' p = Some s"
  obtain dir where dir: "session_dir h (sm_id m) = Inr dir" using assms(4) by (auto simp: save_def bindR_Inr)
  show "read_to_string h p = Some s \<or> \<not> suffix ''meta.json'' p \<or> (\<exists>m. sv_parse env s = Some m \<and> sm_console_socket m = None)"
  proof (cases "create_dir_all h dir")
    case None
    then show ?thesis using assms(4) dir s by (simp add: save_def)
  next
    case (Some h1)
    show ?thesis
    proof (cases "sv_print env m")
      case (Inl e)
      then show ?thesis using assms(4) dir Some s read_created[OF Some] by (simp add: save_def)
    next
      case (Inr json)
      then have j: "sv_parse env json = Some m" using assms(2) by (simp add: meta_roundtrip_def)
      show ?thesis
      proof (cases "write_file h1 (path_join dir ''meta.json'') json")
        case None
        then show ?thesis using assms(4) dir Some Inr s read_created[OF Some] by (simp add: save_def)
      next
        case (Some h2)
        then have "h' = h2" using assms(4) dir \<open>create_dir_all h dir = Some h1\<close> Inr by (simp add: save_def)
        then have "read_to_string h1 p = Some s \<or> s = json" using read_written[OF Some] s by blast
        then show ?thesis using read_created[OF \<open>create_dir_all h dir = Some h1\<close>] j assms(3) by blast
      qed
    qed
  qed
qed

lemma not_meta_suffix:
  "\<not> suffix ''meta.json'' (path_join d ''daemon_config.json'')" "\<not> suffix ''meta.json'' (path_join d ''redan.log'')"
  by (auto simp: path_join_def suffix_to_prefix is_absolute_def)

lemma finish_no_consoles:
  assumes "no_consoles env h" "meta_roundtrip env" "sm_console_socket m = None" "finish env ok m h = Inr (m', h')"
  shows "no_consoles env h' \<and> sm_console_socket m' = None"
proof (cases "save env (m\<lparr>sm_status := (if ok then Finished else Failed)\<rparr>) h")
  case (Inl e)
  then show ?thesis using assms(4) by (simp add: finish_def bindR_def)
next
  case (Inr x)
  then obtain r h1 where x: "save env (m\<lparr>sm_status := (if ok then Finished else Failed)\<rparr>) h = Inr (r, h1)" by (cases x) auto
  then have "h' = h1" "m' = m\<lparr>sm_status := (if ok then Finished else Failed)\<rparr>" using assms(4) by (simp_all add: finish_def bindR_def)
  then show ?thesis using save_no_consoles[OF assms(1,2) _ x] assms(3) by simp
qed

lemma start_no_consoles:
  assumes "no_consoles (dv_sessions env) h" "meta_roundtrip (dv_sessions env)"
    "start_session env fresh call h = (Inr (i, m), h')"
  shows "no_consoles (dv_sessions env) h' \<and> sm_console_socket m = None"
proof (cases "xc_session_id call")
  case None
  then obtain r where "save (dv_sessions env) m h = Inr (r, h')" "sm_console_socket m = None"
    using assms(3) by (auto simp: start_session_def new_meta_def Let_def split: sum.splits prod.splits)
  then show ?thesis using save_no_consoles[OF assms(1,2)] by blast
next
  case (Some j)
  then obtain dir json where "h' = h" "read_to_string h (path_join dir ''meta.json'') = Some json"
      "sv_parse (dv_sessions env) json = Some m"
    using assms(3) by (auto simp: start_session_def split: sum.splits option.splits if_splits)
  then have "h' = h" "read_meta (dv_sessions env) h dir = Some m" by (simp_all add: read_meta_def)
  then show ?thesis using assms(1) unfolding no_consoles_def by blast
qed

lemma create_new_no_consoles:
  assumes "no_consoles env h" "create_new_file mode partial p c h = (ok, h')" "\<not> suffix ''meta.json'' p"
  shows "no_consoles env h'"
  using assms(2,3) by (intro no_consoles_step[OF assms(1)])
    (auto simp: create_new_file_def read_to_string_def split: if_splits option.splits)

lemma removed_no_consoles:
  assumes "no_consoles env h" "remove_dir_all h dir = Some h'"
  shows "no_consoles env h'"
  using read_removed[OF assms(2)] by (intro no_consoles_step[OF assms(1)]) blast

lemma cleanup_no_consoles: "no_consoles env h \<Longrightarrow> cleanup_and_exit dir msg h = (r, h') \<Longrightarrow> no_consoles env h'"
  by (auto simp: cleanup_and_exit_def intro: removed_no_consoles split: option.splits)

lemma exec_detached_no_consoles:
  assumes "no_consoles (dv_sessions env) h" "meta_roundtrip (dv_sessions env)" "exec_detached env cfg i h = (r, h')"
  shows "no_consoles (dv_sessions env) h'"
proof -
  let ?E = "dv_sessions env"
  have wr: "no_consoles ?E h1" if "write_daemon_config env cfg i h = (r1, h1)" for r1 h1
  proof -
    have c: "no_consoles ?E x" if "create_dir_all h dir = Some x" for x dir
      using read_created[OF that] by (intro no_consoles_step[OF assms(1)]) blast
    show ?thesis using that assms(1)
      by (auto simp: write_daemon_config_def config_path_def split: sum.splits option.splits prod.splits
          intro: c create_new_no_consoles[OF c _ not_meta_suffix(1)])
  qed
  have spawn: "no_consoles ?E h2" if "no_consoles ?E h1" "spawn_daemon env dir h1 = (r2, h2)" for h1 dir r2 h2
  proof -
    have w: "no_consoles ?E x" if "write_file h1 (path_join dir ''redan.log'') [] = Some x" for x
      using read_written[OF that] not_meta_suffix(2) by (intro no_consoles_step[OF \<open>no_consoles ?E h1\<close>]) blast
    show ?thesis using that(2)
      by (auto simp: spawn_daemon_def split: sum.splits option.splits
          dest: cleanup_no_consoles[OF that(1)] cleanup_no_consoles[OF w] intro: w)
  qed
  obtain r1 h1 where 1: "write_daemon_config env cfg i h = (r1, h1)" by fastforce
  show ?thesis
  proof (cases r1)
    case (Inl e)
    then show ?thesis using assms(3) 1 wr by (simp add: exec_detached_def)
  next
    case (Inr dir)
    obtain r2 h2 where 2: "spawn_daemon env dir h1 = (r2, h2)" by fastforce
    note s = spawn[OF wr[OF 1] 2]
    show ?thesis
    proof (cases r2)
      case (Inl e)
      then show ?thesis using assms(3) 1 Inr 2 s by (simp add: exec_detached_def)
    next
      case (Inr pid)
      let ?m = "(new_meta (dv_now env) (dv_own_pid env) i (dm_image_name cfg) (Some (dm_command cfg)))
          \<lparr>sm_pid := Some pid, sm_name := dm_session_name cfg\<rparr>"
      have e: "exec_detached env cfg i h = (case save (dv_sessions env) ?m h2 of Inl e \<Rightarrow> (Inl e, h2) | Inr (r, h) \<Rightarrow> (Inr pid, h))"
        using 1 \<open>r1 = Inr dir\<close> 2 Inr by (simp add: exec_detached_def)
      show ?thesis
      proof (cases "save (dv_sessions env) ?m h2")
        case (Inr x)
        obtain q h3 where x: "x = (q, h3)" by (cases x)
        have "no_consoles (dv_sessions env) h3"
          using Inr x by (intro save_no_consoles[OF s assms(2), of ?m]) (simp_all add: new_meta_def)
        then show ?thesis using e assms(3) Inr x by simp
      qed (use e assms(3) s in simp)
    qed
  qed
qed

subsection \<open>Attaching always gives up\<close>

lemma reload_no_console:
  "no_consoles env h \<Longrightarrow> sm_console_socket m = None \<Longrightarrow> reload_meta env h m = Inr m' \<Longrightarrow> sm_console_socket m' = None"
  by (auto simp: reload_meta_def bindR_Inr no_consoles_def split: option.splits)

lemma wait_socket_none:
  "(\<And>n. no_consoles (at_sessions env) (at_states env n)) \<Longrightarrow> sm_console_socket m = None \<Longrightarrow> \<exists>e. wait_socket env i n m = Inl e"
proof (induction n arbitrary: i m)
  case (Suc n)
  show ?case
  proof (cases "reload_meta (at_sessions env) (at_states env i) m")
    case (Inr m')
    then show ?thesis
      using Suc.IH[OF Suc.prems(1) reload_no_console[OF Suc.prems(1,2) Inr]] Suc.prems(2) by (simp add: bindR_def)
  qed (use Suc.prems(2) in \<open>simp add: bindR_def\<close>)
qed simp

lemma find_session_listed: "find_session env h q = Inr (Some m) \<Longrightarrow> \<exists>d. read_meta env h d = Some m"
proof -
  assume f: "find_session env h q = Inr (Some m)"
  obtain ss where l: "list_sessions env h = Inr ss" using f by (auto simp: find_session_def bindR_Inr)
  have "m \<in> set ss" using f l
    by (auto simp: find_session_def bindR_Inr find_Some_iff split: option.splits list.splits)
  then show ?thesis using l
    by (fastforce simp: list_sessions_def bindR_Inr List.map_filter_def split: option.splits)
qed

text \<open>
  C12: \<^verbatim>\<open>redan attach\<close> never attaches. No operation of the program writes metadata with a console
  socket: if none of the readable metadata has one, the same holds after a detached launch, after a
  session started (whose own metadata has none either) and after a session finished. And as long as
  the files are like that, whatever the query, the daemon and the timing, attaching ends in an error and
  leaves the terminal alone.
\<close>
theorem attach_never_attaches:
  assumes "meta_roundtrip (dv_sessions dv)" "no_consoles (dv_sessions dv) h"
    and "at_sessions env = dv_sessions dv" "\<And>n. no_consoles (dv_sessions dv) (at_states env n)"
  shows "no_consoles (dv_sessions dv) (snd (exec_detached dv cfg i h))
    \<and> (case start_session dv fresh call h of
         (Inr (j, m), h') \<Rightarrow> no_consoles (dv_sessions dv) h' \<and> sm_console_socket m = None
           \<and> (case finish (dv_sessions dv) ok m h' of
                Inr (m', h'') \<Rightarrow> no_consoles (dv_sessions dv) h'' | Inl e \<Rightarrow> True)
       | (Inl e, h') \<Rightarrow> True)
    \<and> (\<exists>e. attach_session make_raw env h q t = (Inl e, t))"
proof (intro conjI)
  show "no_consoles (dv_sessions dv) (snd (exec_detached dv cfg i h))"
    using exec_detached_no_consoles[OF assms(2,1)] by (metis prod.collapse)
  show "case start_session dv fresh call h of
         (Inr (j, m), h') \<Rightarrow> no_consoles (dv_sessions dv) h' \<and> sm_console_socket m = None
           \<and> (case finish (dv_sessions dv) ok m h' of
                Inr (m', h'') \<Rightarrow> no_consoles (dv_sessions dv) h'' | Inl e \<Rightarrow> True)
       | (Inl e, h') \<Rightarrow> True"
  proof -
    have f: "case finish (dv_sessions dv) ok m h' of Inr (m', h'') \<Rightarrow> no_consoles (dv_sessions dv) h'' | Inl e \<Rightarrow> True"
      if "no_consoles (dv_sessions dv) h' \<and> sm_console_socket m = None" for m h'
      using finish_no_consoles[of "dv_sessions dv" h' m ok] that assms(1) by (auto split: sum.splits)
    obtain r h' where s: "start_session dv fresh call h = (r, h')" by fastforce
    show ?thesis
    proof (cases r)
      case (Inr x)
      obtain j m where x: "x = (j, m)" by (cases x)
      then have "no_consoles (dv_sessions dv) h' \<and> sm_console_socket m = None"
        using start_no_consoles[OF assms(2,1)] s Inr by simp
      with f[OF this] show ?thesis using s Inr x by simp
    qed (use s in simp)
  qed
  have w: "\<exists>e. wait_socket env 0 ATTACH_POLLS m = Inl e" if "find_session (at_sessions env) h q = Inr (Some m)" for m
    using find_session_listed[OF that] assms(2-4) by (intro wait_socket_none) (auto simp: no_consoles_def)
  show "\<exists>e. attach_session make_raw env h q t = (Inl e, t)"
    using w by (auto simp: attach_session_def split: sum.splits option.splits)
qed

definition plain_meta :: "string \<Rightarrow> session_meta" where
  "plain_meta i = new_meta ''2025'' 5 i None (Some ''id'')"

definition plain_sessions :: session_env where
  "plain_sessions =
     \<lparr>sv_print = (\<lambda>m. if m = plain_meta (sm_id m) then Inr (CHR ''R'' # sm_id m)
        else if m = (plain_meta (sm_id m))\<lparr>sm_status := Finished\<rparr> then Inr (CHR ''F'' # sm_id m) else Inl ''unsupported''),
      sv_parse = (\<lambda>s. case s of [] \<Rightarrow> None | c # i \<Rightarrow>
        if c = CHR ''R'' then Some (plain_meta i)
        else if c = CHR ''F'' then Some ((plain_meta i)\<lparr>sm_status := Finished\<rparr>) else None),
      sv_names = (\<lambda>d. [''abcd''])\<rparr>"

definition demo_running :: host where
  "demo_running = demo_state\<lparr>entry := (entry demo_state)(''/h/.local/state/redan/sessions'' \<mapsto> Directory,
     ''/h/.local/state/redan/sessions/abcd'' \<mapsto> Directory,
     ''/h/.local/state/redan/sessions/abcd/meta.json'' \<mapsto> Regular 420 True ''Rabcd'', ''/proc/5'' \<mapsto> Directory)\<rparr>"

definition demo_terminal :: "nat terminal" where
  "demo_terminal = \<lparr>tm_tty = True, tm_mode = 0, tm_get_err = None, tm_set_err = None, tm_winsize = None, tm_saved = None,
     tm_poisoned = False\<rparr>"

definition demo_attach :: attach_env where
  "demo_attach = \<lparr>at_sessions = plain_sessions, at_states = (\<lambda>_. demo_running), at_connect = Inr (), at_clone = Inr (),
     at_stdin = [(Some ''ls'', True)], at_socket = [Some ''a'', None]\<rparr>"

lemma plain_sessions_ok: "meta_roundtrip plain_sessions" "no_consoles plain_sessions h"
proof -
  have "sv_parse plain_sessions s = Some m" if "sv_print plain_sessions m = Inr s" for m s
  proof -
    consider "m = plain_meta (sm_id m)" "s = CHR ''R'' # sm_id m"
      | "m = (plain_meta (sm_id m))\<lparr>sm_status := Finished\<rparr>" "s = CHR ''F'' # sm_id m"
      using \<open>sv_print plain_sessions m = Inr s\<close> unfolding plain_sessions_def session_env.simps
      by (metis sum.inject(2) sum.distinct(1))
    then show ?thesis
    proof cases
      case 1
      then show ?thesis unfolding plain_sessions_def session_env.simps 1(2) by (simp flip: 1(1))
    next
      case 2
      then show ?thesis unfolding plain_sessions_def session_env.simps 2(2) by (simp flip: 2(1))
    qed
  qed
  then show "meta_roundtrip plain_sessions" by (simp add: meta_roundtrip_def)
  have "sm_console_socket m = None" if "sv_parse plain_sessions s = Some m" for s m
    using that by (auto simp: plain_sessions_def plain_meta_def new_meta_def split: list.splits if_splits)
  then show "no_consoles plain_sessions h" by (auto simp: no_consoles_def read_meta_def bind_eq_Some_conv)
qed

lemma attach_never_attaches_witness:
  "find_session plain_sessions demo_running (Some ''abcd'') = Inr (Some (plain_meta ''abcd''))
   \<and> is_alive demo_running (plain_meta ''abcd'')
   \<and> (\<exists>e. attach_session (\<lambda>m. m + 1) demo_attach demo_running (Some ''abcd'') demo_terminal = (Inl e, demo_terminal))"
proof (intro conjI)
  show "find_session plain_sessions demo_running (Some ''abcd'') = Inr (Some (plain_meta ''abcd''))"
    "is_alive demo_running (plain_meta ''abcd'')" by code_simp+
  have "meta_roundtrip (dv_sessions (demo_daemon_env\<lparr>dv_sessions := plain_sessions\<rparr>))"
    "no_consoles (dv_sessions (demo_daemon_env\<lparr>dv_sessions := plain_sessions\<rparr>)) demo_running"
    "at_sessions demo_attach = dv_sessions (demo_daemon_env\<lparr>dv_sessions := plain_sessions\<rparr>)"
    "\<And>n. no_consoles (dv_sessions (demo_daemon_env\<lparr>dv_sessions := plain_sessions\<rparr>)) (at_states demo_attach n)"
    using plain_sessions_ok by (simp_all add: demo_attach_def)
  from attach_never_attaches[OF this]
  show "\<exists>e. attach_session (\<lambda>m. m + 1) demo_attach demo_running (Some ''abcd'') demo_terminal = (Inl e, demo_terminal)" by blast
qed

end
