(* ===== verification/Stop.thy ===== *)
theory Stop
  imports Process Session
begin

text \<open>
  Stopping and removing sessions, the \<^verbatim>\<open>stop\<close> and \<^verbatim>\<open>sessions\<close> commands of \<^verbatim>\<open>src/src/main.rs\<close>.
  What the kernel answers to a signal and whether the process is still there at each poll are
  parameters.
\<close>

subsection \<open>Stopping\<close>

definition kill_target :: "32 word \<Rightarrow> string + int" where
  "kill_target pid =
     (case pid_try_from pid of
        Some target \<Rightarrow> if target > 1 then Inr target else Inl (''invalid pid '' @ show_nat (unat pid) @ '' in session metadata'')
      | None \<Rightarrow> Inl (''invalid pid '' @ show_nat (unat pid) @ '' in session metadata''))"

definition ESRCH :: nat where
  "ESRCH = 3"

text \<open>The errno of each signal (\<open>None\<close> when it was delivered) and the liveness seen by each poll.\<close>

record stop_env =
  st_sigterm :: "nat option"
  st_alive :: "nat \<Rightarrow> bool"
  st_sigkill :: "nat option"

definition STOP_POLLS :: nat where
  "STOP_POLLS = 30"

text \<open>The signals sent are returned with the result.\<close>

definition stop_pid :: "stop_env \<Rightarrow> string \<Rightarrow> int \<Rightarrow> (exit + string) \<times> (int \<times> signal) list" where
  "stop_pid so i target =
     (case st_sigterm so of
        Some e \<Rightarrow> (Inl (Exit 1 ''failed to send SIGTERM''), [(target, SIGTERM)])
      | None \<Rightarrow>
          if list_ex (\<lambda>n. \<not> st_alive so n) [0..<STOP_POLLS]
          then (Inr (''session '' @ i @ '' stopped''), [(target, SIGTERM)])
          else (case st_sigkill so of
              None \<Rightarrow> (Inr (''session '' @ i @ '' killed''), [(target, SIGTERM), (target, SIGKILL)])
            | Some e \<Rightarrow>
                (if e = ESRCH then Inr (''session '' @ i @ '' exited'') else Inl (Exit 1 ''failed to send SIGKILL''),
                 [(target, SIGTERM), (target, SIGKILL)])))"

definition stop_session ::
  "session_env \<Rightarrow> stop_env \<Rightarrow> host \<Rightarrow> string option \<Rightarrow> (exit + string) \<times> (int \<times> signal) list" where
  "stop_session env so h id_or_name =
     (case find_session env h id_or_name of
        Inl e \<Rightarrow> (Inl e, [])
      | Inr None \<Rightarrow>
          (Inl (Exit 1 (case id_or_name of
                          Some q \<Rightarrow> ''session '' @ q @ '' not found'' | None \<Rightarrow> ''no sessions found'')), [])
      | Inr (Some m) \<Rightarrow>
          if \<not> is_alive h m then (Inl (Exit 1 (''session '' @ sm_id m @ '' is not running'')), [])
          else (case sm_pid m of
              None \<Rightarrow> (Inl (Exit 1 (''session '' @ sm_id m @ '' has no pid recorded'')), [])
            | Some pid \<Rightarrow>
                (case kill_target pid of
                   Inl e \<Rightarrow> (Inl (Exit 1 (''session '' @ sm_id m @ '': '' @ e)), [])
                 | Inr target \<Rightarrow> stop_pid so (sm_id m) target)))"

subsection \<open>Listing and removing\<close>

definition session_status_label :: "host \<Rightarrow> session_meta \<Rightarrow> string" where
  "session_status_label h s =
     (case sm_status s of
        Running \<Rightarrow> if is_alive h s then ''running'' else ''exited''
      | Finished \<Rightarrow> ''finished''
      | Failed \<Rightarrow> ''failed'')"

definition show_session :: "session_env \<Rightarrow> host \<Rightarrow> string \<Rightarrow> exit + session_meta \<times> string" where
  "show_session env h i =
     (if \<not> valid_session_id i then Inl (Exit 1 (''invalid session ID: '' @ i))
      else bindR (session_dir h i) (\<lambda>dir.
        (case read_to_string h (path_join dir ''meta.json'') of
           None \<Rightarrow> Inl (Exit 1 (''session '' @ i @ '' not found''))
         | Some content \<Rightarrow>
             (case sv_parse env content of
                None \<Rightarrow> Inl (Exit 1 ''corrupt session metadata'')
              | Some m \<Rightarrow> Inr (m, session_status_label h m)))))"

definition remove_session :: "host \<Rightarrow> string \<Rightarrow> exit + host" where
  "remove_session h i =
     (if \<not> valid_session_id i then Inl (Exit 1 (''invalid session ID: '' @ i))
      else bindR (session_dir h i) (\<lambda>dir.
        if \<not> path_exists h dir then Inl (Exit 1 (''session '' @ i @ '' not found''))
        else ok_or (remove_dir_all h dir) (Exit 1 (''cannot remove session '' @ i))))"

definition is_dead :: "host \<Rightarrow> session_meta \<Rightarrow> bool" where
  "is_dead h s \<longleftrightarrow> sm_status s = Finished \<or> sm_status s = Failed \<or> sm_status s = Running \<and> \<not> is_alive h s"

fun remove_dead :: "session_meta list \<Rightarrow> nat \<Rightarrow> host \<Rightarrow> exit + nat \<times> host" where
  "remove_dead [] removed h = Inr (removed, h)"
| "remove_dead (s # ss) removed h =
     (if is_dead h s
      then bindR (session_dir h (sm_id s)) (\<lambda>dir.
             case remove_dir_all h dir of
               Some h \<Rightarrow> remove_dead ss (removed + 1) h
             | None \<Rightarrow> remove_dead ss removed h)
      else remove_dead ss removed h)"

definition remove_exited :: "session_env \<Rightarrow> host \<Rightarrow> exit + nat \<times> host" where
  "remove_exited env h = bindR (list_sessions env h) (\<lambda>sessions. remove_dead sessions 0 h)"

subsection \<open>What removal touches\<close>

lemma remove_dir_all_env: "remove_dir_all h dir = Some h' \<Longrightarrow> session_dir h' i = session_dir h i"
  by (drule remove_dir_all_Some, elim conjE, rule session_dir_cong)

lemma remove_dir_all_entry:
  "remove_dir_all h dir = Some h' \<Longrightarrow> entry h' q = entry h q \<or> below dir q"
  by (auto dest!: remove_dir_all_Some)

text \<open>An entry that the bulk removal took away lies below the directory some listed session names.\<close>

lemma remove_dead_touches:
  "remove_dead ss n h = Inr (n', h') \<Longrightarrow> entry h' q \<noteq> entry h q \<Longrightarrow>
   \<exists>s\<in>set ss. \<exists>dir. session_dir h (sm_id s) = Inr dir \<and> below dir q"
proof (induction ss arbitrary: n h)
  case (Cons s ss)
  have ih: ?case if "remove_dead ss k h1 = Inr (n', h')" "\<And>i. session_dir h1 i = session_dir h i" "entry h1 q = entry h q" for k h1
    using Cons.IH[OF that(1)] Cons.prems(2) that(2,3) by auto
  show ?case
  proof (cases "is_dead h s")
    case True
    then obtain dir where dir: "session_dir h (sm_id s) = Inr dir"
      "(case remove_dir_all h dir of Some h \<Rightarrow> remove_dead ss (n + 1) h | None \<Rightarrow> remove_dead ss n h) = Inr (n', h')"
      using Cons.prems(1) by (auto simp: bindR_Inr)
    show ?thesis
    proof (cases "remove_dir_all h dir")
      case None
      then show ?thesis using dir(2) ih[of n h] by simp
    next
      case (Some h1)
      show ?thesis
      proof (cases "below dir q")
        case True
        then show ?thesis using dir(1) by auto
      next
        case False
        then have "entry h1 q = entry h q" using remove_dir_all_entry[OF Some] by blast
        then show ?thesis using dir(2) Some ih[of "n + 1" h1] remove_dir_all_env[OF Some] by simp
      qed
    qed
  next
    case False
    then show ?thesis using Cons.prems(1) ih[of n h] by simp
  qed
qed simp

text \<open>The identifier comes from the metadata file and is not checked against the directory it was
  found in: an exited entry that carries a running session's identifier removes that session.\<close>

lemma bulk_removal_trusts_metadata:
  assumes "is_dead h s" "session_dir h (sm_id s) = Inr dir" "entry h dir = Some Directory" "writable h dir"
  shows "remove_dead [s] 0 h = Inr (1, h\<lparr>entry := \<lambda>q. if below dir q then None else entry h q\<rparr>)"
  using assms by (simp add: bindR_def remove_dir_all_def)

lemma remove_session_touches:
  assumes "remove_session h i = Inr h'" "entry h' q \<noteq> entry h q"
  obtains dir where "sessions_dir h = Inr dir" "below (dir @ CHR ''/'' # i) q"
proof -
  have v: "valid_session_id i" using assms(1) by (auto simp: remove_session_def split: if_splits)
  then obtain d where d: "session_dir h i = Inr d" "remove_dir_all h d = Some h'"
    using assms(1) by (auto simp: remove_session_def bindR_Inr ok_or_Inr split: if_splits)
  have "below d q" using remove_dir_all_entry[OF d(2), of q] assms(2) by blast
  then show thesis using session_dir_below[OF v d(1)] that by metis
qed

lemma kill_target_Inr: "kill_target pid = Inr t \<longleftrightarrow> t = uint pid \<and> 1 < uint pid \<and> uint pid < 2 ^ 31"
  by (auto simp: kill_target_def pid_try_from_def)

lemma stop_session_cases:
  obtains e where "stop_session env so h q = (Inl e, [])"
    | m pid where "find_session env h q = Inr (Some m)" "is_alive h m" "sm_pid m = Some pid" "1 < uint pid"
        "stop_session env so h q = stop_pid so (sm_id m) (uint pid)"
proof -
  have "(\<exists>e. stop_session env so h q = (Inl e, [])) \<or>
    (\<exists>m pid. find_session env h q = Inr (Some m) \<and> is_alive h m \<and> sm_pid m = Some pid \<and> 1 < uint pid \<and>
       stop_session env so h q = stop_pid so (sm_id m) (uint pid))"
  proof (cases "find_session env h q")
    case (Inl e)
    then show ?thesis by (simp add: stop_session_def)
  next
    case (Inr found)
    show ?thesis
    proof (cases found)
      case None
      then show ?thesis using Inr by (simp add: stop_session_def)
    next
      case (Some m)
      show ?thesis
      proof (cases "sm_pid m")
        case None
        then show ?thesis using Inr Some by (simp add: stop_session_def)
      next
        case pid: (Some pid)
        then show ?thesis
        proof (cases "kill_target pid")
          case (Inl e)
          then show ?thesis using \<open>find_session env h q = Inr found\<close> Some pid by (simp add: stop_session_def)
        next
          case (Inr t)
          then show ?thesis
            using \<open>find_session env h q = Inr found\<close> Some pid kill_target_Inr[of pid t] by (simp add: stop_session_def)
        qed
      qed
    qed
  qed
  then show thesis using that by blast
qed

subsection \<open>Properties\<close>

text \<open>
  C26: stopping a session signals that session's process and nothing else. Whatever the metadata says
  and the kernel answers, either nothing is signalled and an error is reported, or the session found
  was alive and its recorded pid, which is above 1 and fits a \<^verbatim>\<open>pid_t\<close> (so \<^verbatim>\<open>kill\<close> reaches exactly
  one process, never a group), gets SIGTERM, and SIGKILL only if it was still there in all 30
  polls. Success is reported only when the process was seen gone, was killed, or no longer existed.
\<close>
theorem stop_session_safe:
  "case stop_session env so h q of (r, sigs) \<Rightarrow>
     sigs = [] \<and> (\<exists>e. r = Inl e) \<or>
     (\<exists>m pid rest. find_session env h q = Inr (Some m) \<and> is_alive h m \<and> sm_pid m = Some pid
        \<and> sigs = (uint pid, SIGTERM) # rest \<and> 1 < uint pid \<and> kill_scope (uint pid) = One_process (uint pid)
        \<and> (rest = [] \<or> rest = [(uint pid, SIGKILL)] \<and> list_all (st_alive so) [0..<30])
        \<and> (case r of
             Inr msg \<Rightarrow> list_ex (\<lambda>n. \<not> st_alive so n) [0..<30] \<or> rest = [(uint pid, SIGKILL)] \<and>
               (st_sigkill so = None \<or> st_sigkill so = Some ESRCH)
           | Inl e \<Rightarrow> \<exists>n. st_sigterm so = Some n \<or> st_sigkill so = Some n))"
proof -
  have polls: "list_all (st_alive so) [0..<30]" if "\<not> list_ex (\<lambda>n. \<not> st_alive so n) [0..<30]"
    using that by (auto simp: list_ex_iff list_all_iff)
  have sp: "case stop_pid so i (uint pid) of (r, sigs) \<Rightarrow>
      (\<exists>rest. sigs = (uint pid, SIGTERM) # rest
        \<and> (rest = [] \<or> rest = [(uint pid, SIGKILL)] \<and> list_all (st_alive so) [0..<30])
        \<and> (case r of
             Inr msg \<Rightarrow> list_ex (\<lambda>n. \<not> st_alive so n) [0..<30] \<or> rest = [(uint pid, SIGKILL)] \<and>
               (st_sigkill so = None \<or> st_sigkill so = Some ESRCH)
           | Inl e \<Rightarrow> \<exists>n. st_sigterm so = Some n \<or> st_sigkill so = Some n))" for i and pid :: "32 word"
    using polls by (auto simp: stop_pid_def STOP_POLLS_def simp del: upt_Suc split: option.split)
  show ?thesis
  proof (cases rule: stop_session_cases[of env so h q])
    case (1 e)
    then show ?thesis by simp
  next
    case (2 m pid)
    obtain r sigs where rs: "stop_pid so (sm_id m) (uint pid) = (r, sigs)" by (cases "stop_pid so (sm_id m) (uint pid)")
    have "kill_scope (uint pid) = One_process (uint pid)" using 2(4) by (intro kill_scope_one) simp
    then show ?thesis unfolding 2(5) rs prod.case using sp[where i = "sm_id m" and pid = pid] 2(1-4)
      unfolding rs prod.case by blast
  qed
qed

end
