(* ===== verification/Jsonc.thy ===== *)
theory Jsonc
  imports Prelude
begin

text \<open>
  Comments in devcontainer files: \<^verbatim>\<open>strip_jsonc_comments\<close> of \<^verbatim>\<open>src/src/image.rs\<close>. The nested loops
  of the code are the modes of one scanner.
\<close>

datatype jsonc_mode = Plain | In_string | Line_comment | Block_comment

fun strip_loop :: "jsonc_mode \<Rightarrow> string \<Rightarrow> string" where
  "strip_loop m [] = []"
| "strip_loop In_string (c # cs) =
     (if c = CHR 0x5C then (case cs of [] \<Rightarrow> [c] | n # cs' \<Rightarrow> c # n # strip_loop In_string cs')
      else if c = CHR 0x22 then c # strip_loop Plain cs
      else c # strip_loop In_string cs)"
| "strip_loop Plain (c # cs) =
     (if c = CHR 0x22 then c # strip_loop In_string cs
      else if c = CHR ''/'' \<and> prefix ''/'' cs then strip_loop Line_comment (tl cs)
      else if c = CHR ''/'' \<and> prefix ''*'' cs then strip_loop Block_comment (tl cs)
      else c # strip_loop Plain cs)"
| "strip_loop Line_comment (c # cs) =
     (if c = CHR 0x0A then c # strip_loop Plain cs else strip_loop Line_comment cs)"
| "strip_loop Block_comment (c # cs) =
     (if c = CHR ''*'' \<and> prefix ''/'' cs then strip_loop Plain (tl cs) else strip_loop Block_comment cs)"

definition strip_jsonc_comments :: "string \<Rightarrow> string" where
  "strip_jsonc_comments input = strip_loop Plain input"

subsection \<open>The token grammar\<close>

text \<open>A document is a list of strings (their contents as plain characters and escapes), line comments,
  block comments and other characters.\<close>

datatype jtoken = Str "(bool \<times> char) list" | Line_c string | Block_c string | Other char

fun str_text :: "(bool \<times> char) list \<Rightarrow> string" where
  "str_text [] = []"
| "str_text ((escaped, c) # cs) = (if escaped then [CHR 0x5C, c] else [c]) @ str_text cs"

fun token_text :: "jtoken \<Rightarrow> string" where
  "token_text (Str cs) = [CHR 0x22] @ str_text cs @ [CHR 0x22]"
| "token_text (Line_c s) = ''//'' @ s @ [CHR 0x0A]"
| "token_text (Block_c s) = ''/*'' @ s @ ''*/''"
| "token_text (Other c) = [c]"

fun token_kept :: "jtoken \<Rightarrow> string" where
  "token_kept (Line_c s) = [CHR 0x0A]"
| "token_kept (Block_c s) = []"
| "token_kept t = token_text t"

text \<open>Well-formed tokens; a slash that stands alone may not be followed by a slash or a star.\<close>

fun token_ok :: "jtoken \<Rightarrow> bool" where
  "token_ok (Str cs) = list_all (\<lambda>(escaped, c). escaped \<or> c \<noteq> CHR 0x5C \<and> c \<noteq> CHR 0x22) cs"
| "token_ok (Line_c s) = (CHR 0x0A \<notin> set s)"
| "token_ok (Block_c s) = (\<not> sublist ''*/'' s)"
| "token_ok (Other c) = (c \<noteq> CHR 0x22)"

fun doc_ok :: "jtoken list \<Rightarrow> bool" where
  "doc_ok [] = True"
| "doc_ok (t # ts) =
     (token_ok t \<and> doc_ok ts \<and>
      (t = Other (CHR ''/'') \<longrightarrow>
         (let rest = concat (map token_text ts) in \<not> prefix ''/'' rest \<and> \<not> prefix ''*'' rest)))"

lemma strip_string:
  "token_ok (Str cs) \<Longrightarrow> strip_loop In_string (str_text cs @ CHR 0x22 # r) = str_text cs @ CHR 0x22 # strip_loop Plain r"
  by (induction cs) (auto split: if_splits)

lemma strip_line: "CHR 0x0A \<notin> set s \<Longrightarrow> strip_loop Line_comment (s @ CHR 0x0A # r) = CHR 0x0A # strip_loop Plain r"
  by (induction s) auto

lemma strip_block: "\<not> sublist ''*/'' s \<Longrightarrow> strip_loop Block_comment (s @ ''*/'' @ r) = strip_loop Plain r"
proof (induction s)
  case (Cons c s)
  have s: "\<not> sublist ''*/'' s" using Cons.prems by (auto simp: sublist_Cons_right)
  have "\<not> (c = CHR ''*'' \<and> prefix ''/'' (s @ ''*/'' @ r))"
    using Cons.prems by (cases s) (auto simp: sublist_Cons_right)
  then have "strip_loop Block_comment ((c # s) @ ''*/'' @ r) = strip_loop Block_comment (s @ ''*/'' @ r)"
    by (simp only: append_Cons strip_loop.simps if_False)
  then show ?case using Cons.IH[OF s] by simp
qed simp

text \<open>
  Stripping comments changes nothing but comments. A document written as strings, comments and
  other characters comes out with every string (also one that contains comment marks or escaped
  quotes) and every other character as it was, line comments reduced to their line break and block
  comments gone; so a document without comments is unchanged.
\<close>
lemma strip_jsonc_exact:
  assumes "doc_ok ts"
  shows "strip_jsonc_comments (concat (map token_text ts)) = concat (map token_kept ts)"
  unfolding strip_jsonc_comments_def using assms
proof (induction ts)
  case (Cons t ts)
  let ?r = "concat (map token_text ts)"
  have ih: "strip_loop Plain ?r = concat (map token_kept ts)" using Cons by simp
  have "strip_loop Plain (token_text t @ ?r) = token_kept t @ strip_loop Plain ?r"
  proof (cases t)
    case (Str cs)
    then show ?thesis using strip_string[of cs ?r] Cons.prems by simp
  next
    case (Line_c s)
    then show ?thesis using strip_line[of s ?r] Cons.prems by simp
  next
    case (Block_c s)
    then show ?thesis using strip_block[of s ?r] Cons.prems by simp
  next
    case (Other c)
    then show ?thesis using Cons.prems by (auto simp: Let_def)
  qed
  then show ?case using ih by simp
qed simp

end
