(* ===== verification/Image.thy ===== *)
theory Image
  imports Dirs Jsonc Exec
begin

text \<open>
  Rootfs images, \<^verbatim>\<open>src/src/image.rs\<close>, \<^verbatim>\<open>src/src/image_meta.rs\<close> and the image commands of
  \<^verbatim>\<open>src/src/main.rs\<close>: names and paths, building, importing, updating with a backup. The programs
  that are called (curl, tar, docker, the build VM) are parameters that answer and change the file
  system; JSON and the clock are parameters too.
\<close>

datatype io_kind = Io_invalid_input | Io_not_found | Io_already_exists | Io_invalid_data | Io_other

type_synonym io_error = "io_kind \<times> string"

subsection \<open>Names and paths\<close>

definition image_home :: "host \<Rightarrow> exit + path" where
  "image_home h = ok_or (env_var h ''HOME'') (Exit 1 ''$HOME not set -- cannot determine config directories'')"

definition image_dir :: "host \<Rightarrow> exit + path" where
  "image_dir h =
     bindR (case env_var h ''XDG_DATA_HOME'' of
              Some p \<Rightarrow> Inr p | None \<Rightarrow> bindR (image_home h) (\<lambda>home. Inr (path_join home ''.local/share'')))
       (\<lambda>base. Inr (path_join base ''redan/images''))"

definition cache_dir :: "host \<Rightarrow> exit + path" where
  "cache_dir h =
     bindR (case env_var h ''XDG_CACHE_HOME'' of
              Some p \<Rightarrow> Inr p | None \<Rightarrow> bindR (image_home h) (\<lambda>home. Inr (path_join home ''.cache'')))
       (\<lambda>base. Inr (path_join base ''redan''))"

definition is_valid_image_name :: "string \<Rightarrow> bool" where
  "is_valid_image_name name \<longleftrightarrow>
     name \<noteq> [] \<and> list_all (\<lambda>c. is_ascii_alphanumeric c \<or> c = CHR ''-'' \<or> c = CHR ''_'') name"

definition image_path :: "host \<Rightarrow> string \<Rightarrow> exit + (io_error + path)" where
  "image_path h name =
     (if \<not> is_valid_image_name name
      then Inr (Inl (Io_invalid_input, ''invalid image name: must be alphanumeric, hyphens, or underscores''))
      else bindR (image_dir h) (\<lambda>d. Inr (Inr (path_join d name))))"

text \<open>An operation on a named image: an exit, or a result with the file system it leaves.\<close>

type_synonym 'a io = "exit + (io_error + 'a) \<times> host"

definition at_image :: "host \<Rightarrow> string \<Rightarrow> (path \<Rightarrow> 'a io) \<Rightarrow> 'a io" where
  "at_image h name f =
     bindR (image_path h name) (\<lambda>r. case r of Inl e \<Rightarrow> Inr (Inl e, h) | Inr p \<Rightarrow> f p)"

definition then_io :: "'a io \<Rightarrow> ('a \<Rightarrow> host \<Rightarrow> 'b io) \<Rightarrow> 'b io" where
  "then_io r f = bindR r (\<lambda>(x, h). case x of Inl e \<Rightarrow> Inr (Inl e, h) | Inr a \<Rightarrow> f a h)"

definition list_images :: "(path \<Rightarrow> string list) \<Rightarrow> host \<Rightarrow> exit + string list" where
  "list_images names h =
     bindR (image_dir h) (\<lambda>dir. Inr (case read_dir names h dir of
         None \<Rightarrow> []
       | Some entries \<Rightarrow>
           sort (filter (\<lambda>n. entry h (path_join (path_join dir n) ''bin'') = Some Directory \<and> utf8_valid n) entries)))"

definition remove_image :: "host \<Rightarrow> string \<Rightarrow> unit io" where
  "remove_image h name =
     at_image h name (\<lambda>p.
       if \<not> path_exists h p then Inr (Inl (Io_not_found, ''image '' @ name @ '' not found''), h)
       else (case remove_dir_all h p of
           None \<Rightarrow> Inr (Inl (Io_other, ''cannot remove''), h)
         | Some h \<Rightarrow> Inr (Inr (), h)))"

subsection \<open>Metadata\<close>

datatype image_source = Dockerfile_src path | Docker_src string | Devcontainer_src path
| Create_src "string list" "string list" | Unknown_src

record image_meta =
  im_built_at :: string
  im_source :: image_source

definition META_FILE :: string where
  "META_FILE = ''.redan-image.json''"

record build_env =
  bd_now :: string
  bd_print :: "image_meta \<Rightarrow> string + string"
  bd_parse :: "string \<Rightarrow> image_meta option"
  bd_days :: "string \<Rightarrow> int option"  \<comment> \<open>whole days from a timestamp to now\<close>
  bd_curl :: "path \<Rightarrow> host \<Rightarrow> bool option \<times> host"
  bd_tar :: "path \<Rightarrow> path \<Rightarrow> host \<Rightarrow> bool option \<times> host"
  bd_vm :: "path \<Rightarrow> string \<Rightarrow> host \<Rightarrow> (string + unit) \<times> host"
  bd_docker :: "string list \<Rightarrow> bool option"
  bd_docker_create :: "string \<Rightarrow> (bool \<times> bytes) option"
  bd_export_spawn :: "string \<Rightarrow> string + unit"
  bd_export_wait :: "string + bool"
  bd_untar :: "path \<Rightarrow> host \<Rightarrow> (string + bool) \<times> host"
  bd_compose_config :: "path \<Rightarrow> bytes option"
  bd_json :: "string \<Rightarrow> json option"
  bd_names :: "path \<Rightarrow> string list"

definition new_image_meta :: "build_env \<Rightarrow> image_source \<Rightarrow> image_meta" where
  "new_image_meta env src = \<lparr>im_built_at = bd_now env, im_source = src\<rparr>"

text \<open>A failure to save is logged, and the file system stays as it is.\<close>

definition save_image_meta :: "build_env \<Rightarrow> image_meta \<Rightarrow> path \<Rightarrow> host \<Rightarrow> host" where
  "save_image_meta env m dir h =
     (case bd_print env m of
        Inl e \<Rightarrow> h
      | Inr json \<Rightarrow> (case write_file h (path_join dir META_FILE) json of None \<Rightarrow> h | Some h \<Rightarrow> h))"

definition load_image_meta :: "build_env \<Rightarrow> host \<Rightarrow> path \<Rightarrow> image_meta option" where
  "load_image_meta env h dir = Option.bind (read_to_string h (path_join dir META_FILE)) (bd_parse env)"

definition age_days :: "build_env \<Rightarrow> image_meta \<Rightarrow> nat option" where
  "age_days env m = map_option nat (bd_days env (im_built_at m))"

subsection \<open>Building from Alpine\<close>

definition ALPINE_TARBALL :: string where
  "ALPINE_TARBALL = ''alpine-minirootfs-3.21.3-x86_64.tar.gz''"

text \<open>The best effort \<^verbatim>\<open>let _ = remove_dir_all(..)\<close> and \<^verbatim>\<open>let _ = remove_file(..)\<close>.\<close>

definition try_remove_dir :: "path \<Rightarrow> host \<Rightarrow> host" where
  "try_remove_dir p h = (case remove_dir_all h p of Some h \<Rightarrow> h | None \<Rightarrow> h)"

definition try_remove_file :: "path \<Rightarrow> host \<Rightarrow> host" where
  "try_remove_file p h = (case remove_file h p of Some h \<Rightarrow> h | None \<Rightarrow> h)"

definition ensure_base_cached :: "build_env \<Rightarrow> host \<Rightarrow> path io" where
  "ensure_base_cached env h =
     bindR (cache_dir h) (\<lambda>cache.
       case create_dir_all h cache of
         None \<Rightarrow> Inr (Inl (Io_other, ''cannot create cache directory''), h)
       | Some h \<Rightarrow>
           (let tarball = path_join cache ALPINE_TARBALL
            in if path_exists h tarball then Inr (Inr tarball, h)
               else (case bd_curl env tarball h of
                   (None, h) \<Rightarrow> Inr (Inl (Io_not_found, ''curl''), h)
                 | (Some ok, h) \<Rightarrow>
                     if ok then Inr (Inr tarball, h)
                     else Inr (Inl (Io_other, ''failed to download Alpine minirootfs''), try_remove_file tarball h))))"

definition extract_tarball :: "build_env \<Rightarrow> path \<Rightarrow> path \<Rightarrow> host \<Rightarrow> unit io" where
  "extract_tarball env tarball dest h =
     (case create_dir_all h dest of
        None \<Rightarrow> Inr (Inl (Io_other, ''cannot create image directory''), h)
      | Some h \<Rightarrow>
          (case bd_tar env tarball dest h of
             (None, h) \<Rightarrow> Inr (Inl (Io_other, ''tar''), h)
           | (Some ok, h) \<Rightarrow> Inr (if ok then Inr () else Inl (Io_other, ''tar extraction failed''), h)))"

definition setup_parts :: "string list \<Rightarrow> string list \<Rightarrow> string list" where
  "setup_parts packages run_commands =
     [''echo 'https://dl-cdn.alpinelinux.org/alpine/v3.21/main' > /etc/apk/repositories; echo 'https://dl-cdn.alpinelinux.org/alpine/v3.21/community' >> /etc/apk/repositories'']
     @ (if packages \<noteq> []
        then [''apk update && (apk add --no-cache '' @ join '' '' packages
                @ '' 2>&1 | grep -v 'Failed to set ownership' || true)''] else [])
     @ run_commands @ [''touch /tmp/.redan-build-ok'']"

definition build_command :: "string list \<Rightarrow> string list \<Rightarrow> string" where
  "build_command packages run_commands =
     net_setup_commands (show_ip GATEWAY_IP) (show_ip GUEST_IP) @ ''; '' @ ca_update_commands @ ''; ''
       @ join '' && '' (setup_parts packages run_commands)"

definition build_image :: "build_env \<Rightarrow> path \<Rightarrow> string list \<Rightarrow> string list \<Rightarrow> host \<Rightarrow> unit io" where
  "build_image env dest packages run_commands h =
     (case bd_vm env dest (build_command packages run_commands) h of
        (Inl e, h) \<Rightarrow> Inr (Inl (Io_other, e), h)
      | (Inr _, h) \<Rightarrow>
          (let sentinel = path_join dest ''tmp/.redan-build-ok''
           in if \<not> path_exists h sentinel
              then Inr (Inl (Io_other, ''image build failed: setup commands did not complete successfully''), h)
              else Inr (Inr (), try_remove_file sentinel h)))"

definition create :: "build_env \<Rightarrow> string \<Rightarrow> string list \<Rightarrow> string list \<Rightarrow> host \<Rightarrow> path io" where
  "create env name packages run_commands h =
     at_image h name (\<lambda>dest.
       if path_exists h dest then Inr (Inl (Io_already_exists, ''image '' @ name @ '' already exists''), h)
       else then_io (ensure_base_cached env h) (\<lambda>tarball h.
              then_io (extract_tarball env tarball dest h) (\<lambda>_ h.
                bindR (build_image env dest packages run_commands h) (\<lambda>(r, h). Inr (case r of
                    Inr _ \<Rightarrow> (Inr dest, save_image_meta env (new_image_meta env (Create_src packages run_commands)) dest h)
                  | Inl e \<Rightarrow> (Inl e, try_remove_dir dest h))))))"

subsection \<open>Importing\<close>

text \<open>Both processes report; the failure of tar wins.\<close>

definition export_result :: "build_env \<Rightarrow> string \<Rightarrow> path \<Rightarrow> host \<Rightarrow> (string + unit) \<times> host" where
  "export_result env cid dest h =
     (case bd_export_spawn env cid of
        Inl e \<Rightarrow> (Inl (''could not start docker export: '' @ e), h)
      | Inr _ \<Rightarrow>
          (case bd_untar env dest h of (tar, h) \<Rightarrow>
             (let tar_result = (case tar of
                     Inl e \<Rightarrow> Inl (''could not run tar: '' @ e)
                   | Inr ok \<Rightarrow> if ok then Inr () else Inl ''tar extraction failed'');
                  docker_result = (case bd_export_wait env of
                     Inl e \<Rightarrow> Inl (''could not wait on docker export: '' @ e)
                   | Inr ok \<Rightarrow> if ok then Inr () else Inl ''docker export failed'')
              in (bindR tar_result (\<lambda>_. docker_result), h))))"

definition import_at :: "build_env \<Rightarrow> path \<Rightarrow> string \<Rightarrow> host \<Rightarrow> (io_error + path) \<times> host" where
  "import_at env dest docker_image h =
     (case create_dir_all h dest of
        None \<Rightarrow> (Inl (Io_other, ''cannot create image directory''), h)
      | Some h \<Rightarrow>
          (case bd_docker_create env docker_image of
             None \<Rightarrow> (Inl (Io_other, ''docker create''), h)
           | Some (False, output) \<Rightarrow> (Inl (Io_other, ''docker create failed''), try_remove_dir dest h)
           | Some (True, output) \<Rightarrow>
               (case export_result env (str_trim (from_utf8_lossy output)) dest h of
                  (Inl msg, h) \<Rightarrow> (Inl (Io_other, msg), try_remove_dir dest h)
                | (Inr _, h) \<Rightarrow>
                    if entry h (path_join dest ''bin'') \<noteq> Some Directory
                    then (Inl (Io_other, ''exported image has no /bin -- not a valid rootfs''), try_remove_dir dest h)
                    else (Inr dest, save_image_meta env (new_image_meta env (Docker_src docker_image)) dest h))))"

definition import_docker_inner :: "build_env \<Rightarrow> string \<Rightarrow> string \<Rightarrow> bool \<Rightarrow> host \<Rightarrow> path io" where
  "import_docker_inner env name docker_image pull h =
     at_image h name (\<lambda>dest.
       if path_exists h dest then Inr (Inl (Io_already_exists, ''image '' @ name @ '' already exists''), h)
       else (case (if pull then bd_docker env [''pull'', ''-q'', docker_image] else Some True) of
           None \<Rightarrow> Inr (Inl (Io_other, ''docker pull''), h)
         | Some False \<Rightarrow> Inr (Inl (Io_other, ''docker pull failed for '' @ docker_image), h)
         | Some True \<Rightarrow> Inr (import_at env dest docker_image h)))"

definition import_docker :: "build_env \<Rightarrow> string \<Rightarrow> string \<Rightarrow> host \<Rightarrow> path io" where
  "import_docker env name docker_image h = import_docker_inner env name docker_image True h"

text \<open>\<^verbatim>\<open>Path::parent\<close>, empty for a bare file name.\<close>

definition parent_path :: "path \<Rightarrow> path" where
  "parent_path p = (case rsplit_once (CHR ''/'') p of None \<Rightarrow> [] | Some (d, f) \<Rightarrow> if d = [] then ''/'' else d)"

definition import_dockerfile :: "build_env \<Rightarrow> string \<Rightarrow> path \<Rightarrow> host \<Rightarrow> path io" where
  "import_dockerfile env name dockerfile_path h =
     (if \<not> path_exists h dockerfile_path
      then Inr (Inl (Io_not_found, ''Dockerfile not found: '' @ dockerfile_path), h)
      else (let tag = ''redan-build-'' @ name;
                ctx = (if parent_path dockerfile_path = [] then ''.'' else parent_path dockerfile_path)
            in case bd_docker env [''build'', ''-t'', tag, ''-f'', dockerfile_path, ctx] of
                 None \<Rightarrow> Inr (Inl (Io_other, ''docker build''), h)
               | Some False \<Rightarrow> Inr (Inl (Io_other, ''docker build failed''), h)
               | Some True \<Rightarrow>
                   bindR (import_docker_inner env name tag False h) (\<lambda>(r, h). Inr (r, case r of
                       Inr dest \<Rightarrow> save_image_meta env (new_image_meta env (Dockerfile_src dockerfile_path)) dest h
                     | Inl e \<Rightarrow> h))))"

subsection \<open>Devcontainers\<close>

definition json_field :: "string \<Rightarrow> json \<Rightarrow> string option" where
  "json_field key v = Option.bind (json_get key v) json_str"

text \<open>Building with docker and importing the tag; the tag is removed whatever the outcome.\<close>

definition compose_source :: "build_env \<Rightarrow> path \<Rightarrow> string \<Rightarrow> io_error + string" where
  "compose_source env compose_path service =
     (case bd_docker env [''compose'', ''-f'', compose_path, ''build'', service] of
        None \<Rightarrow> Inl (Io_other, ''docker compose'')
      | Some False \<Rightarrow> Inl (Io_other, ''docker compose build failed'')
      | Some True \<Rightarrow>
          (case bd_compose_config env compose_path of
             None \<Rightarrow> Inl (Io_other, ''docker compose config'')
           | Some output \<Rightarrow>
               (case bd_json env output of
                  None \<Rightarrow> Inl (Io_invalid_data, ''cannot parse compose config'')
                | Some config_json \<Rightarrow>
                    (let source_tag = (case Option.bind (Option.bind (json_get ''services'' config_json) (json_get service))
                                              (json_field ''image'') of Some s \<Rightarrow> s | None \<Rightarrow> [])
                     in if source_tag = []
                        then Inl (Io_other, ''cannot determine image name for service '' @ service @ '' after build'')
                        else Inr source_tag))))"

definition import_devcontainer_config ::
  "build_env \<Rightarrow> string \<Rightarrow> path \<Rightarrow> json \<Rightarrow> host \<Rightarrow> path io" where
  "import_devcontainer_config env name config_dir config h =
     (let tag = ''redan-build-'' @ name
      in case Option.bind (json_get ''build'' config) (json_field ''dockerfile'') of
           Some dockerfile \<Rightarrow>
             (let ctx = (case Option.bind (json_get ''build'' config) (json_field ''context'') of
                           Some c \<Rightarrow> c | None \<Rightarrow> ''.'')
              in case bd_docker env [''build'', ''-t'', tag, ''-f'', path_join config_dir dockerfile, path_join config_dir ctx] of
                   None \<Rightarrow> Inr (Inl (Io_other, ''docker build''), h)
                 | Some False \<Rightarrow> Inr (Inl (Io_other, ''docker build failed''), h)
                 | Some True \<Rightarrow> import_docker_inner env name tag False h)
         | None \<Rightarrow>
             (case json_field ''image'' config of
                Some img \<Rightarrow> import_docker env name img h
              | None \<Rightarrow>
                  (case json_field ''dockerComposeFile'' config of
                     Some compose_file \<Rightarrow>
                       (case json_field ''service'' config of
                          None \<Rightarrow> Inr (Inl (Io_invalid_data, ''devcontainer.json has 'dockerComposeFile' but no '' @ [CHR 0x27] @ ''service'' @ [CHR 0x27]), h)
                        | Some service \<Rightarrow>
                            (case compose_source env (path_join config_dir compose_file) service of
                               Inl e \<Rightarrow> Inr (Inl e, h)
                             | Inr source_tag \<Rightarrow> import_docker_inner env name tag False h))
                   | None \<Rightarrow>
                       Inr (Inl (Io_invalid_data,
                         ''devcontainer.json has no 'build.dockerfile', 'image', or 'dockerComposeFile' field''), h))))"

definition import_devcontainer_inner :: "build_env \<Rightarrow> string \<Rightarrow> path \<Rightarrow> host \<Rightarrow> path io" where
  "import_devcontainer_inner env name cfg_path h =
     (if \<not> path_exists h cfg_path
      then Inr (Inl (Io_not_found, ''devcontainer config not found: '' @ cfg_path), h)
      else (case read_to_string h cfg_path of
          None \<Rightarrow> Inr (Inl (Io_other, ''cannot read''), h)
        | Some content \<Rightarrow>
            (case bd_json env (strip_jsonc_comments content) of
               None \<Rightarrow> Inr (Inl (Io_invalid_data, ''invalid JSON''), h)
             | Some config \<Rightarrow> import_devcontainer_config env name (parent_path cfg_path) config h)))"

definition import_devcontainer :: "build_env \<Rightarrow> string \<Rightarrow> path \<Rightarrow> host \<Rightarrow> path io" where
  "import_devcontainer env name cfg_path h =
     then_io (import_devcontainer_inner env name cfg_path h) (\<lambda>result h.
       Inr (Inr result, save_image_meta env (new_image_meta env (Devcontainer_src cfg_path)) result h))"

definition resolve_devcontainer_path :: "host \<Rightarrow> path \<Rightarrow> path" where
  "resolve_devcontainer_path h p =
     (if is_file h p then p
      else (case find (is_file h) (map (path_join p) [''devcontainer.json'', ''.devcontainer/devcontainer.json'', ''.devcontainer.json'']) of
          Some c \<Rightarrow> c | None \<Rightarrow> p))"

subsection \<open>The image commands\<close>

definition import_image ::
  "build_env \<Rightarrow> string \<Rightarrow> string option \<Rightarrow> path option \<Rightarrow> path option \<Rightarrow> bool \<Rightarrow> host \<Rightarrow> unit io" where
  "import_image env name from_image dockerfile devcontainer force h =
     bindR (if force then image_path h name else Inr (Inl (Io_other, []))) (\<lambda>p.
       then_io (case p of
                  Inr p \<Rightarrow> if path_exists h p then remove_image h name else Inr (Inr (), h)
                | Inl e \<Rightarrow> Inr (Inr (), h))
         (\<lambda>_ h. case from_image of
              Some docker_image \<Rightarrow> then_io (import_docker env name docker_image h) (\<lambda>_ h. Inr (Inr (), h))
            | None \<Rightarrow> (case dockerfile of
                Some p \<Rightarrow> then_io (import_dockerfile env name p h) (\<lambda>_ h. Inr (Inr (), h))
              | None \<Rightarrow> (case devcontainer of
                  Some p \<Rightarrow> then_io (import_devcontainer env name (resolve_devcontainer_path h p) h) (\<lambda>_ h. Inr (Inr (), h))
                | None \<Rightarrow> Inl (Exit 1 ''specify --from <image>, --dockerfile <path>, or --devcontainer <path>'')))))"

text \<open>\<^verbatim>\<open>set_extension\<close>: a valid image name has no dot, so the extension is appended.\<close>

definition backup_path :: "path \<Rightarrow> path" where
  "backup_path p = p @ ''.bak''"

definition rebuild :: "build_env \<Rightarrow> string \<Rightarrow> image_source \<Rightarrow> host \<Rightarrow> path io" where
  "rebuild env name src h =
     (case src of
        Dockerfile_src p \<Rightarrow> import_dockerfile env name p h
      | Docker_src img \<Rightarrow> import_docker env name img h
      | Devcontainer_src p \<Rightarrow> import_devcontainer env name (resolve_devcontainer_path h p) h
      | Create_src packages run_commands \<Rightarrow> create env name packages run_commands h
      | Unknown_src \<Rightarrow> Inr (Inl (Io_other, ''unreachable''), h))"

text \<open>The second component is the file system an exit leaves too.\<close>

definition update_image :: "build_env \<Rightarrow> string \<Rightarrow> host \<Rightarrow> (exit + unit) \<times> host" where
  "update_image env name h =
     (case image_path h name of
        Inl e \<Rightarrow> (Inl e, h)
      | Inr (Inl e) \<Rightarrow> (Inl (Exit 1 (snd e)), h)
      | Inr (Inr p) \<Rightarrow>
          if \<not> path_exists h p then (Inl (Exit 1 (''image '' @ name @ '' not found'')), h)
          else (case load_image_meta env h p of
              None \<Rightarrow> (Inl (Exit 1 (''image '' @ name @ '' has no build metadata'')), h)
            | Some m \<Rightarrow>
                if im_source m = Unknown_src
                then (Inl (Exit 1 (''image '' @ name @ '' was built from an unknown source, cannot update'')), h)
                else (case rename_dir (bd_names env) h p (backup_path p) of
                    None \<Rightarrow> (Inl (Exit 1 ''cannot back up old image''), h)
                  | Some h \<Rightarrow>
                      (case rebuild env name (im_source m) h of
                         Inl e \<Rightarrow> (Inl e, h)
                       | Inr (Inr _, h) \<Rightarrow> (Inr (), try_remove_dir (backup_path p) h)
                       | Inr (Inl e, h) \<Rightarrow>
                           (Inl (Exit 1 (''update failed: '' @ snd e)),
                            case rename_dir (bd_names env) h (backup_path p) p of Some h \<Rightarrow> h | None \<Rightarrow> h)))))"

subsection \<open>Frames\<close>

text \<open>What the called programs may touch: curl its output file, the others the image directory.\<close>

definition programs_confined :: "build_env \<Rightarrow> bool" where
  "programs_confined env \<longleftrightarrow>
     (\<forall>tree h p. \<not> below tree p \<longrightarrow> keeps tree h (snd (bd_curl env p h))) \<and>
     (\<forall>tree h p dest. (\<forall>q. below tree q \<longrightarrow> \<not> below dest q) \<longrightarrow> keeps tree h (snd (bd_tar env p dest h))) \<and>
     (\<forall>tree h dest c. (\<forall>q. below tree q \<longrightarrow> \<not> below dest q) \<longrightarrow> keeps tree h (snd (bd_vm env dest c h))) \<and>
     (\<forall>tree h dest. (\<forall>q. below tree q \<longrightarrow> \<not> below dest q) \<longrightarrow> keeps tree h (snd (bd_untar env dest h)))"

text \<open>A tree beside an image, and beside the cached download: no operation on the image touches it.\<close>

definition beside :: "host \<Rightarrow> path \<Rightarrow> path \<Rightarrow> bool" where
  "beside h dest tree \<longleftrightarrow>
     dest \<noteq> [] \<and> last dest \<noteq> CHR ''/'' \<and> \<not> prefix tree dest \<and> (\<forall>q. below tree q \<longrightarrow> \<not> below dest q) \<and>
     (\<forall>c. cache_dir h = Inr c \<longrightarrow> \<not> prefix tree (path_join c ALPINE_TARBALL))"

lemma keeps_save_image_meta:
  "\<not> below tree (path_join dir META_FILE) \<Longrightarrow> keeps tree h (save_image_meta env m dir h)"
  by (auto simp: save_image_meta_def intro: keeps_write_file split: sum.split option.split)

lemma keeps_try_remove_dir: "(\<And>q. below tree q \<Longrightarrow> \<not> below p q) \<Longrightarrow> keeps tree h (try_remove_dir p h)"
  by (auto simp: try_remove_dir_def intro: keeps_remove_dir_all split: option.split)

lemma keeps_try_remove_file: "\<not> below tree p \<Longrightarrow> keeps tree h (try_remove_file p h)"
  by (auto simp: try_remove_file_def intro: keeps_remove_file split: option.split)

lemma cache_dir_cong: "env_var h' = env_var h \<Longrightarrow> cache_dir h' = cache_dir h"
  by (simp only: cache_dir_def image_home_def)

lemma image_path_cong: "env_var h' = env_var h \<Longrightarrow> image_path h' name = image_path h name"
  by (simp only: image_path_def image_dir_def image_home_def)

lemma beside_keeps: "beside h dest tree \<Longrightarrow> keeps tree h h' \<Longrightarrow> beside h' dest tree"
  using cache_dir_cong[of h' h] by (simp add: beside_def keeps_def)

lemma beside_inside: "beside h dest tree \<Longrightarrow> \<not> is_absolute x \<Longrightarrow> \<not> below tree (path_join dest x)"
  by (auto simp: beside_def path_join_name)

lemma beside_cache:
  assumes "beside h dest tree" "cache_dir h = Inr c"
  shows "\<not> prefix tree c" "\<not> below tree (path_join c ALPINE_TARBALL)"
proof -
  have p: "\<not> prefix tree (path_join c ALPINE_TARBALL)" using assms by (simp add: beside_def)
  moreover have "prefix c (path_join c ALPINE_TARBALL)"
    by (auto simp: path_join_def is_absolute_def ALPINE_TARBALL_def)
  ultimately show "\<not> prefix tree c" using prefix_order.trans by blast
  show "\<not> below tree (path_join c ALPINE_TARBALL)" using p by (auto simp: below_def dest: append_prefixD)
qed

definition io_keeps :: "path \<Rightarrow> host \<Rightarrow> 'a io \<Rightarrow> bool" where
  "io_keeps tree h r \<longleftrightarrow> (case r of Inl e \<Rightarrow> True | Inr (x, h') \<Rightarrow> keeps tree h h')"

lemma io_keeps_simps [simp]:
  "io_keeps tree h (Inl e)" "io_keeps tree h (Inr (x, h')) = keeps tree h h'"
  by (simp_all add: io_keeps_def)

lemma io_keeps_bind:
  assumes "io_keeps tree h r" "\<And>x h'. r = Inr (x, h') \<Longrightarrow> keeps tree h h' \<Longrightarrow> io_keeps tree h' (f (x, h'))"
  shows "io_keeps tree h (bindR r f)"
proof (cases r)
  case (Inr y)
  then obtain x h' where y: "r = Inr (x, h')" by (cases y) auto
  have k: "keeps tree h h'" using assms(1) y by simp
  have "io_keeps tree h' (f (x, h'))" using assms(2)[OF y k] .
  then show ?thesis using k keeps_trans[OF k] y by (auto simp: io_keeps_def bindR_def split: sum.splits)
qed (simp add: bindR_def)

lemma io_keeps_then:
  assumes "io_keeps tree h r" "\<And>a h'. r = Inr (Inr a, h') \<Longrightarrow> keeps tree h h' \<Longrightarrow> io_keeps tree h' (f a h')"
  shows "io_keeps tree h (then_io r f)"
  unfolding then_io_def by (rule io_keeps_bind[OF assms(1)]) (auto simp: assms(2) split: sum.split)

lemma ensure_base_cached_keeps:
  assumes "programs_confined env" "beside h dest tree"
  shows "io_keeps tree h (ensure_base_cached env h)"
proof (cases "cache_dir h")
  case (Inl e)
  then show ?thesis by (simp add: ensure_base_cached_def bindR_def)
next
  case (Inr c)
  note nc = beside_cache[OF assms(2) Inr]
  show ?thesis
  proof (cases "create_dir_all h c")
    case None
    then show ?thesis using Inr by (simp add: ensure_base_cached_def bindR_def)
  next
    case (Some h1)
    have k1: "keeps tree h h1" by (rule keeps_create_dir_all[OF Some nc(1)])
    obtain b h2 where b: "bd_curl env (path_join c ALPINE_TARBALL) h1 = (b, h2)"
      by (cases "bd_curl env (path_join c ALPINE_TARBALL) h1")
    have "keeps tree h1 (snd (bd_curl env (path_join c ALPINE_TARBALL) h1))"
      using assms(1) nc(2) unfolding programs_confined_def by blast
    then have k2: "keeps tree h h2" using b keeps_trans[OF k1] by simp
    have k3: "keeps tree h (try_remove_file (path_join c ALPINE_TARBALL) h2)"
      by (rule keeps_trans[OF k2 keeps_try_remove_file[OF nc(2)]])
    show ?thesis using Inr Some k1 k2 k3 b
      by (simp add: ensure_base_cached_def bindR_def Let_def split: option.split)
  qed
qed

lemma extract_tarball_keeps:
  assumes "programs_confined env" "beside h dest tree"
  shows "io_keeps tree h (extract_tarball env tarball dest h)"
proof (cases "create_dir_all h dest")
  case (Some h1)
  have k1: "keeps tree h h1" by (rule keeps_create_dir_all[OF Some]) (use assms(2) in \<open>simp add: beside_def\<close>)
  obtain b h2 where b: "bd_tar env tarball dest h1 = (b, h2)" by (cases "bd_tar env tarball dest h1")
  have "keeps tree h1 (snd (bd_tar env tarball dest h1))"
    using assms unfolding programs_confined_def beside_def by blast
  then have "keeps tree h h2" using b keeps_trans[OF k1] by simp
  then show ?thesis using Some b by (simp add: extract_tarball_def split: option.split)
qed (simp add: extract_tarball_def)

lemma build_image_keeps:
  assumes "programs_confined env" "beside h dest tree"
  shows "io_keeps tree h (build_image env dest packages run_commands h)"
proof -
  obtain b h2 where b: "bd_vm env dest (build_command packages run_commands) h = (b, h2)"
    by (cases "bd_vm env dest (build_command packages run_commands) h")
  have "keeps tree h (snd (bd_vm env dest (build_command packages run_commands) h))"
    using assms unfolding programs_confined_def beside_def by blast
  then have k: "keeps tree h h2" using b by simp
  have "keeps tree h (try_remove_file (path_join dest ''tmp/.redan-build-ok'') h2)"
    by (rule keeps_trans[OF k keeps_try_remove_file]) (rule beside_inside[OF assms(2)], simp add: is_absolute_def)
  then show ?thesis using k b by (simp add: build_image_def Let_def split: sum.split)
qed

lemma io_keeps_at_image:
  assumes "\<And>p. image_path h name = Inr (Inr p) \<Longrightarrow> io_keeps tree h (f p)"
  shows "io_keeps tree h (at_image h name f)"
  using assms by (auto simp: at_image_def bindR_def split: sum.split)

lemma keeps_meta_saved: "beside h dest tree \<Longrightarrow> keeps tree h (save_image_meta env m dest h)"
  by (rule keeps_save_image_meta, rule beside_inside, assumption) (simp add: META_FILE_def is_absolute_def)

lemma keeps_dest_removed: "beside h dest tree \<Longrightarrow> keeps tree h (try_remove_dir dest h)"
  by (rule keeps_try_remove_dir) (simp add: beside_def)

lemma create_keeps:
  assumes "programs_confined env" "\<And>p. image_path h name = Inr (Inr p) \<Longrightarrow> beside h p tree"
  shows "io_keeps tree h (create env name packages run_commands h)"
  unfolding create_def
proof (rule io_keeps_at_image)
  fix dest assume "image_path h name = Inr (Inr dest)"
  then have b: "beside h dest tree" by (rule assms(2))
  then show "io_keeps tree h (if path_exists h dest
      then Inr (Inl (Io_already_exists, ''image '' @ name @ '' already exists''), h)
      else then_io (ensure_base_cached env h) (\<lambda>tarball h.
              then_io (extract_tarball env tarball dest h) (\<lambda>_ h.
                bindR (build_image env dest packages run_commands h) (\<lambda>(r, h). Inr (case r of
                    Inr _ \<Rightarrow> (Inr dest, save_image_meta env (new_image_meta env (Create_src packages run_commands)) dest h)
                  | Inl e \<Rightarrow> (Inl e, try_remove_dir dest h))))))"
    by (auto intro!: io_keeps_then io_keeps_bind ensure_base_cached_keeps[OF assms(1)]
        extract_tarball_keeps[OF assms(1)] build_image_keeps[OF assms(1)] keeps_meta_saved keeps_dest_removed
        split: sum.split) (blast intro: beside_keeps)+
qed

lemma export_result_keeps:
  assumes "programs_confined env" "beside h dest tree"
  shows "keeps tree h (snd (export_result env cid dest h))"
proof -
  have "keeps tree h (snd (bd_untar env dest h))" using assms unfolding programs_confined_def beside_def by blast
  then show ?thesis by (auto simp: export_result_def Let_def split: sum.split prod.splits)
qed

lemma import_at_keeps:
  assumes "programs_confined env" "beside h dest tree"
  shows "keeps tree h (snd (import_at env dest img h))"
proof (cases "create_dir_all h dest")
  case (Some h1)
  have k1: "keeps tree h h1" by (rule keeps_create_dir_all[OF Some]) (use assms(2) in \<open>simp add: beside_def\<close>)
  note b1 = beside_keeps[OF assms(2) k1]
  have ex: "keeps tree h h2 \<and> beside h2 dest tree" if "export_result env cid dest h1 = (r, h2)" for cid r h2
  proof -
    have "keeps tree h1 h2" using export_result_keeps[OF assms(1) b1, of cid] that by simp
    then show ?thesis using keeps_trans[OF k1] beside_keeps[OF b1] by blast
  qed
  have rm: "keeps tree h (try_remove_dir dest h2)" if "keeps tree h h2" "beside h2 dest tree" for h2
    using keeps_trans[OF that(1) keeps_dest_removed[OF that(2)]] .
  have mt: "keeps tree h (save_image_meta env m dest h2)" if "keeps tree h h2" "beside h2 dest tree" for h2 m
    using keeps_trans[OF that(1) keeps_meta_saved[OF that(2)]] .
  show ?thesis
    using Some k1 rm[OF k1 b1] rm mt ex
    by (auto simp: import_at_def split: option.split bool.split prod.split sum.split)
qed (simp add: import_at_def)

lemma import_docker_inner_keeps:
  assumes "programs_confined env" "\<And>p. image_path h name = Inr (Inr p) \<Longrightarrow> beside h p tree"
  shows "io_keeps tree h (import_docker_inner env name img pull h)"
  unfolding import_docker_inner_def
  by (rule io_keeps_at_image)
    (use import_at_keeps[OF assms(1) assms(2)] in \<open>auto simp: io_keeps_def case_prod_beta split: option.split bool.split\<close>)

text \<open>The metadata a later step saves lies in the image that was imported.\<close>

lemma import_at_dest: "import_at env dest img h = (Inr d, h') \<Longrightarrow> d = dest"
  by (auto simp: import_at_def split: option.splits bool.splits prod.splits sum.splits if_splits)

lemma import_docker_inner_dest:
  assumes "import_docker_inner env name img pull h = Inr (Inr d, h')"
  shows "image_path h name = Inr (Inr d)"
proof -
  have "\<exists>p. image_path h name = Inr (Inr p)"
  proof (cases "image_path h name")
    case (Inr r)
    then show ?thesis using assms by (cases r) (simp_all add: import_docker_inner_def at_image_def bindR_def)
  qed (use assms in \<open>simp add: import_docker_inner_def at_image_def bindR_def\<close>)
  then obtain p where p: "image_path h name = Inr (Inr p)" by blast
  then have "import_at env p img h = (Inr d, h')"
    using assms by (auto simp: import_docker_inner_def at_image_def bindR_def split: if_splits option.splits bool.splits)
  then show ?thesis using p import_at_dest by blast
qed

lemma import_dockerfile_keeps:
  assumes "programs_confined env" "\<And>p. image_path h name = Inr (Inr p) \<Longrightarrow> beside h p tree"
  shows "io_keeps tree h (import_dockerfile env name df h)"
proof -
  have "io_keeps tree h (bindR (import_docker_inner env name tag False h) (\<lambda>(r, h). Inr (r, case r of
      Inr dest \<Rightarrow> save_image_meta env (new_image_meta env (Dockerfile_src df)) dest h | Inl e \<Rightarrow> h)))" for tag
  proof (rule io_keeps_bind[OF import_docker_inner_keeps[OF assms]])
    fix x h1 assume x: "import_docker_inner env name tag False h = Inr (x, h1)" "keeps tree h h1"
    show "io_keeps tree h1 (case (x, h1) of (r, h) \<Rightarrow> Inr (r, case r of
        Inr dest \<Rightarrow> save_image_meta env (new_image_meta env (Dockerfile_src df)) dest h | Inl e \<Rightarrow> h))"
    proof (cases x)
      case (Inr dest)
      have "beside h1 dest tree"
        using beside_keeps[OF assms(2)[OF import_docker_inner_dest] x(2)] x(1) Inr by simp
      then show ?thesis using keeps_meta_saved Inr by simp
    qed simp
  qed
  then show ?thesis by (auto simp: import_dockerfile_def Let_def split: option.split bool.split)
qed

lemma import_devcontainer_inner_keeps:
  assumes "programs_confined env" "\<And>p. image_path h name = Inr (Inr p) \<Longrightarrow> beside h p tree"
  shows "io_keeps tree h (import_devcontainer_inner env name cfg h)"
  using import_docker_inner_keeps[OF assms]
  by (auto simp: import_devcontainer_inner_def import_devcontainer_config_def import_docker_def Let_def
      split: option.split bool.split sum.split)

lemma import_devcontainer_inner_dest:
  "import_devcontainer_inner env name cfg h = Inr (Inr d, h') \<Longrightarrow> image_path h name = Inr (Inr d)"
  using import_docker_inner_dest
  by (auto simp: import_devcontainer_inner_def import_devcontainer_config_def import_docker_def Let_def
      split: option.splits bool.splits sum.splits if_splits)

lemma import_devcontainer_keeps:
  assumes "programs_confined env" "\<And>p. image_path h name = Inr (Inr p) \<Longrightarrow> beside h p tree"
  shows "io_keeps tree h (import_devcontainer env name cfg h)"
  unfolding import_devcontainer_def
proof (rule io_keeps_then[OF import_devcontainer_inner_keeps[OF assms]])
  fix d h1 assume d: "import_devcontainer_inner env name cfg h = Inr (Inr d, h1)" "keeps tree h h1"
  have "beside h1 d tree" by (rule beside_keeps[OF assms(2)[OF import_devcontainer_inner_dest[OF d(1)]] d(2)])
  then show "io_keeps tree h1 (Inr (Inr d, save_image_meta env (new_image_meta env (Devcontainer_src cfg)) d h1))"
    using keeps_meta_saved by simp
qed

lemma rebuild_keeps:
  assumes "programs_confined env" "\<And>p. image_path h name = Inr (Inr p) \<Longrightarrow> beside h p tree"
  shows "io_keeps tree h (rebuild env name src h)"
  using import_dockerfile_keeps[OF assms] import_docker_inner_keeps[OF assms] import_devcontainer_keeps[OF assms]
    create_keeps[OF assms]
  by (cases src) (simp_all add: rebuild_def import_docker_def)

subsection \<open>Names stay inside the image directory\<close>

lemma image_name_chars:
  assumes "is_valid_image_name name"
  shows "CHR ''/'' \<notin> set name" "CHR ''.'' \<notin> set name" "\<not> is_absolute name" "name \<noteq> []"
proof -
  have c: "c \<noteq> CHR ''/'' \<and> c \<noteq> CHR ''.''" if "c \<in> set name" for c
    using assms that by (auto simp: is_valid_image_name_def list_all_iff ascii_defs char_code_def)
  then show "CHR ''/'' \<notin> set name" "CHR ''.'' \<notin> set name" by blast+
  show "name \<noteq> []" using assms by (simp add: is_valid_image_name_def)
  then show "\<not> is_absolute name" using c by (cases name) (auto simp: is_absolute_def)
qed

lemma image_dir_shape: "image_dir h = Inr d \<Longrightarrow> d \<noteq> [] \<and> last d \<noteq> CHR ''/''"
  by (auto simp: image_dir_def bindR_Inr path_join_def is_absolute_def split: option.splits if_splits)

lemma image_path_shape:
  assumes "image_path h name = Inr (Inr p)"
  obtains d where "image_dir h = Inr d" "p = d @ CHR ''/'' # name" "p \<noteq> []" "last p \<noteq> CHR ''/''"
    "components p = components d @ [name]"
proof -
  have v: "is_valid_image_name name" and d: "\<exists>d. image_dir h = Inr d \<and> p = path_join d name"
    using assms by (auto simp: image_path_def bindR_Inr split: if_splits)
  note n = image_name_chars[OF v]
  obtain d where d: "image_dir h = Inr d" "p = path_join d name" using d by blast
  have p: "p = d @ CHR ''/'' # name" using d image_dir_shape[OF d(1)] n by (simp add: path_join_name)
  moreover have "last p \<noteq> CHR ''/''" using p n last_in_set[of name] by (metis last_appendR last_ConsR list.discI)
  moreover have "components p = components d @ [name]"
  proof -
    have "name \<noteq> ''.''" using n(2) by auto
    moreover have "split_on (CHR ''/'') name = [name]" using n(1) split_on_notin by blast
    ultimately have "components name = [name]" using n(4) by (simp add: components_def)
    then show ?thesis using components_join[OF n(3)] d(2) by simp
  qed
  ultimately show thesis using that d(1) by blast
qed

lemma beside_backup:
  assumes "image_path h name = Inr (Inr p)"
    "\<And>c. cache_dir h = Inr c \<Longrightarrow> \<not> prefix (backup_path p) (path_join c ALPINE_TARBALL)"
  shows "beside h p (backup_path p)"
proof -
  have "p \<noteq> []" "last p \<noteq> CHR ''/''" using image_path_shape[OF assms(1)] by blast+
  moreover have "\<not> below p q" if "below (backup_path p) q" for q
    using that by (auto simp: below_def backup_path_def prefix_def)
  moreover have "\<not> prefix (backup_path p) p" by (auto simp: backup_path_def prefix_def)
  ultimately show ?thesis using assms(2) by (simp add: beside_def)
qed

subsection \<open>Properties\<close>

text \<open>
  C27: updating an image never loses it. If the called programs write only where they are told (the
  download to its file, the others below the image directory), then whatever they answer and
  wherever the rebuild stops, an update that does not succeed leaves the old image, entry by entry,
  at its own path or at the backup path next to it; the image's path is a direct child of the image
  directory.
\<close>
theorem update_keeps_image:
  assumes "programs_confined env" "image_path h name = Inr (Inr p)"
    and "\<And>c. cache_dir h = Inr c \<Longrightarrow> \<not> prefix (backup_path p) (path_join c ALPINE_TARBALL)"
    and "update_image env name h = (Inl e, h')"
  shows "((\<forall>q. below p q \<longrightarrow> entry h' q = entry h q) \<or>
          (\<forall>q. below (backup_path p) q \<longrightarrow> entry h' q = entry h (p @ drop (length (backup_path p)) q)))
    \<and> (\<exists>d. image_dir h = Inr d \<and> components p = components d @ [name])"
proof
  show "\<exists>d. image_dir h = Inr d \<and> components p = components d @ [name]"
    using image_path_shape[OF assms(2)] by metis
  let ?b = "backup_path p"
  show "(\<forall>q. below p q \<longrightarrow> entry h' q = entry h q) \<or>
          (\<forall>q. below ?b q \<longrightarrow> entry h' q = entry h (p @ drop (length ?b) q))"
  proof (cases "h' = h")
    case False
    then obtain m :: image_meta and h1 where m: "rename_dir (bd_names env) h p ?b = Some h1"
      "(case rebuild env name (im_source m) h1 of
           Inl e \<Rightarrow> (Inl e, h1)
         | Inr (Inr _, h) \<Rightarrow> (Inr (), try_remove_dir ?b h)
         | Inr (Inl e, h) \<Rightarrow> (Inl (Exit 1 (''update failed: '' @ snd e)),
             case rename_dir (bd_names env) h ?b p of Some h \<Rightarrow> h | None \<Rightarrow> h)) = (Inl e, h')"
      using assms(2,4) by (auto simp: update_image_def split: if_splits option.splits)
    note h1 = rename_dir_Some[OF m(1)]
    have moved: "entry h1 q = entry h (p @ drop (length ?b) q)" if "below ?b q" for q
      using h1 that by simp
    have ip: "image_path h1 name = Inr (Inr p)" using assms(2) image_path_cong h1 by metis
    have "io_keeps ?b h1 (rebuild env name (im_source m) h1)"
    proof (rule rebuild_keeps[OF assms(1)])
      fix p' assume "image_path h1 name = Inr (Inr p')"
      then have "p' = p" using ip by simp
      moreover have "cache_dir h1 = cache_dir h" by (rule cache_dir_cong) (use h1 in blast)
      ultimately show "beside h1 p' ?b" using beside_backup[OF ip] assms(3) by simp
    qed
    then have k: "keeps ?b h1 h2" if "rebuild env name (im_source m) h1 = Inr (x, h2)" for x h2
      using that by simp
    show ?thesis
    proof (cases "rebuild env name (im_source m) h1")
      case (Inl e1)
      then show ?thesis using m(2) moved by auto
    next
      case (Inr r)
      obtain x h2 where r: "r = (x, h2)" by (cases r)
      have k2: "entry h2 q = entry h (p @ drop (length ?b) q)" if "below ?b q" for q
        using k[of x h2] Inr r moved that by (simp add: keeps_def)
      have h': "h' = (case rename_dir (bd_names env) h2 ?b p of Some h \<Rightarrow> h | None \<Rightarrow> h2)"
        using m(2) Inr r by (auto split: sum.splits)
      show ?thesis
      proof (cases "rename_dir (bd_names env) h2 ?b p")
        case None
        then show ?thesis using h' k2 by simp
      next
        case (Some h3)
        have "entry h3 q = entry h q" if "below p q" for q
        proof -
          have "below ?b (?b @ drop (length p) q)" using that by (auto simp: below_def prefix_def)
          then have "entry h2 (?b @ drop (length p) q) = entry h (p @ drop (length p) q)" using k2 by simp
          moreover have "p @ drop (length p) q = q" using that by (auto simp: below_def prefix_def)
          ultimately show ?thesis using rename_dir_Some[OF Some] that by simp
        qed
        then show ?thesis using h' Some by simp
      qed
    qed
  qed simp
qed

definition demo_build :: build_env where
  "demo_build = \<lparr>bd_now = [], bd_print = (\<lambda>_. Inl []), bd_parse = (\<lambda>_. Some \<lparr>im_built_at = [], im_source = Docker_src ''alpine''\<rparr>),
     bd_days = (\<lambda>_. None), bd_curl = (\<lambda>p h. (None, h)), bd_tar = (\<lambda>p d h. (None, h)), bd_vm = (\<lambda>p c h. (Inl [], h)),
     bd_docker = (\<lambda>_. None), bd_docker_create = (\<lambda>_. None), bd_export_spawn = (\<lambda>_. Inl []), bd_export_wait = Inl [],
     bd_untar = (\<lambda>d h. (Inl [], h)), bd_compose_config = (\<lambda>_. None), bd_json = (\<lambda>_. None), bd_names = (\<lambda>_. [])\<rparr>"

definition demo_images :: host where
  "demo_images = \<lparr>env_var = (\<lambda>v. if v = ''XDG_DATA_HOME'' then Some ''/d'' else None),
     entry = (\<lambda>p. if p = ''/d/redan/images/dev'' then Some Directory
                  else if p = ''/d/redan/images/dev/.redan-image.json'' then Some (Regular 420 True []) else None),
     canonical = Some, writable = (\<lambda>_. True), cwd = Some ''/w'', tty = False\<rparr>"

theorem update_keeps_image_witness:
  "\<exists>e h'. update_image demo_build ''dev'' demo_images = (Inl e, h')
     \<and> (\<exists>d. image_dir demo_images = Inr d \<and> components ''/d/redan/images/dev'' = components d @ [''dev''])"
proof -
  have c: "programs_confined demo_build" by (simp add: programs_confined_def demo_build_def)
  have v: "is_valid_image_name ''dev''" by code_simp
  have p: "image_path demo_images ''dev'' = Inr (Inr ''/d/redan/images/dev'')"
    by (simp add: image_path_def v image_dir_def demo_images_def bindR_def path_join_def is_absolute_def)
  have cd: "cache_dir demo_images = Inl (Exit 1 ''$HOME not set -- cannot determine config directories'')"
    by (simp add: cache_dir_def image_home_def demo_images_def bindR_def ok_or_def)
  have "utf8_valid []" by code_simp
  then have m: "load_image_meta demo_build demo_images ''/d/redan/images/dev'' = Some \<lparr>im_built_at = [], im_source = Docker_src ''alpine''\<rparr>"
    by (simp add: load_image_meta_def read_to_string_def demo_images_def demo_build_def META_FILE_def path_join_def is_absolute_def)
  obtain h1 where h1: "rename_dir (bd_names demo_build) demo_images ''/d/redan/images/dev'' (backup_path ''/d/redan/images/dev'') = Some h1"
    by (simp add: rename_dir_def demo_images_def backup_path_def)
  note r = rename_dir_Some[OF h1]
  have "image_path h1 ''dev'' = Inr (Inr ''/d/redan/images/dev'')" using p image_path_cong[of h1 demo_images] r by simp
  moreover have "\<not> path_exists h1 ''/d/redan/images/dev''" using r by (simp add: path_exists_def backup_path_def below_def)
  ultimately have "rebuild demo_build ''dev'' (Docker_src ''alpine'') h1 = Inr (Inl (Io_other, ''docker pull''), h1)"
    by (simp add: rebuild_def import_docker_def import_docker_inner_def at_image_def bindR_def demo_build_def)
  moreover have "path_exists demo_images ''/d/redan/images/dev''" by (simp add: path_exists_def demo_images_def)
  ultimately obtain e h' where u: "update_image demo_build ''dev'' demo_images = (Inl e, h')"
    by (simp add: update_image_def p m h1)
  show ?thesis using update_keeps_image[OF c p _ u] cd u by simp
qed

subsection \<open>A gap\<close>

text \<open>When docker cannot be started for \<^verbatim>\<open>docker create\<close>, the new image directory stays behind, and the
  next import under this name is refused as already existing.\<close>

lemma docker_create_leaves_directory:
  assumes "bd_docker_create env img = None" "create_dir_all h dest = Some h1" "dest \<noteq> []"
  shows "fst (import_at env dest img h) = Inl (Io_other, ''docker create'')
    \<and> path_exists (snd (import_at env dest img h)) dest"
  using assms create_dir_all_Some[OF assms(2)] ancestors_self[OF assms(3)]
  by (simp add: import_at_def path_exists_def)

end
