(* ===== verification/Agent.thy ===== *)
theory Agent
  imports Image Browser
begin

text \<open>
  Zero-configuration agents, \<^verbatim>\<open>src/src/auto_detect.rs\<close>: the registry, which credential source
  applies, and the configuration built for a detected agent. What \<^verbatim>\<open>git remote -v\<close> prints is a
  parameter.
\<close>

subsection \<open>The registry\<close>

datatype auth_method =
  Env_secret (am_var: string) (am_hosts: "string list") (am_env: "(string \<times> string) list")
| Staged_files (am_dir: path) (am_probe: string) (am_files: "string list") (am_guest_dir: path)
    (am_hosts: "string list") (am_env: "(string \<times> string) list")

record agent_def =
  ag_slug :: string
  ag_name :: string
  ag_image :: string
  ag_command :: string
  ag_hosts :: "string list"
  ag_interactive :: bool
  ag_timeout_secs :: "64 word"
  ag_run_as :: "string option"
  ag_guest_env :: "(string \<times> string) list"
  ag_auth :: "auth_method list"

definition CLAUDE_CODE :: agent_def where
  "CLAUDE_CODE =
     \<lparr>ag_slug = ''claude'', ag_name = ''Claude Code'', ag_image = ''claude-code'',
      ag_command = ''claude --dangerously-skip-permissions'',
      ag_hosts = [''api.anthropic.com'', ''statsig.anthropic.com'', ''sentry.io'', ''platform.claude.com'',
                  ''raw.githubusercontent.com''],
      ag_interactive = True, ag_timeout_secs = 3600, ag_run_as = Some ''dev'',
      ag_guest_env = [(''HOME'', ''/home/dev''), (''NODE_PATH'', ''/usr/lib/node_modules'')],
      ag_auth = [
        Env_secret ''ANTHROPIC_API_KEY'' [''api.anthropic.com''] [(''CLAUDE_CONFIG_DIR'', ''/home/dev/.claude'')],
        Env_secret ''CLAUDE_CODE_OAUTH_TOKEN'' [''api.anthropic.com''] [(''CLAUDE_CONFIG_DIR'', ''/home/dev/.claude'')],
        Staged_files ''.claude'' ''.credentials.json'' [''.credentials.json''] ''/home/dev/.claude''
          [''auth.anthropic.com'', ''console.anthropic.com''] [(''CLAUDE_CONFIG_DIR'', ''/home/dev/.claude'')]]\<rparr>"

definition PI :: agent_def where
  "PI =
     \<lparr>ag_slug = ''pi'', ag_name = ''Pi'', ag_image = ''pi'', ag_command = ''pi'', ag_hosts = [''api.anthropic.com''],
      ag_interactive = True, ag_timeout_secs = 3600, ag_run_as = Some ''dev'',
      ag_guest_env = [(''HOME'', ''/home/dev''), (''NODE_PATH'', ''/usr/lib/node_modules'')],
      ag_auth = [
        Env_secret ''ANTHROPIC_API_KEY'' [''api.anthropic.com''] [],
        Staged_files ''.pi/agent'' ''auth.json'' [''auth.json'', ''settings.json'', ''models.json'']
          ''/home/dev/.pi/agent'' [] []]\<rparr>"

definition AGENTS :: "agent_def list" where
  "AGENTS = [CLAUDE_CODE, PI]"

subsection \<open>Detection\<close>

record resolved_auth =
  ra_method :: auth_method
  ra_host_dir :: "path option"

record detected_agent =
  da_agent :: agent_def
  da_auth :: resolved_auth
  da_image_exists :: bool

definition resolve_method :: "host \<Rightarrow> auth_method \<Rightarrow> resolved_auth option" where
  "resolve_method h m =
     (case m of
        Env_secret var hs env \<Rightarrow>
          (case env_var h var of
             Some v \<Rightarrow> if str_trim v \<noteq> [] then Some \<lparr>ra_method = m, ra_host_dir = None\<rparr> else None
           | None \<Rightarrow> None)
      | Staged_files d probe files gd hs env \<Rightarrow>
          (case env_var h ''HOME'' of
             None \<Rightarrow> None
           | Some home \<Rightarrow>
               (let d = path_join home d
                in if path_exists h (path_join d probe) then Some \<lparr>ra_method = m, ra_host_dir = Some d\<rparr> else None)))"

text \<open>\<^verbatim>\<open>find_map\<close>.\<close>

fun find_map :: "('a \<Rightarrow> 'b option) \<Rightarrow> 'a list \<Rightarrow> 'b option" where
  "find_map f [] = None"
| "find_map f (x # xs) = (case f x of Some y \<Rightarrow> Some y | None \<Rightarrow> find_map f xs)"

definition resolve_auth :: "host \<Rightarrow> agent_def \<Rightarrow> resolved_auth option" where
  "resolve_auth h agent = find_map (resolve_method h) (ag_auth agent)"

definition image_exists :: "host \<Rightarrow> string \<Rightarrow> exit + bool" where
  "image_exists h name =
     bindR (image_path h name) (\<lambda>r. Inr (case r of Inl e \<Rightarrow> False | Inr p \<Rightarrow> path_exists h p))"

definition detect_one :: "host \<Rightarrow> agent_def \<Rightarrow> exit + detected_agent option" where
  "detect_one h agent =
     (case resolve_auth h agent of
        None \<Rightarrow> Inr None
      | Some auth \<Rightarrow>
          bindR (image_exists h (ag_image agent)) (\<lambda>ex.
            Inr (Some \<lparr>da_agent = agent, da_auth = auth, da_image_exists = ex\<rparr>)))"

fun detect_among :: "host \<Rightarrow> agent_def list \<Rightarrow> exit + detected_agent list" where
  "detect_among h [] = Inr []"
| "detect_among h (a # as) =
     bindR (detect_one h a) (\<lambda>d. bindR (detect_among h as) (\<lambda>ds.
       Inr (case d of Some d \<Rightarrow> d # ds | None \<Rightarrow> ds)))"

definition detect_all :: "host \<Rightarrow> exit + detected_agent list" where
  "detect_all h = detect_among h AGENTS"

definition agent_by_slug :: "string \<Rightarrow> agent_def option" where
  "agent_by_slug slug = find (\<lambda>a. ag_slug a = slug) AGENTS"

definition agent_slugs :: "string list" where
  "agent_slugs = map ag_slug AGENTS"

subsection \<open>Remote hosts\<close>

definition before :: "char \<Rightarrow> string \<Rightarrow> string" where
  "before c s = hd (split_on c s)"

definition host_from_remote_url :: "string \<Rightarrow> string option" where
  "host_from_remote_url url =
     (case strip_prefix ''ssh://'' url of
        Some rest \<Rightarrow>
          (let authority = (case rsplit_once (CHR ''@'') rest of Some (_, a) \<Rightarrow> a | None \<Rightarrow> rest)
           in Some (before (CHR '':'') (before (CHR ''/'') authority)))
      | None \<Rightarrow>
          (case or_else (strip_prefix ''https://'' url) (strip_prefix ''http://'' url) of
             Some rest \<Rightarrow> Some (before (CHR '':'') (before (CHR ''/'') rest))
           | None \<Rightarrow>
               (case split_once (CHR ''@'') url of
                  Some (user, host_and_path) \<Rightarrow> Some (before (CHR '':'') host_and_path)
                | None \<Rightarrow> None)))"

text \<open>\<open>None\<close>: git could not be run or failed.\<close>

definition git_remote_hosts :: "bytes option \<Rightarrow> string list" where
  "git_remote_hosts git_output =
     (case git_output of
        None \<Rightarrow> []
      | Some stdout \<Rightarrow>
          sort_dedup (List.map_filter
            (\<lambda>line. case split_whitespace line of _ # url # _ \<Rightarrow> host_from_remote_url url | _ \<Rightarrow> None)
            (str_lines (from_utf8_lossy stdout))))"

subsection \<open>The configuration of an agent\<close>

definition ARROW :: string where
  "ARROW = [CHR '' '', CHR 0xE2, CHR 0x86, CHR 0x92, CHR '' '']"

record agent_build =
  ab_config :: config
  ab_messages :: "string list"
  ab_stage :: "(path \<times> path \<times> string) list"
  ab_allow :: "string list"

definition insert_env :: "(string \<times> string) list \<Rightarrow> config \<Rightarrow> config" where
  "insert_env kvs cfg = cfg\<lparr>cfg_env := bt_extend (cfg_env cfg) kvs\<rparr>"

definition stage_one :: "host \<Rightarrow> path \<Rightarrow> path \<Rightarrow> string \<Rightarrow> agent_build \<Rightarrow> agent_build" where
  "stage_one h host_dir guest_dir filename b =
     (let host_path = path_join host_dir filename
      in if path_exists h host_path
         then b\<lparr>ab_messages := ab_messages b @ [''Staging '' @ host_path @ ARROW @ guest_dir @ ''/'' @ filename],
                ab_stage := ab_stage b @ [(host_path, guest_dir, filename)]\<rparr>
         else b)"

definition apply_auth :: "host \<Rightarrow> resolved_auth \<Rightarrow> agent_build \<Rightarrow> agent_build" where
  "apply_auth h auth b =
     (case ra_method auth of
        Env_secret var hs env \<Rightarrow>
          b\<lparr>ab_messages := ab_messages b @ [''Injecting '' @ var @ '' for '' @ join '', '' hs],
            ab_config := insert_env env
              ((ab_config b)\<lparr>cfg_secrets := bt_insert var \<lparr>sc_value = ''env://'' @ var, sc_hosts = hs\<rparr>
                                 (cfg_secrets (ab_config b))\<rparr>)\<rparr>
      | Staged_files d probe files guest_dir hs env \<Rightarrow>
          (case ra_host_dir auth of
             None \<Rightarrow> b
           | Some host_dir \<Rightarrow>
               (let to_stage = (if files = [] then [probe] else files);
                    b = fold (stage_one h host_dir guest_dir) to_stage b
                in b\<lparr>ab_config := insert_env env (ab_config b), ab_allow := ab_allow b @ hs\<rparr>)))"

record auto_detected =
  ad_config :: config
  ad_messages :: "string list"
  ad_needs_image_build :: bool
  ad_run_as :: "string option"
  ad_stage_files :: "(path \<times> path \<times> string) list"

definition build_config :: "bytes option \<Rightarrow> host \<Rightarrow> detected_agent \<Rightarrow> auto_detected" where
  "build_config git_output h d =
     (let agent = da_agent d;
          message = (if da_image_exists d then ''Using image: '' @ ag_image agent
                     else ''Image '' @ ag_image agent @ '' not found, will build from bundled Dockerfile'');
          cfg = default_config\<lparr>cfg_image := Some (ag_image agent), cfg_command := Some (ag_command agent),
                  cfg_interactive := Some (ag_interactive agent), cfg_timeout := Some (ag_timeout_secs agent)\<rparr>;
          b = apply_auth h (da_auth d)
                \<lparr>ab_config = insert_env (ag_guest_env agent) cfg, ab_messages = [message], ab_stage = [],
                 ab_allow = ag_hosts agent\<rparr>;
          git_hosts = git_remote_hosts git_output;
          allow = ab_allow b @ git_hosts;
          cfg = (ab_config b)\<lparr>cfg_network := \<lparr>net_allow = allow, net_forward = []\<rparr>,
                  cfg_mount := bt_insert ''workspace''
                    \<lparr>mc_source = ''.'', mc_target = Some ''/workspace'', mc_read_only = False\<rparr> (cfg_mount (ab_config b))\<rparr>
      in \<lparr>ad_config = cfg,
          ad_messages = ab_messages b
            @ (if git_hosts \<noteq> [] then [''Allowing git remote hosts: '' @ join '', '' git_hosts] else [])
            @ [''Mounting current directory'' @ ARROW @ ''/workspace'']
            @ (if find_chrome h \<noteq> None then [''Chrome found: use --browser to enable headless browser access''] else []),
          ad_needs_image_build = \<not> da_image_exists d, ad_run_as = ag_run_as agent, ad_stage_files = ab_stage b\<rparr>)"

definition detect :: "bytes option \<Rightarrow> host \<Rightarrow> exit + auto_detected option" where
  "detect git_output h =
     bindR (detect_all h) (\<lambda>ds. Inr (case ds of [] \<Rightarrow> None | d # _ \<Rightarrow> Some (build_config git_output h d)))"

datatype resolve_error = Unknown_agent | No_auth agent_def

definition resolve_by_slug :: "bytes option \<Rightarrow> host \<Rightarrow> string \<Rightarrow> exit + (resolve_error + auto_detected)" where
  "resolve_by_slug git_output h slug =
     (case agent_by_slug slug of
        None \<Rightarrow> Inr (Inl Unknown_agent)
      | Some agent \<Rightarrow>
          bindR (detect_one h agent) (\<lambda>d. Inr (case d of
              None \<Rightarrow> Inl (No_auth agent)
            | Some d \<Rightarrow> Inr (build_config git_output h d))))"

record exec_flags =
  ef_image :: "string option"
  ef_rootfs :: "path option"
  ef_command :: "string option"
  ef_secrets :: "string list"
  ef_secret_file :: "path option"
  ef_mounts :: "string list"
  ef_discover :: bool

definition has_explicit_flags :: "exec_flags \<Rightarrow> bool" where
  "has_explicit_flags f \<longleftrightarrow>
     ef_image f \<noteq> None \<or> ef_rootfs f \<noteq> None \<or> ef_command f \<noteq> None \<or> ef_secrets f \<noteq> []
     \<or> ef_secret_file f \<noteq> None \<or> ef_mounts f \<noteq> [] \<or> ef_discover f"

subsection \<open>The first source applies\<close>

lemma find_map_SomeD: "find_map f xs = Some y \<Longrightarrow> \<exists>x\<in>set xs. f x = Some y"
  by (induction xs) (auto split: option.splits)

lemma resolve_method_Some:
  "resolve_method h m = Some auth \<Longrightarrow> ra_method auth = m \<and>
   (case m of Env_secret var hs env \<Rightarrow> (\<exists>u. env_var h var = Some u \<and> str_trim u \<noteq> [])
    | Staged_files d probe files gd hs env \<Rightarrow>
        (\<exists>home. env_var h ''HOME'' = Some home \<and> ra_host_dir auth = Some (path_join home d)))"
  by (auto simp: resolve_method_def Let_def split: auth_method.splits option.splits if_splits)

lemma resolve_auth_Some:
  assumes "resolve_auth h agent = Some auth"
  shows "ra_method auth \<in> set (ag_auth agent)" "resolve_method h (ra_method auth) = Some auth"
  using assms resolve_method_Some by (auto simp: resolve_auth_def dest!: find_map_SomeD)

subsection \<open>Secret values stay out\<close>

definition with_env :: "string \<Rightarrow> string \<Rightarrow> host \<Rightarrow> host" where
  "with_env var v h = h\<lparr>env_var := (env_var h)(var \<mapsto> v)\<rparr>"

lemma with_env_sel [simp]:
  "entry (with_env var v h) = entry h" "n \<noteq> var \<Longrightarrow> env_var (with_env var v h) n = env_var h n"
  "env_var (with_env var v h) var = Some v"
  by (simp_all add: with_env_def)

lemma path_exists_with_env [simp]: "path_exists (with_env var v h) = path_exists h"
  by (simp add: path_exists_def fun_eq_iff)

lemma is_file_with_env [simp]: "is_file (with_env var v h) = is_file h"
  by (simp add: is_file_def fun_eq_iff)

lemma resolve_auth_with_env:
  assumes "var \<noteq> ''HOME''" "env_var h var = Some u" "str_trim u \<noteq> []" "str_trim v \<noteq> []"
  shows "resolve_auth (with_env var v h) agent = resolve_auth h agent"
proof -
  have "resolve_method (with_env var v h) m = resolve_method h m" for m
  proof (cases m)
    case (Env_secret x hs env)
    then show ?thesis using assms by (cases "x = var") (simp_all add: resolve_method_def)
  next
    case (Staged_files d probe files gd hs env)
    then show ?thesis using assms by (simp add: resolve_method_def Let_def cong: option.case_cong)
  qed
  then have "resolve_method (with_env var v h) = resolve_method h" by (rule ext)
  then show ?thesis by (simp add: resolve_auth_def)
qed

lemma image_exists_with_env:
  assumes "var \<noteq> ''HOME''" "var \<noteq> ''XDG_DATA_HOME''"
  shows "image_exists (with_env var v h) name = image_exists h name"
proof -
  have "image_path (with_env var v h) name = image_path h name"
    using assms by (simp add: image_path_def image_dir_def image_home_def cong: option.case_cong)
  then show ?thesis by (simp add: image_exists_def cong: sum.case_cong)
qed

lemma apply_auth_with_env: "apply_auth (with_env var v h) auth b = apply_auth h auth b"
proof -
  have "stage_one (with_env var v h) = stage_one h" by (simp add: fun_eq_iff stage_one_def)
  then show ?thesis by (simp add: apply_auth_def cong: auth_method.case_cong option.case_cong)
qed

lemma build_config_with_env:
  assumes "var \<noteq> ''PATH''"
  shows "build_config git (with_env var v h) d = build_config git h d"
proof -
  have "find_chrome_in (with_env var v h) = find_chrome_in h" by (simp add: fun_eq_iff find_chrome_in_def)
  then have "find_chrome (with_env var v h) = find_chrome h" using assms by (simp add: find_chrome_def)
  then show ?thesis by (simp add: build_config_def apply_auth_with_env)
qed

text \<open>The secrets of a configuration built from an empty one: the variable of the source, as a
  reference.\<close>

definition auth_secrets :: "auth_method \<Rightarrow> (string, secret_config) btree" where
  "auth_secrets m =
     (case m of
        Env_secret var hs env \<Rightarrow> [(var, \<lparr>sc_value = ''env://'' @ var, sc_hosts = hs\<rparr>)]
      | Staged_files d probe files gd hs env \<Rightarrow> [])"

lemma cfg_secrets_insert_env [simp]: "cfg_secrets (insert_env kvs cfg) = cfg_secrets cfg"
  by (simp add: insert_env_def)

lemma fold_stage_one:
  "ab_config (fold (stage_one h d g) fs b) = ab_config b" "ab_allow (fold (stage_one h d g) fs b) = ab_allow b"
  by (induction fs arbitrary: b) (simp_all add: stage_one_def Let_def)

lemma fold_stage_one_files:
  "x \<in> set (ab_stage (fold (stage_one h d g) fs b)) \<Longrightarrow>
   x \<in> set (ab_stage b) \<or> (\<exists>f\<in>set fs. x = (path_join d f, g, f) \<and> path_exists h (path_join d f))"
proof (induction fs arbitrary: b)
  case (Cons f fs)
  have "x \<in> set (ab_stage (stage_one h d g f b)) \<or> (\<exists>f\<in>set fs. x = (path_join d f, g, f) \<and> path_exists h (path_join d f))"
    using Cons.IH[of "stage_one h d g f b"] Cons.prems by simp
  moreover have "x \<in> set (ab_stage (stage_one h d g f b)) \<Longrightarrow>
      x \<in> set (ab_stage b) \<or> x = (path_join d f, g, f) \<and> path_exists h (path_join d f)"
    by (auto simp: stage_one_def Let_def split: if_splits)
  ultimately show ?case by auto
qed simp

lemma apply_auth_secrets:
  "cfg_secrets (ab_config b) = [] \<Longrightarrow> resolve_method h (ra_method auth) = Some auth \<Longrightarrow>
   cfg_secrets (ab_config (apply_auth h auth b)) = auth_secrets (ra_method auth)"
  by (auto simp: apply_auth_def auth_secrets_def fold_stage_one Let_def split: auth_method.split option.split
      dest: resolve_method_Some)

lemma build_config_secrets:
  "resolve_method h (ra_method (da_auth d)) = Some (da_auth d) \<Longrightarrow>
   cfg_secrets (ad_config (build_config git h d)) = auth_secrets (ra_method (da_auth d))"
  by (simp add: build_config_def Let_def apply_auth_secrets default_config_def)

lemma detect_one_with_env:
  assumes "var \<notin> {''HOME'', ''PATH'', ''XDG_DATA_HOME''}" "env_var h var = Some u" "str_trim u \<noteq> []" "str_trim v \<noteq> []"
  shows "detect_one (with_env var v h) agent = detect_one h agent"
  using assms by (simp add: detect_one_def resolve_auth_with_env image_exists_with_env cong: option.case_cong)

lemma detect_with_env:
  assumes "var \<notin> {''HOME'', ''PATH'', ''XDG_DATA_HOME''}" "env_var h var = Some u" "str_trim u \<noteq> []" "str_trim v \<noteq> []"
  shows "detect git (with_env var v h) = detect git h"
    "resolve_by_slug git (with_env var v h) slug = resolve_by_slug git h slug"
proof -
  have "detect_among (with_env var v h) as = detect_among h as" for as
    by (induction as) (simp_all add: detect_one_with_env[OF assms])
  moreover have bc: "build_config git (with_env var v h) = build_config git h"
    using assms(1) build_config_with_env by auto
  ultimately show "detect git (with_env var v h) = detect git h" by (simp add: detect_def detect_all_def cong: list.case_cong)
  show "resolve_by_slug git (with_env var v h) slug = resolve_by_slug git h slug"
    by (simp add: resolve_by_slug_def detect_one_with_env[OF assms] bc cong: option.case_cong)
qed

lemma detect_one_Some:
  assumes "detect_one h agent = Inr (Some d)"
  shows "da_agent d = agent \<and> resolve_auth h agent = Some (da_auth d)"
  using assms by (auto simp: detect_one_def bindR_Inr split: option.splits)

lemma detect_among_mem:
  "detect_among h as = Inr ds \<Longrightarrow> d \<in> set ds \<Longrightarrow> \<exists>agent\<in>set as. detect_one h agent = Inr (Some d)"
proof (induction as arbitrary: ds)
  case (Cons a as)
  then obtain x ds' where "detect_one h a = Inr x" "detect_among h as = Inr ds'"
    "ds = (case x of Some d \<Rightarrow> d # ds' | None \<Rightarrow> ds')" by (auto simp: bindR_Inr)
  then show ?case using Cons.IH[of ds'] Cons.prems(2) by (auto split: option.splits)
qed simp

lemma detect_Some:
  assumes "detect git h = Inr (Some a)"
  obtains d agent where "agent \<in> set AGENTS" "a = build_config git h d" "da_agent d = agent"
    "resolve_auth h agent = Some (da_auth d)"
proof -
  obtain ds where ds: "detect_all h = Inr ds" "(case ds of [] \<Rightarrow> None | d # _ \<Rightarrow> Some (build_config git h d)) = Some a"
    using assms by (auto simp: detect_def bindR_Inr)
  then obtain d rest where d: "ds = d # rest" "a = build_config git h d" by (auto split: list.splits)
  obtain agent where agent: "agent \<in> set AGENTS" "detect_one h agent = Inr (Some d)"
    using detect_among_mem[of h AGENTS ds d] ds(1) d(1) by (auto simp: detect_all_def)
  show thesis using that[OF agent(1) d(2)] detect_one_Some[OF agent(2)] by blast
qed

text \<open>What is staged: nothing for a variable, else existing files of the source's directory.\<close>

definition staged_from :: "host \<Rightarrow> auth_method \<Rightarrow> (path \<times> path \<times> string) list \<Rightarrow> bool" where
  "staged_from h m files \<longleftrightarrow>
     (case m of
        Env_secret n hs env \<Rightarrow> files = [] \<and> (\<exists>x. env_var h n = Some x \<and> str_trim x \<noteq> [])
      | Staged_files d probe fs gd hs env \<Rightarrow>
          (\<exists>home. env_var h ''HOME'' = Some home \<and>
             (\<forall>(p, g, f)\<in>set files. p = path_join (path_join home d) f \<and> g = gd \<and> path_exists h p)))"

lemma apply_auth_stage:
  assumes "ab_stage b = []" "resolve_method h (ra_method auth) = Some auth"
  shows "staged_from h (ra_method auth) (ab_stage (apply_auth h auth b))"
proof (cases "ra_method auth")
  case (Env_secret n hs env)
  then show ?thesis using assms resolve_method_Some[OF assms(2)] by (simp add: staged_from_def apply_auth_def)
next
  case (Staged_files d probe fs gd hs env)
  then obtain home where home: "env_var h ''HOME'' = Some home" "ra_host_dir auth = Some (path_join home d)"
    using resolve_method_Some[OF assms(2)] by auto
  define ts where "ts = (if fs = [] then [probe] else fs)"
  have "ab_stage (apply_auth h auth b) = ab_stage (fold (stage_one h (path_join home d) gd) ts b)"
    using Staged_files home by (simp add: apply_auth_def Let_def ts_def)
  then show ?thesis
    using Staged_files home(1) assms(1) by (auto simp: staged_from_def dest!: fold_stage_one_files)
qed

subsection \<open>Properties\<close>

text \<open>
  C23: zero-config never copies a credential out of the environment. A detected configuration names a
  variable that is set as the reference \<^verbatim>\<open>env://\<close> to that same variable, for the hosts of one of the
  agent's own sources, or it has no secret and stages existing files of the source's directory below
  the home directory; and what is detected, by priority or by name, does not depend on the
  variable's value: another non-blank value gives the same configuration, messages and files.
\<close>
theorem agent_config_hides_secrets:
  assumes "var \<notin> {''HOME'', ''PATH'', ''XDG_DATA_HOME''}" "env_var h var = Some u" "str_trim u \<noteq> []" "str_trim v \<noteq> []"
    and "detect git h = Inr (Some a)"
  shows "detect git (with_env var v h) = Inr (Some a)
    \<and> resolve_by_slug git (with_env var v h) slug = resolve_by_slug git h slug
    \<and> (\<exists>agent\<in>set AGENTS. \<exists>m\<in>set (ag_auth agent). cfg_secrets (ad_config a) = auth_secrets m
        \<and> staged_from h m (ad_stage_files a))"
proof -
  obtain d agent where d: "agent \<in> set AGENTS" "a = build_config git h d" "da_agent d = agent"
    "resolve_auth h agent = Some (da_auth d)"
    by (rule detect_Some[OF assms(5)])
  note m = resolve_auth_Some[OF d(4)]
  have "cfg_secrets (ad_config a) = auth_secrets (ra_method (da_auth d))"
    using build_config_secrets[OF m(2)] d(2) by simp
  moreover have "staged_from h (ra_method (da_auth d)) (ad_stage_files a)"
    unfolding d(2) build_config_def Let_def using apply_auth_stage[OF _ m(2)] by simp
  ultimately show ?thesis using d(1) m(1) detect_with_env(1)[OF assms(1-4), of git] detect_with_env(2)[OF assms(1-4), of git slug] assms(5) by auto
qed

definition demo_agent_host :: host where
  "demo_agent_host = \<lparr>env_var = (\<lambda>v. if v = ''ANTHROPIC_API_KEY'' then Some ''sk-1''
       else if v = ''XDG_DATA_HOME'' then Some ''/d'' else None),
     entry = (\<lambda>_. None), canonical = Some, writable = (\<lambda>_. True), cwd = Some ''/w'', tty = False\<rparr>"

theorem agent_config_hides_secrets_witness:
  "\<exists>a. detect None demo_agent_host = Inr (Some a)
     \<and> detect None (with_env ''ANTHROPIC_API_KEY'' ''sk-2'' demo_agent_host) = Inr (Some a)
     \<and> cfg_secrets (ad_config a) = [(''ANTHROPIC_API_KEY'', \<lparr>sc_value = ''env://ANTHROPIC_API_KEY'', sc_hosts = [''api.anthropic.com'']\<rparr>)]"
proof -
  have t: "str_trim ''sk-1'' \<noteq> []" "str_trim ''sk-2'' \<noteq> []"
    by (simp_all add: trim_graphic graphic_def char_code_def)
  have v: "is_valid_image_name ''claude-code''" "is_valid_image_name ''pi''" by code_simp+
  have m: "resolve_method demo_agent_host (hd (ag_auth CLAUDE_CODE)) = Some \<lparr>ra_method = hd (ag_auth CLAUDE_CODE), ra_host_dir = None\<rparr>"
    using t by (simp add: resolve_method_def CLAUDE_CODE_def demo_agent_host_def)
  then have r: "resolve_auth demo_agent_host CLAUDE_CODE = Some \<lparr>ra_method = hd (ag_auth CLAUDE_CODE), ra_host_dir = None\<rparr>"
    by (simp add: resolve_auth_def CLAUDE_CODE_def)
  have i: "image_path demo_agent_host n = Inr (Inr (''/d/redan/images/'' @ n))" if "is_valid_image_name n" for n
    using that image_name_chars[OF that]
    by (simp add: image_path_def image_dir_def demo_agent_host_def bindR_def path_join_def is_absolute_def split: list.split)
  have o: "\<exists>ds. detect_one demo_agent_host PI = Inr ds"
    by (cases "resolve_auth demo_agent_host PI")
      (simp_all add: detect_one_def image_exists_def bindR_def PI_def i[OF v(2)])
  obtain d where d: "detect_one demo_agent_host CLAUDE_CODE = Inr (Some d)"
    "da_auth d = \<lparr>ra_method = hd (ag_auth CLAUDE_CODE), ra_host_dir = None\<rparr>"
    using i[OF v(1)] by (auto simp: detect_one_def r image_exists_def bindR_def CLAUDE_CODE_def[THEN arg_cong, of ag_image])
  then have det: "detect None demo_agent_host = Inr (Some (build_config None demo_agent_host d))"
    using o by (auto simp: detect_def detect_all_def AGENTS_def bindR_def split: option.split)
  have "cfg_secrets (ad_config (build_config None demo_agent_host d))
      = [(''ANTHROPIC_API_KEY'', \<lparr>sc_value = ''env://ANTHROPIC_API_KEY'', sc_hosts = [''api.anthropic.com'']\<rparr>)]"
    using build_config_secrets[of demo_agent_host d] d(2) m by (simp add: auth_secrets_def CLAUDE_CODE_def)
  then show ?thesis
    using agent_config_hides_secrets[OF _ _ t det, of "''ANTHROPIC_API_KEY''"] det by (simp add: demo_agent_host_def)
qed

end
