(* ===== verification/Launch.thy ===== *)
theory Launch
  imports Trust Agent Daemon
begin

text \<open>
  From the command line to a launched session, \<^verbatim>\<open>src/src/main.rs\<close>: \<^verbatim>\<open>redan exec\<close> and
  \<^verbatim>\<open>redan run\<close> choose a base configuration, \<^verbatim>\<open>launch\<close> merges the flags into it, resolves the
  root file system, stages credentials and calls the session runner or the daemon launcher. The
  parsers, git and the build programs are parameters; clap's parsing and the messages on stderr are
  not modelled.
\<close>

subsection \<open>Quoting\<close>

definition shell_quote :: "string \<Rightarrow> string" where
  "shell_quote arg =
     [CHR 0x27] @ concat (map (\<lambda>c. if c = CHR 0x27 then [CHR 0x27, CHR 0x5C, CHR 0x27, CHR 0x27] else [c]) arg) @ [CHR 0x27]"

subsection \<open>Arguments\<close>

record exec_args =
  xa_image_name :: "string option"
  xa_rootfs :: "path option"
  xa_command :: "string option"
  xa_interactive :: bool
  xa_timeout :: "64 word option"
  xa_secrets :: "string list"
  xa_secret_file :: "path option"
  xa_allow_hosts :: "string list"
  xa_mounts :: "string list"
  xa_audit_log :: "path option"
  xa_forwards :: "string list"
  xa_discover :: bool
  xa_detached :: bool
  xa_name :: "string option"
  xa_run_as :: "string option"
  xa_browser :: bool

record run_args =
  rg_agent :: "string option"
  rg_allow_hosts :: "string list"
  rg_browser :: bool
  rg_mounts :: "string list"
  rg_forwards :: "string list"
  rg_secrets :: "string list"
  rg_secret_file :: "path option"
  rg_audit_log :: "path option"
  rg_timeout :: "64 word option"
  rg_discover :: bool
  rg_detach :: bool
  rg_name :: "string option"
  rg_extra :: "string list"

record launch_params =
  la_trust :: trust_env
  la_toml :: "string \<Rightarrow> config option"
  la_answer :: "string option"
  la_json :: "string \<Rightarrow> json option"
  la_git :: "bytes option"
  la_build :: build_env
  la_temp :: path
  la_dockerfile :: "string \<Rightarrow> string"  \<comment> \<open>the embedded Dockerfile of an image\<close>

subsection \<open>Root file system and staging\<close>

definition resolve_rootfs :: "host \<Rightarrow> string option \<Rightarrow> path option \<Rightarrow> exit + path" where
  "resolve_rootfs h image_name rootfs =
     (case image_name of
        Some name \<Rightarrow>
          bindR (image_path h name) (\<lambda>r. case r of
              Inl e \<Rightarrow> Inl (Exit 1 (''error: '' @ snd e))
            | Inr p \<Rightarrow> if path_exists h p then Inr p else Inl (Exit 1 (''image '' @ name @ '' not found'')))
      | None \<Rightarrow>
          (case rootfs of
             Some p \<Rightarrow> Inr p
           | None \<Rightarrow> Inl (Exit 1 ''no image specified. Set image in redan.toml or pass --image <name>'')))"

text \<open>\<^verbatim>\<open>fs::copy\<close> takes the mode along; the mode is then set to 0666.\<close>

definition copy_file :: "host \<Rightarrow> path \<Rightarrow> path \<Rightarrow> host option" where
  "copy_file h src dst =
     (case entry h src of
        Some (Regular m r c) \<Rightarrow>
          if r \<and> writable h dst \<and> entry h dst \<noteq> Some Directory
          then Some (h\<lparr>entry := (entry h)(dst \<mapsto> Regular m True c)\<rparr>) else None
      | _ \<Rightarrow> None)"

definition chmod_file :: "32 word \<Rightarrow> path \<Rightarrow> host \<Rightarrow> host" where
  "chmod_file mode p h =
     (case entry h p of
        Some (Regular m r c) \<Rightarrow> h\<lparr>entry := (entry h)(p \<mapsto> Regular mode r c)\<rparr>
      | _ \<Rightarrow> h)"

definition strip_slash :: "path \<Rightarrow> path" where
  "strip_slash p = (case strip_prefix ''/'' p of Some r \<Rightarrow> r | None \<Rightarrow> p)"

definition stage_file :: "path \<Rightarrow> path \<times> path \<times> string \<Rightarrow> host \<Rightarrow> exit + host" where
  "stage_file rootfs s h =
     (case s of (host_path, guest_dir, filename) \<Rightarrow>
        let target_dir = path_join rootfs (strip_slash guest_dir);
            target_file = path_join target_dir filename
        in bindR (ok_or (create_dir_all h target_dir) (Exit 1 (''error: cannot create '' @ target_dir))) (\<lambda>h.
           bindR (ok_or (copy_file h host_path target_file) (Exit 1 (''error: cannot stage credentials '' @ host_path))) (\<lambda>h.
             Inr (chmod_file 0x1B6 target_file h))))"

fun stage_all :: "path \<Rightarrow> (path \<times> path \<times> string) list \<Rightarrow> host \<Rightarrow> exit + host" where
  "stage_all rootfs [] h = Inr h"
| "stage_all rootfs (s # ss) h = bindR (stage_file rootfs s h) (stage_all rootfs ss)"

subsection \<open>Launching\<close>

datatype launched = Foreground exec_call | Detached daemon_config

definition default_command :: "bool \<Rightarrow> string" where
  "default_command interactive =
     (if interactive then ''/bin/sh''
      else ''echo 'no command specified; use: redan exec --image <name> -- <command>' '')"

definition launch ::
  "launch_params \<Rightarrow> config \<Rightarrow> string option \<Rightarrow> (path \<times> path \<times> string) list \<Rightarrow> exec_args \<Rightarrow> host \<Rightarrow> exit + launched \<times> host" where
  "launch env cfg detected_run_as stage_files args h =
     bindR (collect_secret_specs h (xa_secrets args) (xa_secret_file args)) (\<lambda>collected.
       let run_as = or_else (xa_run_as args) detected_run_as;
           secrets = collected @ secret_specs cfg;
           image_name = or_else (xa_image_name args) (cfg_image cfg);
           rootfs = or_else (xa_rootfs args) (cfg_rootfs cfg);
           command = or_else (xa_command args) (cfg_command cfg);
           timeout = (case or_else (xa_timeout args) (cfg_timeout cfg) of Some t \<Rightarrow> t | None \<Rightarrow> 3600);
           interactive = (xa_interactive args \<or> cfg_interactive cfg = Some True);
           log_to_file = (interactive \<or> tty h);
           audit_log = or_else (xa_audit_log args) (cfg_audit_log cfg);
           allow_hosts = xa_allow_hosts args @ net_allow (cfg_network cfg) @ claude_allowed_domains (la_json env) h;
           forwards = xa_forwards args @ net_forward (cfg_network cfg);
           mounts = xa_mounts args @ mount_specs cfg
       in bindR (resolve_rootfs h image_name rootfs) (\<lambda>rootfs_path.
          bindR (stage_all rootfs_path stage_files h) (\<lambda>h.
            let chown_dir = (case stage_files of [] \<Rightarrow> None | (_, d, _) # _ \<Rightarrow> Some d);
                command = (case command of Some c \<Rightarrow> c | None \<Rightarrow> default_command interactive)
            in Inr
                 (if xa_detached args
                  then Detached
                    \<lparr>dm_rootfs = rootfs_path, dm_command = command, dm_timeout_secs = unat timeout, dm_secrets = secrets,
                     dm_allow_hosts = allow_hosts, dm_forwards = forwards, dm_mounts = mounts, dm_audit_log = audit_log,
                     dm_image_name = image_name, dm_env = cfg_env cfg, dm_discover = xa_discover args,
                     dm_session_name = xa_name args, dm_run_as = run_as, dm_chown_dir = chown_dir,
                     dm_browser = xa_browser args\<rparr>
                  else Foreground
                    \<lparr>xc_config = \<lparr>ec_rootfs = rootfs_path, ec_command = command, ec_interactive = interactive,
                       ec_timeout = unat timeout, ec_secret_specs = secrets, ec_allow_specs = allow_hosts,
                       ec_forward_specs = forwards, ec_mount_specs = mounts, ec_guest_env = cfg_env cfg,
                       ec_discover = xa_discover args, ec_run_as = run_as, ec_chown_dir = chown_dir,
                       ec_browser = xa_browser args\<rparr>,
                     xc_audit_log = audit_log, xc_image_name = image_name, xc_session_name = xa_name args,
                     xc_session_id = None, xc_log_to_file = log_to_file\<rparr>, h))))"

subsection \<open>Bundled images\<close>

definition build_bundled_image :: "launch_params \<Rightarrow> string \<Rightarrow> host \<Rightarrow> path io" where
  "build_bundled_image env name h =
     (if name \<noteq> ''claude-code'' \<and> name \<noteq> ''pi''
      then Inr (Inl (Io_not_found, ''no bundled Dockerfile for image '' @ name), h)
      else (let tmp = path_join (la_temp env) (''redan-'' @ name @ ''-build'')
            in case create_dir_all h tmp of
                 None \<Rightarrow> Inr (Inl (Io_other, ''cannot create build directory''), h)
               | Some h \<Rightarrow>
                   (let df_path = path_join tmp ''Dockerfile''
                    in case write_file h df_path (la_dockerfile env name) of
                         None \<Rightarrow> Inr (Inl (Io_other, ''cannot write Dockerfile''), h)
                       | Some h \<Rightarrow>
                           bindR (import_dockerfile (la_build env) name df_path h) (\<lambda>(r, h).
                             Inr (r, try_remove_dir tmp h)))))"

definition build_image_if_needed :: "launch_params \<Rightarrow> auto_detected \<Rightarrow> host \<Rightarrow> exit + host" where
  "build_image_if_needed env auto h =
     (if \<not> ad_needs_image_build auto then Inr h
      else (let image_name = (case cfg_image (ad_config auto) of Some n \<Rightarrow> n | None \<Rightarrow> ''unknown'')
            in bindR (build_bundled_image env image_name h) (\<lambda>(r, h). case r of
                 Inr _ \<Rightarrow> Inr h
               | Inl e \<Rightarrow> Inl (Exit 1 (''error: failed to build '' @ image_name @ '' image: '' @ snd e)))))"

subsection \<open>The commands\<close>

definition explicit_flags :: "exec_args \<Rightarrow> bool" where
  "explicit_flags args =
     has_explicit_flags \<lparr>ef_image = xa_image_name args, ef_rootfs = xa_rootfs args, ef_command = xa_command args,
       ef_secrets = xa_secrets args, ef_secret_file = xa_secret_file args, ef_mounts = xa_mounts args,
       ef_discover = xa_discover args\<rparr>"

definition exec_command :: "launch_params \<Rightarrow> exec_args \<Rightarrow> host \<Rightarrow> exit + launched \<times> host" where
  "exec_command env args h =
     bindR (load_config (la_trust env) (la_toml env) (la_answer env) h) (\<lambda>(config_file, h).
       case config_file of
         Some (_, cfg) \<Rightarrow> launch env cfg None [] args h
       | None \<Rightarrow>
           if \<not> explicit_flags args
           then bindR (detect (la_git env) h) (\<lambda>found. case found of
                    None \<Rightarrow> Inl (Exit 1 ''no redan.toml found and auto-detect failed.'')
                  | Some auto \<Rightarrow>
                      bindR (build_image_if_needed env auto h) (\<lambda>h.
                        launch env (ad_config auto) (ad_run_as auto) (ad_stage_files auto) args h))
           else launch env default_config None [] args h)"

definition resolve_run_target :: "launch_params \<Rightarrow> string option \<Rightarrow> host \<Rightarrow> exit + auto_detected" where
  "resolve_run_target env agent h =
     (case agent of
        None \<Rightarrow>
          bindR (detect (la_git env) h) (\<lambda>found.
            ok_or found (Exit 1 (''no agent detected. Known agents: '' @ join '', '' agent_slugs)))
      | Some slug \<Rightarrow>
          bindR (resolve_by_slug (la_git env) h slug) (\<lambda>r. case r of
              Inr auto \<Rightarrow> Inr auto
            | Inl Unknown_agent \<Rightarrow> Inl (Exit 1 (''unknown agent '' @ slug @ ''. Available: '' @ join '', '' agent_slugs))
            | Inl (No_auth a) \<Rightarrow> Inl (Exit 1 (ag_name a @ '' found, but no credentials in this environment.''))))"

definition run_exec_args :: "run_args \<Rightarrow> config \<Rightarrow> exec_args" where
  "run_exec_args args cfg =
     (let command = (if rg_extra args = [] then None
                     else Some (str_trim ((case cfg_command cfg of Some c \<Rightarrow> c | None \<Rightarrow> [])
                                          @ '' '' @ join '' '' (map shell_quote (rg_extra args)))))
      in \<lparr>xa_image_name = None, xa_rootfs = None, xa_command = command, xa_interactive = False,
          xa_timeout = rg_timeout args, xa_secrets = rg_secrets args, xa_secret_file = rg_secret_file args,
          xa_allow_hosts = rg_allow_hosts args, xa_mounts = rg_mounts args, xa_audit_log = rg_audit_log args,
          xa_forwards = rg_forwards args, xa_discover = rg_discover args, xa_detached = rg_detach args,
          xa_name = rg_name args, xa_run_as = None, xa_browser = rg_browser args\<rparr>)"

definition run_command :: "launch_params \<Rightarrow> run_args \<Rightarrow> host \<Rightarrow> exit + launched \<times> host" where
  "run_command env args h =
     bindR (load_config (la_trust env) (la_toml env) (la_answer env) h) (\<lambda>(project_config, h).
     bindR (resolve_run_target env (rg_agent args) h) (\<lambda>auto.
     bindR (build_image_if_needed env auto h) (\<lambda>h.
       let cfg = (case project_config of
                    Some (_, project) \<Rightarrow> overlay (ad_config auto) project
                  | None \<Rightarrow> ad_config auto)
       in launch env cfg (ad_run_as auto) (ad_stage_files auto) (run_exec_args args cfg) h)))"

subsection \<open>Word splitting\<close>

text \<open>
  How \<^verbatim>\<open>/bin/sh\<close> splits a simple command into words, quotes removed: single quotes take everything
  literally, a backslash the next character, blanks separate. Anything the shell would expand or
  interpret is refused, so a result means the command is these words and nothing more.
\<close>

definition sh_special :: "char \<Rightarrow> bool" where
  "sh_special c \<longleftrightarrow> c \<in> set ''|&;<>()$`*?[]#~={}!^%'' \<or> c = CHR 0x22 \<or> c = CHR 0x0A"

fun sh_scan :: "bool \<Rightarrow> string option \<Rightarrow> string \<Rightarrow> string list option" where
  "sh_scan quoted cur [] = (if quoted then None else Some (case cur of None \<Rightarrow> [] | Some w \<Rightarrow> [w]))"
| "sh_scan True cur (c # cs) =
     (if c = CHR 0x27 then sh_scan False cur cs
      else sh_scan True (Some ((case cur of None \<Rightarrow> [] | Some w \<Rightarrow> w) @ [c])) cs)"
| "sh_scan False cur (c # cs) =
     (if c = CHR 0x27 then sh_scan True (Some (case cur of None \<Rightarrow> [] | Some w \<Rightarrow> w)) cs
      else if c = CHR '' '' \<or> c = CHR 0x09
      then (case cur of None \<Rightarrow> sh_scan False None cs | Some w \<Rightarrow> map_option ((#) w) (sh_scan False None cs))
      else if c = CHR 0x5C
      then (case cs of [] \<Rightarrow> None
            | d # ds \<Rightarrow> if d = CHR 0x0A then None
                else sh_scan False (Some ((case cur of None \<Rightarrow> [] | Some w \<Rightarrow> w) @ [d])) ds)
      else if sh_special c then None
      else sh_scan False (Some ((case cur of None \<Rightarrow> [] | Some w \<Rightarrow> w) @ [c])) cs)"

definition sh_words :: "string \<Rightarrow> string list option" where
  "sh_words = sh_scan False None"

lemma sh_scan_append:
  "sh_scan q cur a = Some ws \<Longrightarrow> sh_scan q cur (a @ CHR '' '' # b) = map_option ((@) ws) (sh_scan False None b)"
proof (induction q cur a arbitrary: ws rule: sh_scan.induct)
  case (1 quoted cur)
  then show ?case by (cases "sh_scan False None b") (auto split: if_splits option.splits)
next
  case (3 cur c cs)
  show ?case
  proof (cases "c = CHR '' '' \<or> c = CHR 0x09")
    case True
    have "sh_scan False None (cs @ CHR '' '' # b) = map_option ((@) vs) (sh_scan False None b)"
      if "sh_scan False None cs = Some vs" for vs
      using True "3.IH"(2,3) that by (cases cur) auto
    with True "3.prems" show ?thesis by (cases cur) (auto simp: option.map_comp comp_def)
  next
    case False
    with "3" show ?thesis by (auto split: if_splits list.splits)
  qed
qed (auto split: if_splits)

lemma sh_scan_quoted:
  "sh_scan True (Some w)
     (concat (map (\<lambda>c. if c = CHR 0x27 then [CHR 0x27, CHR 0x5C, CHR 0x27, CHR 0x27] else [c]) arg) @ CHR 0x27 # rest)
   = sh_scan False (Some (w @ arg)) rest"
  by (induction arg arbitrary: w) auto

lemma sh_words_quote: "sh_words (shell_quote arg) = Some [arg]"
  using sh_scan_quoted[of "[]" arg "[]"] by (simp add: sh_words_def shell_quote_def)

lemma sh_words_append:
  "sh_words a = Some ws \<Longrightarrow> sh_words (a @ CHR '' '' # b) = map_option ((@) ws) (sh_words b)"
  using sh_scan_append by (simp add: sh_words_def)

lemma sh_words_join: "sh_words (join '' '' (map shell_quote args)) = Some args"
proof (induction args)
  case (Cons a args)
  then show ?case
    by (cases args) (simp_all add: sh_words_quote sh_words_append)
qed (simp add: sh_words_def)

lemma shell_quote_ends: "shell_quote a \<noteq> []" "hd (shell_quote a) = CHR 0x27" "last (shell_quote a) = CHR 0x27"
  by (simp_all add: shell_quote_def)

lemma join_quote_last: "args \<noteq> [] \<Longrightarrow> join '' '' (map shell_quote args) \<noteq> [] \<and> last (join '' '' (map shell_quote args)) = CHR 0x27"
proof (induction args)
  case (Cons a args)
  then show ?case by (cases args) (simp_all add: shell_quote_ends)
qed simp

subsection \<open>What a project file can add\<close>

fun launched_secrets :: "launched \<Rightarrow> string list" where
  "launched_secrets (Foreground c) = ec_secret_specs (xc_config c)"
| "launched_secrets (Detached d) = dm_secrets d"

fun launched_mounts :: "launched \<Rightarrow> string list" where
  "launched_mounts (Foreground c) = ec_mount_specs (xc_config c)"
| "launched_mounts (Detached d) = dm_mounts d"

fun launched_forwards :: "launched \<Rightarrow> string list" where
  "launched_forwards (Foreground c) = ec_forward_specs (xc_config c)"
| "launched_forwards (Detached d) = dm_forwards d"

fun launched_audit_log :: "launched \<Rightarrow> path option" where
  "launched_audit_log (Foreground c) = xc_audit_log c"
| "launched_audit_log (Detached d) = dm_audit_log d"

fun launched_rootfs :: "launched \<Rightarrow> path" where
  "launched_rootfs (Foreground c) = ec_rootfs (xc_config c)"
| "launched_rootfs (Detached d) = dm_rootfs d"

lemma launch_fields:
  assumes "launch env cfg detected stage args h = Inr (l, h')"
  obtains collected where "collect_secret_specs h (xa_secrets args) (xa_secret_file args) = Inr collected"
    "launched_secrets l = collected @ secret_specs cfg"
    "launched_mounts l = xa_mounts args @ mount_specs cfg"
    "launched_forwards l = xa_forwards args @ net_forward (cfg_network cfg)"
    "launched_audit_log l = or_else (xa_audit_log args) (cfg_audit_log cfg)"
    "resolve_rootfs h (or_else (xa_image_name args) (cfg_image cfg)) (or_else (xa_rootfs args) (cfg_rootfs cfg))
      = Inr (launched_rootfs l)"
  using assms by (auto simp: launch_def bindR_Inr Let_def split: if_splits)

text \<open>
  The authority a launch may have when the project file \<open>cfg\<close> contributes nothing that needs
  consent: flags, the base configuration, literal secrets and mounts from inside the project. \<open>h\<close> is
  the host the file was analyzed on, \<open>hl\<close> the host of the launch, an image built in between.
\<close>

definition no_host_authority_from :: "config \<Rightarrow> host \<Rightarrow> host \<Rightarrow> config \<Rightarrow> exec_args \<Rightarrow> launched \<Rightarrow> bool" where
  "no_host_authority_from cfg h hl base flags l \<longleftrightarrow>
     (\<exists>collected. collect_secret_specs hl (xa_secrets flags) (xa_secret_file flags) = Inr collected
        \<and> set (launched_secrets l) \<subseteq> set collected \<union> set (secret_specs base)
            \<union> {secret_spec name s |name s. (name, s) \<in> set (cfg_secrets cfg) \<and> is_literal (sc_value s)})
     \<and> set (launched_mounts l) \<subseteq> set (xa_mounts flags) \<union> set (mount_specs base)
            \<union> {mount_spec m |name m. (name, m) \<in> set (cfg_mount cfg) \<and> is_within_project h (project_root h) (mc_source m)}
     \<and> set (launched_forwards l) \<subseteq> set (xa_forwards flags) \<union> set (net_forward (cfg_network base))
     \<and> launched_audit_log l = or_else (xa_audit_log flags) (cfg_audit_log base)
     \<and> (\<exists>name. resolve_rootfs hl name (or_else (xa_rootfs flags) (cfg_rootfs base)) = Inr (launched_rootfs l))"

lemma bt_insert_subset: "set (bt_insert k v m) \<subseteq> insert (k, v) (set m)"
  by (induction m rule: bt_insert.induct) auto

lemma bt_extend_subset: "set (bt_extend m xs) \<subseteq> set m \<union> set xs"
proof (induction xs arbitrary: m)
  case (Cons x xs)
  have "bt_extend m (x # xs) = bt_extend (bt_insert (fst x) (snd x) m) xs"
    by (simp add: bt_extend_def case_prod_beta)
  then show ?case using Cons.IH[of "bt_insert (fst x) (snd x) m"] bt_insert_subset[of "fst x" "snd x" m] by auto
qed (simp add: bt_extend_def)

lemma secret_specs_subset: "set (secret_specs cfg) \<subseteq> {secret_spec name s |name s. (name, s) \<in> set (cfg_secrets cfg)}"
  by (auto simp: secret_specs_def)

lemma mount_specs_set: "set (mount_specs cfg) = {mount_spec m |name m. (name, m) \<in> set (cfg_mount cfg)}"
  by (force simp: mount_specs_def)

lemma secret_specs_overlay: "set (secret_specs (overlay a b)) \<subseteq> set (secret_specs a) \<union> set (secret_specs b)"
  using bt_extend_subset[of "cfg_secrets a" "cfg_secrets b"] by (auto simp: secret_specs_def overlay_def Let_def)

lemma mount_specs_overlay: "set (mount_specs (overlay a b)) \<subseteq> set (mount_specs a) \<union> set (mount_specs b)"
  using bt_extend_subset[of "cfg_mount a" "cfg_mount b"] unfolding mount_specs_set by (simp add: overlay_def Let_def) blast

lemma powerless_config:
  assumes "analyze h cfg root = []"
  shows "set (secret_specs cfg) \<subseteq> {secret_spec name s |name s. (name, s) \<in> set (cfg_secrets cfg) \<and> is_literal (sc_value s)}"
    and "set (mount_specs cfg) \<subseteq> {mount_spec m |name m. (name, m) \<in> set (cfg_mount cfg) \<and> is_within_project h root (mc_source m)}"
    and "net_forward (cfg_network cfg) = []" "cfg_audit_log cfg = None" "cfg_rootfs cfg = None"
  using assms secret_specs_subset[of cfg] unfolding analyze_Nil mount_specs_set
  by (fastforce simp: list_all_iff)+

lemma launch_no_host_authority:
  assumes "launch env c detected stage args hl = Inr (l, h')" "analyze h cfg (project_root h) = []"
    and "set (secret_specs c) \<subseteq> set (secret_specs base) \<union> set (secret_specs cfg)"
    and "set (mount_specs c) \<subseteq> set (mount_specs base) \<union> set (mount_specs cfg)"
    and "set (net_forward (cfg_network c)) \<subseteq> set (net_forward (cfg_network base)) \<union> set (net_forward (cfg_network cfg))"
    and "cfg_audit_log c = or_else (cfg_audit_log cfg) (cfg_audit_log base)"
    and "cfg_rootfs c = or_else (cfg_rootfs cfg) (cfg_rootfs base)"
  shows "no_host_authority_from cfg h hl base args l"
proof -
  obtain collected where c: "collect_secret_specs hl (xa_secrets args) (xa_secret_file args) = Inr collected"
    "launched_secrets l = collected @ secret_specs c"
    "launched_mounts l = xa_mounts args @ mount_specs c"
    "launched_forwards l = xa_forwards args @ net_forward (cfg_network c)"
    "launched_audit_log l = or_else (xa_audit_log args) (cfg_audit_log c)"
    "resolve_rootfs hl (or_else (xa_image_name args) (cfg_image c)) (or_else (xa_rootfs args) (cfg_rootfs c))
      = Inr (launched_rootfs l)"
    by (rule launch_fields[OF assms(1)])
  note p = powerless_config[OF assms(2)]
  have s: "set (launched_secrets l) \<subseteq> set collected \<union> set (secret_specs base)
      \<union> {secret_spec name s |name s. (name, s) \<in> set (cfg_secrets cfg) \<and> is_literal (sc_value s)}"
    unfolding c(2) set_append using assms(3) p(1) by blast
  have m: "set (launched_mounts l) \<subseteq> set (xa_mounts args) \<union> set (mount_specs base)
      \<union> {mount_spec m |name m. (name, m) \<in> set (cfg_mount cfg) \<and> is_within_project h (project_root h) (mc_source m)}"
    unfolding c(3) set_append using assms(4) p(2) by blast
  have f: "set (launched_forwards l) \<subseteq> set (xa_forwards args) \<union> set (net_forward (cfg_network base))"
    using assms(5) p(3) by (auto simp: c(4))
  have a: "launched_audit_log l = or_else (xa_audit_log args) (cfg_audit_log base)" "cfg_rootfs c = cfg_rootfs base"
    using c(5) assms(6,7) p(4,5) by (simp_all add: or_else_def)
  show ?thesis unfolding no_host_authority_from_def using c(1,6) s m f a by auto
qed

lemma run_args_flags:
  "xa_secrets (run_exec_args args cfg) = rg_secrets args" "xa_secret_file (run_exec_args args cfg) = rg_secret_file args"
  "xa_mounts (run_exec_args args cfg) = rg_mounts args" "xa_forwards (run_exec_args args cfg) = rg_forwards args"
  "xa_audit_log (run_exec_args args cfg) = rg_audit_log args" "xa_rootfs (run_exec_args args cfg) = None"
  by (simp_all add: run_exec_args_def Let_def)

lemma no_host_authority_from_cong:
  "no_host_authority_from cfg h hl base (run_exec_args args c) l \<longleftrightarrow> no_host_authority_from cfg h hl base (run_exec_args args c') l"
  by (simp add: no_host_authority_from_def run_args_flags)

lemma unattended_load:
  assumes "discover (la_toml env) h = Inr (Some d)" "dc_source d = Project"
    and "\<not> is_trusted (la_trust env) h (dc_path d) (dc_content d)" "\<not> (tty h \<and> confirm (la_answer env))"
    and "load_config (la_trust env) (la_toml env) (la_answer env) h = Inr (x, h')"
  shows "x = Some (dc_path d, dc_config d)" "h' = h" "analyze h (dc_config d) (project_root h) = []"
  using assms by (auto simp: load_config_def bindR_Inr decide_def Let_def split: if_splits)

subsection \<open>Properties\<close>

text \<open>
  C39: extra arguments of \<open>redan run\<close> reach the agent unchanged. When the agent's command is made of
  plain words, the shell splits the command that is launched into exactly these words followed by the
  extra arguments, whatever characters these contain.
\<close>
theorem run_args_survive:
  assumes "cfg_command cfg = Some base" "base \<noteq> []" "graphic (hd base)" "sh_words base = Some ws" "rg_extra args \<noteq> []"
  shows "map_option sh_words (xa_command (run_exec_args args cfg)) = Some (Some (ws @ rg_extra args))"
proof -
  have "graphic CHR 0x27" by (simp add: graphic_def char_code_def)
  then have "str_trim (base @ '' '' @ join '' '' (map shell_quote (rg_extra args)))
      = base @ CHR '' '' # join '' '' (map shell_quote (rg_extra args))"
    using assms(2,3) join_quote_last[OF assms(5)] by (subst trim_graphic) auto
  then show ?thesis
    using assms sh_words_append[OF assms(4)] by (simp add: run_exec_args_def Let_def sh_words_join)
qed

definition demo_run_args :: run_args where
  "demo_run_args = \<lparr>rg_agent = None, rg_allow_hosts = [], rg_browser = False, rg_mounts = [], rg_forwards = [],
     rg_secrets = [], rg_secret_file = None, rg_audit_log = None, rg_timeout = None, rg_discover = False,
     rg_detach = False, rg_name = None, rg_extra = [''it's $HOME; rm'', [], ''-p'']\<rparr>"

theorem run_args_survive_witness:
  "map_option sh_words (xa_command (run_exec_args demo_run_args (default_config\<lparr>cfg_command := Some (ag_command CLAUDE_CODE)\<rparr>)))
   = Some (Some [''claude'', ''--dangerously-skip-permissions'', ''it's $HOME; rm'', [], ''-p''])"
proof -
  have c: "ag_command CLAUDE_CODE = ''claude --dangerously-skip-permissions''" by (simp add: CLAUDE_CODE_def)
  have w: "sh_words (ag_command CLAUDE_CODE) = Some [''claude'', ''--dangerously-skip-permissions'']"
    unfolding c by code_simp
  have g: "ag_command CLAUDE_CODE \<noteq> []" "graphic (hd (ag_command CLAUDE_CODE))"
    unfolding c by (simp_all add: graphic_def char_code_def)
  show ?thesis
    using run_args_survive[of "default_config\<lparr>cfg_command := Some (ag_command CLAUDE_CODE)\<rparr>", OF _ g w, of demo_run_args]
    by (simp add: demo_run_args_def)
qed


definition demo_literal_config :: config where
  "demo_literal_config = default_config\<lparr>cfg_secrets := [(''K'', \<lparr>sc_value = ''v'', sc_hosts = [''a.test'']\<rparr>)]\<rparr>"

definition demo_exec_args :: exec_args where
  "demo_exec_args = \<lparr>xa_image_name = None, xa_rootfs = Some ''/r'', xa_command = Some ''true'', xa_interactive = False,
     xa_timeout = None, xa_secrets = [], xa_secret_file = None, xa_allow_hosts = [], xa_mounts = [], xa_audit_log = None,
     xa_forwards = [], xa_discover = False, xa_detached = False, xa_name = None, xa_run_as = None, xa_browser = False\<rparr>"

definition demo_launch_params :: "build_env \<Rightarrow> launch_params" where
  "demo_launch_params build = \<lparr>la_trust = demo_trust_env, la_toml = (\<lambda>_. Some demo_literal_config), la_answer = None,
     la_json = (\<lambda>_. None), la_git = None, la_build = build, la_temp = ''/tmp'', la_dockerfile = (\<lambda>_. [])\<rparr>"


end
