(* ===== verification/Doctor.thy ===== *)
theory Doctor
  imports Image Browser
begin

text \<open>
  \<^verbatim>\<open>redan doctor\<close>, \<^verbatim>\<open>src/src/cmd/doctor.rs\<close>, with \<^verbatim>\<open>check_kvm\<close> of \<^verbatim>\<open>src/src/lib.rs\<close>: every check with
  the lines it prints, and the sizes shown in listings. The order in which a directory is walked,
  and how Rust quotes a string for debugging, are parameters.
\<close>

subsection \<open>Sizes\<close>

definition dir_size :: "(path \<Rightarrow> path list) \<Rightarrow> host \<Rightarrow> path \<Rightarrow> nat" where
  "dir_size walk_dir h p =
     sum_list (map (\<lambda>q. case entry h q of Some (Regular m r c) \<Rightarrow> length c | _ \<Rightarrow> 0) (walk_dir p))"

text \<open>The tenths, in 128 bits: ten times a 64-bit size cannot overflow.\<close>

definition tenths :: "64 word \<Rightarrow> 64 word \<Rightarrow> nat" where
  "tenths bytes unit =
     (let scaled = unat bytes * 10; u = unat unit; q = scaled div u; r = scaled mod u
      in if r * 2 > u \<or> r * 2 = u \<and> q mod 2 = 1 then q + 1 else q)"

definition one_decimal :: "64 word \<Rightarrow> 64 word \<Rightarrow> string" where
  "one_decimal bytes unit = show_nat (tenths bytes unit div 10) @ ''.'' @ show_nat (tenths bytes unit mod 10)"

definition KB :: "64 word" where "KB = 1024"

definition MB :: "64 word" where "MB = 1024 * 1024"

definition GB :: "64 word" where "GB = 1024 * 1024 * 1024"

definition humanize_bytes :: "64 word \<Rightarrow> string" where
  "humanize_bytes bytes =
     (if bytes < KB then show_nat (unat bytes) @ '' B''
      else if bytes < MB then one_decimal bytes KB @ '' KB''
      else if bytes < GB then one_decimal bytes MB @ '' MB''
      else one_decimal bytes GB @ '' GB'')"

subsection \<open>Checks\<close>

record doctor_env =
  dc_secret :: secret_env
  dc_build :: build_env
  dc_names :: "path \<Rightarrow> string list"
  dc_debug :: "string \<Rightarrow> string"

text \<open>A check: whether it passed and what it printed.\<close>

type_synonym check = "bool \<times> string list"

definition then_check :: "check \<Rightarrow> check \<Rightarrow> check" where
  "then_check a b = (fst a \<and> fst b, snd a @ snd b)"

definition check_kvm :: "host \<Rightarrow> io_error + unit" where
  "check_kvm h =
     (case entry h ''/dev/kvm'' of
        None \<Rightarrow> Inl (Io_not_found, ''No such file or directory'')
      | Some (Regular m r c) \<Rightarrow> if r then Inr () else Inl (Io_other, ''Permission denied'')
      | Some Directory \<Rightarrow> Inr ())"

definition kvm_check :: "host \<Rightarrow> check" where
  "kvm_check h =
     (case check_kvm h of
        Inr _ \<Rightarrow> (True, [''[ok]   kvm: /dev/kvm accessible''])
      | Inl (kind, e) \<Rightarrow>
          if kind = Io_not_found
          then (False, [''[err]  kvm: not found'', ''       enable KVM in your kernel or BIOS settings''])
          else (False, [''[err]  kvm: exists but not accessible: '' @ e,
                        ''       add your user to the kvm group: sudo usermod -aG kvm $USER'']))"

definition LIB_PATHS :: "path list" where
  "LIB_PATHS = [''/usr/lib'', ''/usr/lib64'', ''/usr/local/lib'', ''/usr/lib/x86_64-linux-gnu'', ''/usr/lib/aarch64-linux-gnu'']"

definition find_lib :: "host \<Rightarrow> string \<Rightarrow> path option" where
  "find_lib h name = find (\<lambda>dir. path_exists h (dir @ ''/'' @ name)) LIB_PATHS"

definition lib_check :: "host \<Rightarrow> string \<Rightarrow> check" where
  "lib_check h lib =
     (case find_lib h (lib @ ''.so'') of
        Some dir \<Rightarrow> (True, [''[ok]   '' @ lib @ '': '' @ dir @ ''/'' @ lib @ ''.so''])
      | None \<Rightarrow> (False, [''[err]  '' @ lib @ '': not found'', ''       install '' @ lib @ '' from your distro packages'']))"

definition images_lines :: "string list \<Rightarrow> string list" where
  "images_lines images =
     (if images = []
      then [''[warn] images: none'',
            ''       create one with: redan image create dev --packages '' @ [CHR 0x27] @ ''curl ca-certificates'' @ [CHR 0x27]]
      else [''[ok]   images: '' @ join '', '' images])"

definition freshness_lines :: "build_env \<Rightarrow> host \<Rightarrow> string \<Rightarrow> exit + string list" where
  "freshness_lines env h name =
     bindR (image_path h name) (\<lambda>r. Inr (case r of
         Inl e \<Rightarrow> []
       | Inr p \<Rightarrow>
           (case Option.bind (load_image_meta env h p) (age_days env) of
              Some days \<Rightarrow>
                if days > 30
                then [''[warn] image '' @ name @ '': '' @ show_nat days @ '' days old'', ''       run: redan image update '' @ name]
                else []
            | None \<Rightarrow> [])))"

fun all_freshness :: "build_env \<Rightarrow> host \<Rightarrow> string list \<Rightarrow> exit + string list" where
  "all_freshness env h [] = Inr []"
| "all_freshness env h (name # names) =
     bindR (freshness_lines env h name) (\<lambda>ls. bindR (all_freshness env h names) (\<lambda>rest. Inr (ls @ rest)))"

definition image_check :: "host \<Rightarrow> string option \<Rightarrow> exit + check" where
  "image_check h check_image =
     (case check_image of
        None \<Rightarrow> Inr (True, [])
      | Some name \<Rightarrow>
          bindR (image_path h name) (\<lambda>r. Inr (case r of
              Inr p \<Rightarrow>
                if path_exists h p then (True, [''[ok]   image '' @ name @ '': found''])
                else (False, [''[err]  image '' @ name @ '': not found'',
                              ''       run: redan image create '' @ name @ '' --packages '' @ [CHR 0x27] @ ''...'' @ [CHR 0x27]])
            | Inl e \<Rightarrow> (False, [''[err]  image '' @ name @ '': '' @ snd e]))))"

definition api_key_lines :: "host \<Rightarrow> string list \<Rightarrow> string list" where
  "api_key_lines h images =
     (if \<not> List.member images ''claude-code'' then []
      else if (case env_var h ''ANTHROPIC_API_KEY'' of Some v \<Rightarrow> v \<noteq> [] | None \<Rightarrow> False)
      then [''[ok]   ANTHROPIC_API_KEY: set'']
      else [''[warn] ANTHROPIC_API_KEY: not set'',
            ''       needed for zero-config Claude Code: export ANTHROPIC_API_KEY=sk-ant-...''])"

definition chrome_lines :: "host \<Rightarrow> string list" where
  "chrome_lines h =
     (case find_chrome h of
        Some p \<Rightarrow> [''[ok]   chrome: '' @ p]
      | None \<Rightarrow> [''[info] chrome: not found (optional, needed for --browser)''])"

subsection \<open>Secrets\<close>

fun show_provider_error :: "provider_error \<Rightarrow> string" where
  "show_provider_error (Invalid_input s) = s"
| "show_provider_error (Not_found s) = s"
| "show_provider_error (Invalid_data s) = s"
| "show_provider_error (Other_error s) = s"

fun show_secret_error :: "(string \<Rightarrow> string) \<Rightarrow> secret_error \<Rightarrow> string" where
  "show_secret_error debug (Has_crlf name) = ''secret for '' @ name @ '' contains CR/LF (header injection risk)''"
| "show_secret_error debug (Wildcard_host name host) =
     ''secret for '' @ name @ '' has wildcard host '' @ debug host
     @ ''; secret hosts must be exact hostnames (injection matches the TLS SNI exactly, not by wildcard)''"
| "show_secret_error debug (Random_failed e) = ''failed to generate placeholder: '' @ e"

fun show_spec_error :: "(string \<Rightarrow> string) \<Rightarrow> spec_error \<Rightarrow> string" where
  "show_spec_error debug No_hosts = ''expected ENV_VAR=value:hosts''"
| "show_spec_error debug No_equals = ''expected ENV_VAR=value''"
| "show_spec_error debug Empty_part = ''empty env name, value, or hosts''"
| "show_spec_error debug Name_too_long = ''env name too long (max 256 bytes)''"
| "show_spec_error debug (Unresolved e) = ''failed to resolve secret: '' @ show_provider_error e"
| "show_spec_error debug (Bad_binding e) = show_secret_error debug e"

definition secret_check :: "doctor_env \<Rightarrow> nat \<Rightarrow> string \<Rightarrow> check" where
  "secret_check env i spec =
     (let env_label = (case split_once (CHR ''='') spec of Some (name, _) \<Rightarrow> name | None \<Rightarrow> ''(invalid)'')
      in case parse_secret (dc_secret env) i spec of
           Inr (env_name, binding) \<Rightarrow>
             (True, [''[ok]   '' @ env_name @ '': '' @ (if str_contains spec ''vault://'' then ''vault'' else ''literal'')
                     @ ''  hosts: '' @ join '', '' (allowed_hosts binding)])
         | Inl e \<Rightarrow> (False, [''[err]  '' @ env_label @ '': '' @ show_spec_error (dc_debug env) e]))"

fun secret_checks :: "doctor_env \<Rightarrow> nat \<Rightarrow> string list \<Rightarrow> check" where
  "secret_checks env i [] = (True, [])"
| "secret_checks env i (spec # specs) = then_check (secret_check env i spec) (secret_checks env (Suc i) specs)"

text \<open>The exit status and the printed lines.\<close>

definition doctor :: "doctor_env \<Rightarrow> host \<Rightarrow> string list \<Rightarrow> string option \<Rightarrow> exit + nat \<times> string list" where
  "doctor env h specs check_image =
     bindR (list_images (dc_names env) h) (\<lambda>images.
     bindR (all_freshness (dc_build env) h images) (\<lambda>fresh.
     bindR (image_check h check_image) (\<lambda>image.
     bindR (image_dir h) (\<lambda>dir.
       let (ok, ls) = then_check (kvm_check h)
             (then_check (lib_check h ''libkrun'')
             (then_check (lib_check h ''libkrunfw'')
             (then_check (True, images_lines images @ fresh)
             (then_check image
             (then_check (True, api_key_lines h images @ chrome_lines h)
             (then_check (secret_checks env 0 specs) (True, [''[info] image dir: '' @ dir])))))))
       in Inr (if ok then (0, ls @ [[CHR 0x0A] @ ''ready to go'']) else (1, ls @ [[CHR 0x0A] @ ''some checks failed'']))))))"

subsection \<open>Properties\<close>

text \<open>Two environments whose secrets resolve alike: the same references fail, with the same errors, and a
  value has a line break in both or in neither. The values themselves may differ.\<close>

definition same_outcome :: "secret_env \<Rightarrow> secret_env \<Rightarrow> bool" where
  "same_outcome e1 e2 \<longleftrightarrow> same_public e1 e2
     \<and> (\<forall>r. case (se_resolve e1 r, se_resolve e2 r) of
          (Inl a, Inl b) \<Rightarrow> a = b
        | (Inr a, Inr b) \<Rightarrow> (CHR 0x0D \<in> set a \<or> CHR 0x0A \<in> set a) = (CHR 0x0D \<in> set b \<or> CHR 0x0A \<in> set b)
        | _ \<Rightarrow> False)"

lemma new_binding_outcome:
  assumes "(CHR 0x0D \<in> set v1 \<or> CHR 0x0A \<in> set v1) = (CHR 0x0D \<in> set v2 \<or> CHR 0x0A \<in> set v2)"
  shows "case (new_binding to_lower rnd name v1 hs, new_binding to_lower rnd name v2 hs) of
      (Inl a, Inl b) \<Rightarrow> a = b
    | (Inr b1, Inr b2) \<Rightarrow> allowed_hosts b1 = hs \<and> allowed_hosts b2 = hs
    | _ \<Rightarrow> False"
  using assms by (cases "find (\<lambda>h. CHR ''*'' \<in> set h) hs"; cases rnd) (auto simp: new_binding_def)

lemma parse_secret_outcome:
  assumes "same_outcome e1 e2"
  shows "case (parse_secret e1 i spec, parse_secret e2 i spec) of
      (Inl a, Inl b) \<Rightarrow> a = b
    | (Inr (n1, b1), Inr (n2, b2)) \<Rightarrow> n1 = n2 \<and> allowed_hosts b1 = allowed_hosts b2
    | _ \<Rightarrow> False"
proof (cases "rsplit_once (CHR '':'') spec")
  case (Some nh)
  obtain nv hosts where nh: "nh = (nv, hosts)" by (cases nh)
  have pub: "se_lower e1 = se_lower e2" "se_random e1 = se_random e2" using assms by (simp_all add: same_outcome_def same_public_def)
  show ?thesis
  proof (cases "split_once (CHR ''='') nv")
    case (Some er)
    obtain name ref where er: "er = (name, ref)" by (cases er)
    let ?hs = "map str_trim (split_on (CHR '','') hosts)"
    have r: "case (se_resolve e1 ref, se_resolve e2 ref) of
          (Inl a, Inl b) \<Rightarrow> a = b
        | (Inr a, Inr b) \<Rightarrow> (CHR 0x0D \<in> set a \<or> CHR 0x0A \<in> set a) = (CHR 0x0D \<in> set b \<or> CHR 0x0A \<in> set b)
        | _ \<Rightarrow> False" using assms by (simp add: same_outcome_def)
    show ?thesis
    proof (cases "se_resolve e1 ref")
      case (Inl a)
      then show ?thesis using r nh Some er \<open>rsplit_once (CHR '':'') spec = Some nh\<close>
        by (cases "se_resolve e2 ref") (auto simp: parse_secret_def map_err_def bindR_def)
    next
      case v1: (Inr v1)
      then obtain v2 where v2: "se_resolve e2 ref = Inr v2" using r by (cases "se_resolve e2 ref") auto
      note nb = new_binding_outcome[of v1 v2, where to_lower = "se_lower e2" and rnd = "se_random e2 i" and name = name and hs = ?hs]
      show ?thesis using nb r v1 v2 nh Some er pub \<open>rsplit_once (CHR '':'') spec = Some nh\<close>
        by (cases "new_binding (se_lower e2) (se_random e2 i) name v1 ?hs"; cases "new_binding (se_lower e2) (se_random e2 i) name v2 ?hs")
           (auto simp: parse_secret_def map_err_def bindR_def)
    qed
  qed (use nh \<open>rsplit_once (CHR '':'') spec = Some nh\<close> in \<open>simp add: parse_secret_def bindR_def\<close>)
qed (simp add: parse_secret_def bindR_def)

lemma secret_checks_outcome:
  assumes "same_outcome (dc_secret e1) (dc_secret e2)" "dc_debug e1 = dc_debug e2"
  shows "secret_checks e1 i specs = secret_checks e2 i specs"
proof (induction specs arbitrary: i)
  case (Cons spec specs)
  have "secret_check e1 i spec = secret_check e2 i spec"
    using parse_secret_outcome[OF assms(1), of i spec] assms(2)
    by (cases "parse_secret (dc_secret e1) i spec"; cases "parse_secret (dc_secret e2) i spec")
       (auto simp: secret_check_def Let_def)
  then show ?case using Cons by simp
qed simp

text \<open>
  \<^verbatim>\<open>redan doctor\<close> shows no secret. Two runs on the same machine whose secrets differ in
  their values only, resolved or failing alike, print the same lines and exit with the same status; so
  what is printed about a secret is its name, its kind, its hosts and the reason it is refused.
\<close>
lemma doctor_hides_values:
  assumes "same_outcome s1 s2"
  shows "doctor (env\<lparr>dc_secret := s1\<rparr>) h specs img = doctor (env\<lparr>dc_secret := s2\<rparr>) h specs img"
  using secret_checks_outcome[of "env\<lparr>dc_secret := s1\<rparr>" "env\<lparr>dc_secret := s2\<rparr>"] assms
  by (simp add: doctor_def)

definition demo_outcome :: "string \<Rightarrow> secret_env" where
  "demo_outcome v = \<lparr>se_resolve = (\<lambda>r. if r = ''env://K'' then Inr v else Inl (Not_found r)), se_lower = to_ascii_lowercase,
     se_random = (\<lambda>_. Inr ''ab'')\<rparr>"

text \<open>A secret from the environment is reported as a literal.\<close>

lemma env_secret_called_literal:
  assumes "parse_secret (dc_secret env) i spec = Inr (name, b)" "\<not> str_contains spec ''vault://''"
  shows "secret_check env i spec = (True, [''[ok]   '' @ name @ '': literal  hosts: '' @ join '', '' (allowed_hosts b)])"
  using assms by (simp add: secret_check_def Let_def)

subsection \<open>Rounding\<close>

lemma half_even:
  fixes s u :: nat
  assumes "0 < u" and t: "t = (if s mod u * 2 > u \<or> s mod u * 2 = u \<and> s div u mod 2 = 1 then s div u + 1 else s div u)"
  shows "2 * \<bar>int s - int (t * u)\<bar> \<le> int u \<and> (2 * \<bar>int s - int (t * u)\<bar> = int u \<longrightarrow> even t)"
proof -
  obtain q r where s: "s = q * u + r" "r < u" "s div u = q" "s mod u = r"
    using assms(1) by (metis div_mult_mod_eq mod_less_divisor)
  show ?thesis
  proof (cases "r * 2 > u \<or> r * 2 = u \<and> q mod 2 = 1")
    case True
    then have "t = q + 1" using t s by simp
    then have "int s - int (t * u) = int r - int u" using s(1) by (simp add: algebra_simps)
    moreover have "r * 2 = u \<Longrightarrow> even t" using True \<open>t = q + 1\<close> by (metis less_irrefl odd_even_add odd_iff_mod_2_eq_one odd_one)
    ultimately show ?thesis using True s(2) by auto
  next
    case False
    then have "t = q" using t s by simp
    then have "int s - int (t * u) = int r" using s(1) by simp
    moreover have "r * 2 = u \<Longrightarrow> even t" using False \<open>t = q\<close> by (auto simp: even_iff_mod_2_eq_zero)
    ultimately show ?thesis using False by auto
  qed
qed

lemma one_decimal_nearest:
  assumes "0 < unat unit"
  obtains t where "one_decimal bytes unit = show_nat (t div 10) @ ''.'' @ show_nat (t mod 10)"
    "2 * \<bar>int (10 * unat bytes) - int (t * unat unit)\<bar> \<le> int (unat unit)"
    "2 * \<bar>int (10 * unat bytes) - int (t * unat unit)\<bar> = int (unat unit) \<Longrightarrow> even t"
proof -
  have "tenths bytes unit = (let s = 10 * unat bytes; u = unat unit
      in if s mod u * 2 > u \<or> s mod u * 2 = u \<and> s div u mod 2 = 1 then s div u + 1 else s div u)"
    by (simp add: tenths_def Let_def mult.commute)
  from half_even[OF assms this[unfolded Let_def]] show thesis using that[of "tenths bytes unit"] by (simp only: one_decimal_def)
qed

text \<open>
  A size is shown to the nearest tenth of its unit. Below 1024 bytes the number of bytes is shown;
  from there on the unit is the largest of KB, MB and GB that the size reaches, and the number shown is \<open>t\<close>
  tenths of it where \<open>t\<close> is nearest to ten times the size, even on a tie. This holds up to the largest
  64-bit size: nothing overflows.
\<close>
lemma humanize_nearest:
  "(unat bytes < 1024 \<and> humanize_bytes bytes = show_nat (unat bytes) @ '' B'')
   \<or> (\<exists>unit suffix t. (unit, suffix) \<in> set [(2 ^ 10, '' KB''), (2 ^ 20, '' MB''), (2 ^ 30, '' GB'')]
        \<and> unit \<le> unat bytes \<and> (unit = 2 ^ 30 \<or> unat bytes < 1024 * unit)
        \<and> humanize_bytes bytes = show_nat (t div 10) @ ''.'' @ show_nat (t mod 10) @ suffix
        \<and> 2 * \<bar>int (10 * unat bytes) - int (t * unit)\<bar> \<le> int unit
        \<and> (if 2 * \<bar>int (10 * unat bytes) - int (t * unit)\<bar> = int unit then even t else True))"
proof -
  have units: "unat KB = 2 ^ 10" "unat MB = 2 ^ 20" "unat GB = 2 ^ 30" by (simp_all add: KB_def MB_def GB_def)
  have lt: "bytes < KB \<longleftrightarrow> unat bytes < 2 ^ 10" "bytes < MB \<longleftrightarrow> unat bytes < 2 ^ 20" "bytes < GB \<longleftrightarrow> unat bytes < 2 ^ 30"
    unfolding word_less_nat_alt units by (rule refl)+
  have one: "\<exists>t. one_decimal bytes unit @ suffix = show_nat (t div 10) @ ''.'' @ show_nat (t mod 10) @ suffix
        \<and> 2 * \<bar>int (10 * unat bytes) - int (t * u)\<bar> \<le> int u
        \<and> (if 2 * \<bar>int (10 * unat bytes) - int (t * u)\<bar> = int u then even t else True)"
    if "unat unit = u" "0 < u" for unit u suffix
    using one_decimal_nearest[of unit bytes] that by (metis append_assoc)
  consider "unat bytes < 2 ^ 10" | "2 ^ 10 \<le> unat bytes" "unat bytes < 2 ^ 20" | "2 ^ 20 \<le> unat bytes" "unat bytes < 2 ^ 30"
    | "2 ^ 30 \<le> unat bytes" by linarith
  then show ?thesis
  proof cases
    case 1
    then show ?thesis using lt by (simp add: humanize_bytes_def)
  next
    case 2
    then have h: "humanize_bytes bytes = one_decimal bytes KB @ '' KB''" using lt by (simp add: humanize_bytes_def)
    obtain t where "humanize_bytes bytes = show_nat (t div 10) @ ''.'' @ show_nat (t mod 10) @ '' KB''"
        "2 * \<bar>int (10 * unat bytes) - int (t * 2 ^ 10)\<bar> \<le> int (2 ^ 10)"
        "if 2 * \<bar>int (10 * unat bytes) - int (t * 2 ^ 10)\<bar> = int (2 ^ 10) then even t else True"
      using one[OF units(1), of "'' KB''"] unfolding h by auto
    then show ?thesis using 2 by (intro disjI2 exI[of _ "2 ^ 10"] exI[of _ "'' KB''"] exI[of _ t]) simp
  next
    case 3
    then have h: "humanize_bytes bytes = one_decimal bytes MB @ '' MB''" using lt by (simp add: humanize_bytes_def)
    obtain t where "humanize_bytes bytes = show_nat (t div 10) @ ''.'' @ show_nat (t mod 10) @ '' MB''"
        "2 * \<bar>int (10 * unat bytes) - int (t * 2 ^ 20)\<bar> \<le> int (2 ^ 20)"
        "if 2 * \<bar>int (10 * unat bytes) - int (t * 2 ^ 20)\<bar> = int (2 ^ 20) then even t else True"
      using one[OF units(2), of "'' MB''"] unfolding h by auto
    then show ?thesis using 3 by (intro disjI2 exI[of _ "2 ^ 20"] exI[of _ "'' MB''"] exI[of _ t]) simp
  next
    case 4
    then have h: "humanize_bytes bytes = one_decimal bytes GB @ '' GB''" using lt by (simp add: humanize_bytes_def)
    obtain t where "humanize_bytes bytes = show_nat (t div 10) @ ''.'' @ show_nat (t mod 10) @ '' GB''"
        "2 * \<bar>int (10 * unat bytes) - int (t * 2 ^ 30)\<bar> \<le> int (2 ^ 30)"
        "if 2 * \<bar>int (10 * unat bytes) - int (t * 2 ^ 30)\<bar> = int (2 ^ 30) then even t else True"
      using one[OF units(3), of "'' GB''"] unfolding h by auto
    then show ?thesis using 4 by (intro disjI2 exI[of _ "2 ^ 30"] exI[of _ "'' GB''"] exI[of _ t]) simp
  qed
qed

end
