(* ===== verification/Templates.thy ===== *)
theory Templates
  imports Config
begin

text \<open>
  The files that \<^verbatim>\<open>src/src/templates.rs\<close> renders: each definition is one template of
  \<^verbatim>\<open>src/templates\<close> with its white-space control carried out. No template escapes its values
  (the engine does so only for names that end like HTML, XML, JSON, JavaScript or YAML, and the one
  JSON template has no values), and the newline at the end of a template is dropped.
\<close>

definition nl :: string where
  "nl = [CHR 0x0A]"

definition quoted :: "string \<Rightarrow> string" where
  "quoted s = [CHR 0x22] @ s @ [CHR 0x22]"

text \<open>An absent value is printed as \<^verbatim>\<open>none\<close>.\<close>

definition shown :: "string option \<Rightarrow> string" where
  "shown v = (case v of Some s \<Rightarrow> s | None \<Rightarrow> ''none'')"

definition toml_head :: "config \<Rightarrow> bool \<Rightarrow> string" where
  "toml_head cfg claude =
     ''# redan.toml -- generated by `redan init`'' @ nl @ ''# See: https://github.com/getredan/redan'' @ nl @ nl
     @ ''image = '' @ quoted (shown (cfg_image cfg))
     @ (if claude
        then nl @ ''# Remove --dangerously-skip-permissions to re-enable Claude's'' @ nl
             @ ''# built-in permission prompts inside the VM.'' else [])
     @ nl @ ''command = '' @ quoted (shown (cfg_command cfg))
     @ (if cfg_interactive cfg = Some True then nl @ ''interactive = true'' else [])
     @ (case cfg_timeout cfg of
          Some t \<Rightarrow> if t \<noteq> 0 then nl @ ''timeout = '' @ show_nat (unat t) else [] | None \<Rightarrow> [])"

definition toml_network :: "config \<Rightarrow> bool \<Rightarrow> string" where
  "toml_network cfg claude =
     nl @ nl @ ''[network]'' @ nl
     @ (if claude
        then ''# Hosts Claude Code needs to function. Add project-specific'' @ nl
             @ ''# API hosts here. Remove any you don't need.''
        else ''# Allowed outbound hosts. Empty = deny all, ['' @ quoted ''*'' @ ''] = allow all.'')
     @ nl @ ''allow = ['' @ concat (map (\<lambda>h. nl @ ''    '' @ quoted h @ '','') (net_allow (cfg_network cfg))) @ nl @ '']''
     @ (if net_forward (cfg_network cfg) \<noteq> []
        then nl @ ''# TCP port forwards (guest -> host localhost).'' @ nl
             @ ''# Format: '' @ quoted ''PORT'' @ '' or '' @ quoted ''GUEST_PORT:HOST_PORT'' @ nl @ ''forward = [''
             @ concat (map (\<lambda>f. nl @ ''    '' @ quoted f @ '','') (net_forward (cfg_network cfg))) @ nl @ '']'' else [])"

text \<open>The read-only flag of a mount is not rendered.\<close>

definition toml_mount :: "string \<times> mount_config \<Rightarrow> string" where
  "toml_mount e =
     (case e of (tag, m) \<Rightarrow>
        nl @ nl @ ''[mount.'' @ tag @ '']'' @ nl @ ''source = '' @ quoted (mc_source m)
        @ (case mc_target m of Some t \<Rightarrow> if t \<noteq> [] then nl @ ''target = '' @ quoted t else [] | None \<Rightarrow> []))"

definition toml_identity :: string where
  "toml_identity =
     nl @ nl @ ''# Git and SSH identity (not mounted by default).'' @ nl
     @ ''# These are writable by the guest because virtio-fs via libkrun'' @ nl
     @ ''# doesn't support read-only mounts. Only uncomment if you trust'' @ nl
     @ ''# the commands running inside the VM.'' @ nl @ ''#'' @ nl
     @ ''# [mount.gitconfig]'' @ nl @ ''# source = '' @ quoted ''~/.gitconfig'' @ nl
     @ ''# target = '' @ quoted ''/home/dev/.gitconfig'' @ nl @ ''#'' @ nl
     @ ''# [mount.ssh]'' @ nl @ ''# source = '' @ quoted ''~/.ssh'' @ nl @ ''# target = '' @ quoted ''/home/dev/.ssh''"

definition toml_env :: "config \<Rightarrow> bool \<Rightarrow> string" where
  "toml_env cfg claude =
     (if cfg_env cfg = [] then []
      else nl @ nl @ ''[env]''
           @ (if claude
              then nl @ ''# CLAUDE_CONFIG_DIR in the workspace mount persists sessions'' @ nl
                   @ ''# across redan restarts (conversation history, preferences).'' else [])
           @ concat (map (\<lambda>(key, v). nl @ key @ '' = '' @ quoted v) (cfg_env cfg)))"

definition redan_toml :: "config \<Rightarrow> bool \<Rightarrow> string" where
  "redan_toml cfg claude =
     toml_head cfg claude @ toml_network cfg claude @ concat (map toml_mount (cfg_mount cfg)) @ toml_identity @ toml_env cfg claude"

definition claude_dockerfile :: "string \<Rightarrow> string list \<Rightarrow> bool \<Rightarrow> bool \<Rightarrow> string" where
  "claude_dockerfile base_image apt_packages needs_node has_python =
     ''FROM '' @ base_image @ nl @ nl
     @ ''RUN apt-get update && apt-get install -y --no-install-recommends '' @ [CHR 0x5C] @ nl @ ''    ''
     @ join ('' '' @ [CHR 0x5C] @ nl @ ''    '') apt_packages @ '' '' @ [CHR 0x5C] @ nl
     @ ''    && rm -rf /var/lib/apt/lists/*'' @ nl
     @ (if needs_node
        then nl @ ''# Node.js (for Claude Code)'' @ nl @ ''ARG NODE_MAJOR=22'' @ nl
             @ ''RUN curl -fsSL https://deb.nodesource.com/setup_${NODE_MAJOR}.x | bash - '' @ [CHR 0x5C] @ nl
             @ ''    && apt-get install -y --no-install-recommends nodejs '' @ [CHR 0x5C] @ nl
             @ ''    && rm -rf /var/lib/apt/lists/*'' @ nl else [])
     @ nl @ ''# Claude Code'' @ nl @ ''RUN npm install -g @anthropic-ai/claude-code'' @ nl
     @ (if has_python
        then nl @ ''# uv (Python package manager)'' @ nl
             @ ''COPY --from=ghcr.io/astral-sh/uv:0.9 /uv /uvx /usr/local/bin/'' @ nl else [])
     @ nl @ ''# Non-root user'' @ nl @ ''RUN groupadd --gid 1000 dev '' @ [CHR 0x5C] @ nl
     @ ''    && useradd --uid 1000 --gid 1000 -m -s /bin/bash dev '' @ [CHR 0x5C] @ nl
     @ ''    && mkdir -p /workspace && chown dev:dev /workspace'' @ nl @ nl
     @ ''USER dev'' @ nl @ ''WORKDIR /workspace'' @ nl @ ''CMD ['' @ quoted ''claude'' @ '']''"

definition devcontainer_json :: string where
  "devcontainer_json =
     ''{'' @ nl @ ''  '' @ quoted ''name'' @ '': '' @ quoted ''redan-claude'' @ '','' @ nl
     @ ''  '' @ quoted ''build'' @ '': {'' @ nl
     @ ''    '' @ quoted ''dockerfile'' @ '': '' @ quoted ''Dockerfile'' @ '','' @ nl
     @ ''    '' @ quoted ''context'' @ '': '' @ quoted ''../..'' @ nl @ ''  },'' @ nl
     @ ''  '' @ quoted ''remoteUser'' @ '': '' @ quoted ''dev'' @ '','' @ nl
     @ ''  '' @ quoted ''workspaceFolder'' @ '': '' @ quoted ''/workspace'' @ nl @ ''}''"

end
