(* ===== verification/Init.thy ===== *)
theory Init
  imports Trust Image Templates
begin

text \<open>
  \<^verbatim>\<open>redan init\<close>, \<^verbatim>\<open>src/src/cmd/init.rs\<close>: the project types that are recognised by their files, the
  packages read from a Dockerfile, the configuration that is generated, and the files that are written.
  Relative paths are the entries of the working directory; the progress messages are not
  modelled, the next steps are.
\<close>

record detection =
  pd_description :: string
  pd_hosts :: "string list"
  pd_packages :: "string list"
  pd_devcontainer :: "path option"

subsection \<open>Packages of a Dockerfile\<close>

text \<open>\<^verbatim>\<open>split("&&")\<close>.\<close>

fun split_and :: "string \<Rightarrow> string \<Rightarrow> string list" where
  "split_and cur [] = [cur]"
| "split_and cur [c] = [cur @ [c]]"
| "split_and cur (c # d # cs) =
     (if c = CHR ''&'' \<and> d = CHR ''&'' then cur # split_and [] cs else split_and (cur @ [c]) (d # cs))"

definition skipped_word :: "string \<Rightarrow> bool" where
  "skipped_word w \<longleftrightarrow> prefix ''-'' w \<or> prefix [CHR 0x5C] w \<or> w = ''&&'' \<or> CHR ''='' \<in> set w \<or> CHR ''/'' \<in> set w \<or> CHR ''>'' \<in> set w"

definition command_packages :: "string \<Rightarrow> string list" where
  "command_packages cmd =
     (case dropWhile (\<lambda>w. w \<noteq> ''install'' \<and> w \<noteq> ''add'') (split_whitespace (str_trim cmd)) of
        [] \<Rightarrow> []
      | w # ws \<Rightarrow> filter (\<lambda>w. \<not> skipped_word w) ws)"

definition parse_dockerfile_packages :: "string \<Rightarrow> string list" where
  "parse_dockerfile_packages line = concat (map command_packages (split_and [] line))"

definition run_line :: "string \<Rightarrow> string option" where
  "run_line line =
     (let trimmed = str_trim line
      in case strip_prefix ''RUN '' trimmed of
           Some rest \<Rightarrow> Some rest
         | None \<Rightarrow> strip_prefix (''RUN'' @ [CHR 0x09]) trimmed)"

subsection \<open>Detecting the project\<close>

definition RULES :: "(path \<times> string \<times> string list \<times> string list) list" where
  "RULES =
     [(''package.json'', ''Node.js (package.json)'', [''registry.npmjs.org''], [''nodejs'', ''npm'']),
      (''yarn.lock'', ''Yarn (yarn.lock)'', [''registry.yarnpkg.com'', ''registry.npmjs.org''], [''nodejs'', ''npm'']),
      (''pnpm-lock.yaml'', ''pnpm (pnpm-lock.yaml)'', [''registry.npmjs.org''], [''nodejs'', ''npm'']),
      (''requirements.txt'', ''Python (requirements.txt)'', [''pypi.org'', ''files.pythonhosted.org''], [''python3'', ''py3-pip'']),
      (''pyproject.toml'', ''Python (pyproject.toml)'', [''pypi.org'', ''files.pythonhosted.org''], [''python3'', ''py3-pip'']),
      (''Cargo.toml'', ''Rust (Cargo.toml)'', [''crates.io'', ''static.crates.io''], [''cargo'', ''rust'']),
      (''go.mod'', ''Go (go.mod)'', [''proxy.golang.org'', ''sum.golang.org''], [''go'']),
      (''Gemfile'', ''Ruby (Gemfile)'', [''rubygems.org''], [''ruby'']),
      (''composer.json'', ''PHP (composer.json)'', [''repo.packagist.org''], [''php'', ''composer'']),
      (''pubspec.yaml'', ''Flutter/Dart (pubspec.yaml)'', [''pub.dev'', ''storage.googleapis.com''], []),
      (''pom.xml'', ''Java (pom.xml)'', [''repo1.maven.org''], [''openjdk21-jdk'', ''maven'']),
      (''build.gradle'', ''Java/Kotlin (build.gradle)'', [''services.gradle.org'', ''plugins.gradle.org'', ''repo1.maven.org''], [''openjdk21-jdk'']),
      (''build.gradle.kts'', ''Kotlin (build.gradle.kts)'', [''services.gradle.org'', ''plugins.gradle.org'', ''repo1.maven.org''], [''openjdk21-jdk'']),
      (''Package.swift'', ''Swift (Package.swift)'', [], []),
      (''mix.exs'', ''Elixir (mix.exs)'', [''hex.pm'', ''repo.hex.pm''], [''elixir''])]"

definition rule_detections :: "host \<Rightarrow> detection list" where
  "rule_detections h =
     List.map_filter (\<lambda>(file, desc, hosts, pkgs).
       if path_exists h file
       then Some \<lparr>pd_description = desc, pd_hosts = hosts, pd_packages = pkgs, pd_devcontainer = None\<rparr> else None) RULES"

definition devcontainer_detection :: "host \<Rightarrow> detection option" where
  "devcontainer_detection h =
     map_option (\<lambda>p. \<lparr>pd_description = ''devcontainer ('' @ p @ '')'', pd_hosts = [], pd_packages = [], pd_devcontainer = Some p\<rparr>)
       (find (path_exists h) [''.devcontainer/devcontainer.json'', ''.devcontainer.json''])"

definition DOCKERFILES :: "path list" where
  "DOCKERFILES = [''Dockerfile'', ''dockerfile'', ''Containerfile'']"

definition dockerfile_detection :: "host \<Rightarrow> detection option" where
  "dockerfile_detection h =
     map_option (\<lambda>name. \<lparr>pd_description = ''Dockerfile ('' @ name @ '')'', pd_hosts = [],
         pd_packages = (case read_to_string h name of
             None \<Rightarrow> []
           | Some content \<Rightarrow> concat (map parse_dockerfile_packages (List.map_filter run_line (str_lines content)))),
         pd_devcontainer = None\<rparr>)
       (find (path_exists h) DOCKERFILES)"

definition remote_detection :: "host \<Rightarrow> detection option" where
  "remote_detection h =
     (case read_to_string h ''.git/config'' of
        None \<Rightarrow> None
      | Some git_config \<Rightarrow>
          if str_contains git_config ''github.com''
          then Some \<lparr>pd_description = ''GitHub remote'', pd_hosts = [''github.com'', ''api.github.com''], pd_packages = [], pd_devcontainer = None\<rparr>
          else if str_contains git_config ''gitlab.com''
          then Some \<lparr>pd_description = ''GitLab remote'', pd_hosts = [''gitlab.com''], pd_packages = [], pd_devcontainer = None\<rparr>
          else None)"

definition opt_list :: "'a option \<Rightarrow> 'a list" where
  "opt_list v = (case v of None \<Rightarrow> [] | Some x \<Rightarrow> [x])"

definition detect_project :: "host \<Rightarrow> detection list" where
  "detect_project h =
     rule_detections h
     @ (case devcontainer_detection h of Some d \<Rightarrow> [d] | None \<Rightarrow> opt_list (dockerfile_detection h))
     @ opt_list (remote_detection h)"

subsection \<open>The generated configuration\<close>

text \<open>\<^verbatim>\<open>Path::file_name\<close>.\<close>

definition file_name :: "path \<Rightarrow> string option" where
  "file_name p = (case components p of [] \<Rightarrow> None | cs \<Rightarrow> if last cs = ''..'' then None else Some (last cs))"

definition image_name_of :: "host \<Rightarrow> string" where
  "image_name_of h =
     (case map_option from_utf8_lossy (Option.bind (cwd h) file_name) of Some n \<Rightarrow> n | None \<Rightarrow> ''dev'')"

definition CLAUDE_HOSTS :: "string list" where
  "CLAUDE_HOSTS = [''api.anthropic.com'', ''statsig.anthropic.com'', ''sentry.io'', ''platform.claude.com'', ''raw.githubusercontent.com'']"

definition init_packages :: "detection list \<Rightarrow> string list" where
  "init_packages detections = add_missing [''curl'', ''ca-certificates'', ''git''] (concat (map pd_packages detections))"

definition init_config :: "bool \<Rightarrow> host \<Rightarrow> config" where
  "init_config claude h =
     (let hosts = add_missing [] (concat (map pd_hosts (detect_project h)));
          cfg = default_config\<lparr>cfg_image := Some (image_name_of h),
            cfg_mount := bt_insert ''workspace'' \<lparr>mc_source = ''.'', mc_target = Some ''/workspace'', mc_read_only = False\<rparr> []\<rparr>
      in if claude
         then cfg\<lparr>cfg_command := Some ''claude --dangerously-skip-permissions'', cfg_interactive := Some True,
                  cfg_env := bt_insert ''CLAUDE_CONFIG_DIR'' ''/home/dev/.claude'' [],
                  cfg_network := \<lparr>net_allow = add_missing hosts CLAUDE_HOSTS, net_forward = []\<rparr>\<rparr>
         else cfg\<lparr>cfg_command := Some ''/bin/sh'', cfg_network := \<lparr>net_allow = hosts, net_forward = []\<rparr>\<rparr>)"

subsection \<open>The devcontainer\<close>

definition has_project :: "detection list \<Rightarrow> string \<Rightarrow> bool" where
  "has_project detections name = list_ex (\<lambda>d. str_contains (pd_description d) name) detections"

definition base_image_for :: "detection list \<Rightarrow> string" where
  "base_image_for ds =
     (if has_project ds ''Python'' then ''python:3.13-trixie''
      else if has_project ds ''Node'' \<or> has_project ds ''Yarn'' \<or> has_project ds ''pnpm'' then ''node:22-bookworm''
      else if has_project ds ''Rust'' then ''rust:1-bookworm''
      else if has_project ds ''Go'' then ''golang:1.23-bookworm''
      else if has_project ds ''Ruby'' then ''ruby:3.3-bookworm''
      else ''debian:trixie'')"

definition NOT_APT :: "string list" where
  "NOT_APT = [''nodejs'', ''npm'', ''python3'', ''py3-pip'', ''cargo'', ''rust'', ''go'', ''ruby'', ''php'', ''composer'']"

definition apt_packages :: "string list \<Rightarrow> string list" where
  "apt_packages packages =
     sort_dedup (add_missing [''build-essential'', ''ca-certificates'', ''curl'', ''git'', ''iproute2'', ''make'']
       (filter (\<lambda>p. \<not> List.member NOT_APT p) packages))"

definition generated_dockerfile :: "detection list \<Rightarrow> string list \<Rightarrow> string" where
  "generated_dockerfile ds packages =
     (let base = base_image_for ds
      in claude_dockerfile base (apt_packages packages) (\<not> prefix ''node:'' base) (has_project ds ''Python''))"

definition write_claude_devcontainer :: "detection list \<Rightarrow> string list \<Rightarrow> host \<Rightarrow> exit + host" where
  "write_claude_devcontainer ds packages h =
     (let dir = ''.devcontainer/redan''
      in if path_exists h dir then Inr h
         else bindR (ok_or (create_dir_all h dir) (Exit 1 (''cannot create '' @ dir))) (\<lambda>h.
              bindR (ok_or (write_file h (path_join dir ''Dockerfile'') (generated_dockerfile ds packages)) (Exit 1 ''cannot write Dockerfile'')) (\<lambda>h.
                ok_or (write_file h (path_join dir ''devcontainer.json'') devcontainer_json) (Exit 1 ''cannot write devcontainer.json''))))"

subsection \<open>The command\<close>

definition next_steps :: "bool \<Rightarrow> detection list \<Rightarrow> string list \<Rightarrow> string \<Rightarrow> host \<Rightarrow> string" where
  "next_steps claude ds packages img h =
     (if claude then ''redan image import '' @ img @ '' --devcontainer .devcontainer/redan''
      else (case List.map_filter pd_devcontainer ds of
          dc # _ \<Rightarrow>
            ''redan image import '' @ img @ '' --devcontainer ''
            @ (if parent_path dc = [] then ''.'' else parent_path dc)
        | [] \<Rightarrow>
            (case find (path_exists h) DOCKERFILES of
               Some df \<Rightarrow> ''redan image import '' @ img @ '' --dockerfile '' @ df
             | None \<Rightarrow> ''redan image create '' @ img @ '' --packages '' @ [CHR 0x27] @ join '' '' packages @ [CHR 0x27])))"

definition init :: "bool \<Rightarrow> host \<Rightarrow> exit + string \<times> host" where
  "init claude h =
     (if path_exists h ''redan.toml'' then Inl (Exit 1 ''redan.toml already exists. Remove it first to re-initialize.'')
      else (let ds = detect_project h;
                packages = init_packages ds;
                cfg = init_config claude h
            in bindR (if claude then write_claude_devcontainer ds packages h else Inr h) (\<lambda>h.
               bindR (ok_or (write_file h ''redan.toml'' (redan_toml cfg claude)) (Exit 1 ''cannot write redan.toml'')) (\<lambda>h.
                 Inr (next_steps claude ds packages (image_name_of h) h, h)))))"

subsection \<open>What is written\<close>

definition DEVCONTAINER_PATHS :: "path list" where
  "DEVCONTAINER_PATHS = [''.devcontainer'', ''.devcontainer/redan'', ''.devcontainer/redan/Dockerfile'', ''.devcontainer/redan/devcontainer.json'']"

lemma write_claude_devcontainer_touches:
  assumes "write_claude_devcontainer ds packages h = Inr h'"
  shows "writable h' = writable h"
    "entry h' q = entry h q \<or> \<not> path_exists h ''.devcontainer/redan'' \<and> q \<in> set DEVCONTAINER_PATHS"
proof -
  have p: "path_join ''.devcontainer/redan'' ''Dockerfile'' = ''.devcontainer/redan/Dockerfile''"
    "path_join ''.devcontainer/redan'' ''devcontainer.json'' = ''.devcontainer/redan/devcontainer.json''"
    by (code_simp, code_simp)
  have a: "set (ancestors ''.devcontainer/redan'') = {''.devcontainer'', ''.devcontainer/redan''}" by code_simp
  have "writable h' = writable h \<and> (entry h' q = entry h q \<or> \<not> path_exists h ''.devcontainer/redan'' \<and> q \<in> set DEVCONTAINER_PATHS)"
  proof (cases "path_exists h ''.devcontainer/redan''")
    case True
    then show ?thesis using assms by (simp add: write_claude_devcontainer_def)
  next
    case False
    then obtain h1 h2 where h: "create_dir_all h ''.devcontainer/redan'' = Some h1"
      "write_file h1 ''.devcontainer/redan/Dockerfile'' (generated_dockerfile ds packages) = Some h2"
      "write_file h2 ''.devcontainer/redan/devcontainer.json'' devcontainer_json = Some h'"
    proof -
      have "bindR (ok_or (create_dir_all h ''.devcontainer/redan'') (Exit 1 (''cannot create '' @ ''.devcontainer/redan''))) (\<lambda>h.
          bindR (ok_or (write_file h ''.devcontainer/redan/Dockerfile'' (generated_dockerfile ds packages)) (Exit 1 ''cannot write Dockerfile'')) (\<lambda>h.
            ok_or (write_file h ''.devcontainer/redan/devcontainer.json'' devcontainer_json) (Exit 1 ''cannot write devcontainer.json''))) = Inr h'"
        using assms False by (simp only: write_claude_devcontainer_def Let_def if_False p)
      then show thesis unfolding bindR_Inr ok_or_Inr using that by blast
    qed
    have three: "writable x3 = writable x \<and> (entry x3 q = entry x q \<or> q \<in> set (ancestors d) \<or> q = f1 \<or> q = f2)"
      if "create_dir_all x d = Some x1" "write_file x1 f1 c1 = Some x2" "write_file x2 f2 c2 = Some x3" for x x1 x2 x3 d f1 f2 c1 c2
      using create_dir_all_Some[OF that(1)] write_file_Some[OF that(2)] write_file_Some[OF that(3)]
      by (auto split: if_splits)
    show ?thesis using three[OF h] False unfolding a DEVCONTAINER_PATHS_def by auto
  qed
  then show "writable h' = writable h"
    "entry h' q = entry h q \<or> \<not> path_exists h ''.devcontainer/redan'' \<and> q \<in> set DEVCONTAINER_PATHS" by blast+
qed

lemma init_config_fields:
  "cfg_rootfs (init_config claude h) = None" "cfg_audit_log (init_config claude h) = None"
  "cfg_log_file (init_config claude h) = None" "net_forward (cfg_network (init_config claude h)) = []"
  "cfg_secrets (init_config claude h) = []"
  "cfg_mount (init_config claude h) = [(''workspace'', \<lparr>mc_source = ''.'', mc_target = Some ''/workspace'', mc_read_only = False\<rparr>)]"
  by (simp_all add: init_config_def default_config_def Let_def)


definition node_project :: host where
  "node_project = \<lparr>env_var = (\<lambda>_. None),
     entry = (\<lambda>p. if p = ''package.json'' \<or> p = ''pom.xml'' then Some (Regular 420 True ''{}'') else None),
     canonical = (\<lambda>p. Some ''/w/My App''), writable = (\<lambda>_. True), cwd = Some ''/w/My App'', tty = True\<rparr>"


subsection \<open>What the generated files get wrong\<close>

text \<open>The image is named after the directory whatever its characters are: the import that the next steps
  name refuses it.\<close>

lemma init_image_name_invalid:
  "cfg_image (init_config claude node_project) = Some ''My App'' \<and> \<not> is_valid_image_name ''My App''"
proof -
  have "image_name_of node_project = ''My App''" by code_simp
  moreover have "\<not> is_valid_image_name ''My App''" by code_simp
  ultimately show ?thesis by (simp add: init_config_def Let_def)
qed

text \<open>A Java project puts the Alpine package of the JDK into the Debian package list.\<close>

lemma init_alpine_package: "''openjdk21-jdk'' \<in> set (apt_packages (init_packages (detect_project node_project)))"
proof -
  have "\<lparr>pd_description = ''Java (pom.xml)'', pd_hosts = [''repo1.maven.org''], pd_packages = [''openjdk21-jdk'', ''maven''],
      pd_devcontainer = None\<rparr> \<in> set (detect_project node_project)"
    by (force simp: detect_project_def rule_detections_def RULES_def node_project_def path_exists_def List.map_filter_def)
  then have "''openjdk21-jdk'' \<in> set (init_packages (detect_project node_project))"
    by (force simp: init_packages_def add_missing_set)
  then show ?thesis by (simp add: apt_packages_def sort_dedup_spec add_missing_set NOT_APT_def)
qed

end
