(* ===== verification/Logfmt.thy ===== *)
theory Logfmt
  imports Config
begin

text \<open>
  The audit log viewer: \<^verbatim>\<open>src/src/logfmt.rs\<close> renders one JSON line as logfmt, and
  \<^verbatim>\<open>src/src/cmd/logs.rs\<close> dumps or follows a log. The JSON parser and the printer of values that
  are not strings are parameters; an object is its entries in key order.
\<close>

subsection \<open>Escaping\<close>

function show_hex :: "nat \<Rightarrow> string" where
  "show_hex n = (if n < 16 then [hex_digit n] else show_hex (n div 16) @ [hex_digit (n mod 16)])"
  by pat_completeness auto
termination by (relation "measure id") auto

declare show_hex.simps [simp del]

text \<open>\<^verbatim>\<open>char::escape_default\<close>.\<close>

definition escape_char :: "nat \<Rightarrow> string" where
  "escape_char n =
     (if n = 9 then [CHR 0x5C, CHR ''t'']
      else if n = 13 then [CHR 0x5C, CHR ''r'']
      else if n = 10 then [CHR 0x5C, CHR ''n'']
      else if n = 39 \<or> n = 34 \<or> n = 92 then [CHR 0x5C, char_of n]
      else if 32 \<le> n \<and> n \<le> 126 then [char_of n]
      else [CHR 0x5C, CHR ''u'', CHR 0x7B] @ show_hex n @ [CHR 0x7D])"

definition escape_default :: "string \<Rightarrow> string" where
  "escape_default s = concat (map escape_char (case utf8_chars s of Some cs \<Rightarrow> cs | None \<Rightarrow> []))"

definition encode :: "string \<Rightarrow> string" where
  "encode s =
     (let escaped = escape_default s
      in if escaped = [] \<or> list_ex (\<lambda>b. b = CHR '' '' \<or> b = CHR ''='') escaped
         then [CHR 0x22] @ escaped @ [CHR 0x22] else escaped)"

subsection \<open>Rendering\<close>

definition LEAD_KEYS :: "string list" where
  "LEAD_KEYS = [''ts'', ''severity'', ''event'', ''host'']"

fun value_text :: "(json \<Rightarrow> string) \<Rightarrow> json \<Rightarrow> string" where
  "value_text json_text (J_str s) = s"
| "value_text json_text v = json_text v"

definition push_pair :: "(json \<Rightarrow> string) \<Rightarrow> string \<Rightarrow> string \<times> json \<Rightarrow> string" where
  "push_pair json_text out kv =
     (case kv of (k, v) \<Rightarrow>
        out @ (if out \<noteq> [] then '' '' else []) @ encode k @ ''='' @ encode (value_text json_text v))"

definition ordered_fields :: "(string \<times> json) list \<Rightarrow> (string \<times> json) list" where
  "ordered_fields m =
     List.map_filter (\<lambda>k. map_option (Pair k) (map_of m k)) LEAD_KEYS @ filter (\<lambda>(k, v). k \<notin> set LEAD_KEYS) m"

definition render :: "(string \<Rightarrow> json option) \<Rightarrow> (json \<Rightarrow> string) \<Rightarrow> string \<Rightarrow> string" where
  "render parse_json json_text line =
     (case parse_json line of
        Some (J_obj m) \<Rightarrow> foldl (push_pair json_text) [] (ordered_fields m)
      | _ \<Rightarrow> ''raw='' @ encode line)"

subsection \<open>Viewing a log\<close>

definition present :: "(string \<Rightarrow> json option) \<Rightarrow> (json \<Rightarrow> string) \<Rightarrow> bool \<Rightarrow> string \<Rightarrow> string" where
  "present parse_json json_text json line = (if json then line else render parse_json json_text line)"

definition dump_log :: "(string \<Rightarrow> json option) \<Rightarrow> (json \<Rightarrow> string) \<Rightarrow> bool \<Rightarrow> string \<Rightarrow> string list" where
  "dump_log parse_json json_text json content = map (present parse_json json_text json) (str_lines content)"

definition MAX_LINE_LEN :: nat where
  "MAX_LINE_LEN = 1024 * 1024"

text \<open>One \<^verbatim>\<open>read_line\<close> while following: the pending text and the lines printed so far.\<close>

definition follow_read ::
  "(string \<Rightarrow> json option) \<Rightarrow> (json \<Rightarrow> string) \<Rightarrow> bool \<Rightarrow> string \<times> string list \<Rightarrow> string \<Rightarrow> string \<times> string list" where
  "follow_read parse_json json_text json st chunk =
     (case st of (pending, printed) \<Rightarrow>
        if chunk = [] then (pending, printed)
        else (let pending = pending @ chunk
              in if length pending > MAX_LINE_LEN then ([], printed)
                 else if suffix [CHR 0x0A] pending
                 then ([], printed @ [present parse_json json_text json (trim_end_matches (CHR 0x0A) pending)])
                 else (pending, printed)))"

definition follow_log ::
  "(string \<Rightarrow> json option) \<Rightarrow> (json \<Rightarrow> string) \<Rightarrow> bool \<Rightarrow> string list \<Rightarrow> string \<times> string list" where
  "follow_log parse_json json_text json chunks = foldl (follow_read parse_json json_text json) ([], []) chunks"

subsection \<open>Reading logfmt back\<close>

text \<open>The reference reader: tokens are separated by blanks outside quotes, and a backslash protects
  the next character.\<close>

fun tokens :: "bool \<Rightarrow> string \<Rightarrow> string \<Rightarrow> string list" where
  "tokens q acc [] = [acc]"
| "tokens q acc [c] =
     (if c = CHR '' '' \<and> \<not> q then [acc, []] else [acc @ [c]])"
| "tokens q acc (c # d # cs) =
     (if c = CHR 0x5C then tokens q (acc @ [c, d]) cs
      else if c = CHR 0x22 then tokens (\<not> q) (acc @ [c]) (d # cs)
      else if c = CHR '' '' \<and> \<not> q then acc # tokens False [] (d # cs)
      else tokens q (acc @ [c]) (d # cs))"

lemma tokens_plain:
  "c \<noteq> CHR 0x5C \<Longrightarrow> c \<noteq> CHR 0x22 \<Longrightarrow> c \<noteq> CHR '' '' \<or> q \<Longrightarrow> tokens q acc (c # cs) = tokens q (acc @ [c]) cs"
  by (cases cs) auto

lemma tokens_plains:
  "(\<And>c. c \<in> set s \<Longrightarrow> c \<noteq> CHR 0x5C \<and> c \<noteq> CHR 0x22 \<and> (c \<noteq> CHR '' '' \<or> q)) \<Longrightarrow>
   tokens q acc (s @ cs) = tokens q (acc @ s) cs"
proof (induction s arbitrary: acc)
  case (Cons c s)
  then have "tokens q acc (c # s @ cs) = tokens q (acc @ [c]) (s @ cs)" by (intro tokens_plain) auto
  moreover have "tokens q (acc @ [c]) (s @ cs) = tokens q ((acc @ [c]) @ s) cs" by (rule Cons.IH) (use Cons.prems in auto)
  ultimately show ?case by simp
qed simp

lemma show_hex_plain: "c \<in> set (show_hex n) \<Longrightarrow> is_ascii_hexdigit c"
proof (induction n rule: show_hex.induct)
  case (1 n)
  have "is_ascii_hexdigit (hex_digit (n mod 16))" by (rule hex_digit_hexdigit) simp
  then show ?case using 1 hex_digit_hexdigit[of n] by (subst (asm) show_hex.simps) (auto split: if_splits)
qed

lemma hexdigit_plain: "is_ascii_hexdigit c \<Longrightarrow> c \<noteq> CHR 0x5C \<and> c \<noteq> CHR 0x22 \<and> c \<noteq> CHR '' ''"
  by (auto simp: ascii_defs char_code_def)

lemma char_of_eq: "n < 256 \<Longrightarrow> char_of (n :: nat) = c \<longleftrightarrow> n = char_code c"
  by (metis char_code_char_of char_of_char_code)

lemma printable_char:
  assumes "32 \<le> n" "n \<le> 126"
  shows "char_of (n :: nat) = CHR 0x5C \<longleftrightarrow> n = 92" "char_of n = CHR 0x22 \<longleftrightarrow> n = 34" "char_of n = CHR '' '' \<longleftrightarrow> n = 32"
    "char_of n = CHR ''='' \<longleftrightarrow> n = 61"
  using assms by (simp_all add: char_of_eq char_code_def)

lemma tokens_escape_char:
  assumes "n = 32 \<longrightarrow> q"
  shows "tokens q acc (escape_char n @ cs) = tokens q (acc @ escape_char n) cs"
proof -
  have esc: "tokens q acc (CHR 0x5C # d # cs) = tokens q (acc @ [CHR 0x5C, d]) cs" for d acc cs by simp
  consider "n = 9 \<or> n = 13 \<or> n = 10 \<or> n = 39 \<or> n = 34 \<or> n = 92"
    | "32 \<le> n" "n \<le> 126" "n \<noteq> 39" "n \<noteq> 34" "n \<noteq> 92" | "n < 32 \<or> 126 < n" "n \<noteq> 9" "n \<noteq> 13" "n \<noteq> 10"
    by linarith
  then show ?thesis
  proof cases
    case 1
    then show ?thesis by (auto simp: escape_char_def)
  next
    case 2
    have "char_of n \<noteq> CHR 0x5C" "char_of n \<noteq> CHR 0x22" "char_of n \<noteq> CHR '' '' \<or> q"
      using 2 assms by (auto simp: printable_char)
    then show ?thesis using 2 by (simp add: escape_char_def tokens_plain)
  next
    case 3
    have "tokens q (acc @ [CHR 0x5C, CHR ''u'']) (([CHR 0x7B] @ show_hex n @ [CHR 0x7D]) @ cs)
        = tokens q ((acc @ [CHR 0x5C, CHR ''u'']) @ [CHR 0x7B] @ show_hex n @ [CHR 0x7D]) cs"
      using hexdigit_plain show_hex_plain by (intro tokens_plains) auto
    then show ?thesis using 3 by (auto simp: escape_char_def)
  qed
qed


lemma tokens_escaped:
  "q \<or> 32 \<notin> set ns \<Longrightarrow> tokens q acc (concat (map escape_char ns) @ cs) = tokens q (acc @ concat (map escape_char ns)) cs"
proof (induction ns arbitrary: acc)
  case (Cons n ns)
  have "tokens q acc (escape_char n @ concat (map escape_char ns) @ cs)
      = tokens q (acc @ escape_char n) (concat (map escape_char ns) @ cs)"
    using Cons.prems by (intro tokens_escape_char) auto
  also have "\<dots> = tokens q ((acc @ escape_char n) @ concat (map escape_char ns)) cs"
    by (rule Cons.IH) (use Cons.prems in auto)
  finally show ?case by simp
qed simp

lemma escape_char_blank: "CHR '' '' \<in> set (escape_char n) \<longleftrightarrow> n = 32"
proof -
  have "CHR '' '' \<notin> set (show_hex n)" using show_hex_plain hexdigit_plain by blast
  moreover have "char_of (39 :: nat) \<noteq> CHR '' ''" "char_of (34 :: nat) \<noteq> CHR '' ''"
    "char_of (92 :: nat) \<noteq> CHR '' ''" "char_of (32 :: nat) = CHR '' ''"
    by (simp_all add: printable_char)
  ultimately show ?thesis
    using printable_char(3)[of n] by (cases "n = 39 \<or> n = 34 \<or> n = 92") (auto simp: escape_char_def)
qed

lemma tokens_encode: "tokens False acc (encode s @ cs) = tokens False (acc @ encode s) cs"
proof -
  obtain ns where ns: "escape_default s = concat (map escape_char ns)" by (simp add: escape_default_def)
  show ?thesis
  proof (cases "escape_default s = [] \<or> list_ex (\<lambda>b. b = CHR '' '' \<or> b = CHR ''='') (escape_default s)")
    case True
    have q: "tokens b acc (CHR 0x22 # cs) = tokens (\<not> b) (acc @ [CHR 0x22]) cs" for b acc cs
      by (cases cs) auto
    have "tokens False acc (CHR 0x22 # escape_default s @ CHR 0x22 # cs)
        = tokens True ((acc @ [CHR 0x22]) @ escape_default s) (CHR 0x22 # cs)"
      unfolding ns by (rule trans[OF q]) (simp add: tokens_escaped)
    also have "\<dots> = tokens False (((acc @ [CHR 0x22]) @ escape_default s) @ [CHR 0x22]) cs"
      by (rule trans[OF q]) (simp only: not_True_eq_False)
    finally show ?thesis using True by (simp add: encode_def)
  next
    case False
    then have "32 \<notin> set ns" using escape_char_blank by (fastforce simp: ns list_ex_iff)
    then have "tokens False acc (escape_default s @ cs) = tokens False (acc @ escape_default s) cs"
      unfolding ns by (simp add: tokens_escaped)
    then show ?thesis using False by (simp add: encode_def)
  qed
qed

definition field_text :: "(json \<Rightarrow> string) \<Rightarrow> string \<times> json \<Rightarrow> string" where
  "field_text json_text kv = encode (fst kv) @ ''='' @ encode (value_text json_text (snd kv))"

lemma tokens_field: "tokens False acc (field_text json_text kv @ cs) = tokens False (acc @ field_text json_text kv) cs"
proof -
  have "tokens False a (CHR ''='' # b) = tokens False (a @ [CHR ''='']) b" for a b by (rule tokens_plain) auto
  then show ?thesis by (simp add: field_text_def tokens_encode)
qed

lemma field_text_not_Nil [simp]: "field_text json_text kv \<noteq> []"
  by (simp add: field_text_def)

lemma push_pair_field: "push_pair json_text out kv = (if out = [] then [] else out @ '' '') @ field_text json_text kv"
  by (cases kv) (simp add: push_pair_def field_text_def)

lemma foldl_push:
  "out \<noteq> [] \<Longrightarrow> foldl (push_pair json_text) out kvs = out @ concat (map (\<lambda>kv. '' '' @ field_text json_text kv) kvs)"
  by (induction kvs arbitrary: out) (auto simp: push_pair_field)

lemma tokens_fields:
  "tokens False acc (concat (map (\<lambda>kv. '' '' @ field_text json_text kv) kvs)) = acc # map (field_text json_text) kvs"
proof (induction kvs arbitrary: acc)
  case (Cons kv kvs)
  have b: "tokens False acc (CHR '' '' # c # cs) = acc # tokens False [] (c # cs)" for c cs by simp
  obtain c cs where "field_text json_text kv = c # cs" by (cases "field_text json_text kv") auto
  then have "tokens False acc ('' '' @ field_text json_text kv @ concat (map (\<lambda>kv. '' '' @ field_text json_text kv) kvs))
      = acc # tokens False [] (field_text json_text kv @ concat (map (\<lambda>kv. '' '' @ field_text json_text kv) kvs))"
    using b by simp
  then show ?case using Cons by (simp add: tokens_field)
qed simp

definition printable :: "char \<Rightarrow> bool" where
  "printable c \<longleftrightarrow> 32 \<le> char_code c \<and> char_code c \<le> 126"

lemma printable_escape_char: "c \<in> set (escape_char n) \<Longrightarrow> printable c"
proof -
  assume c: "c \<in> set (escape_char n)"
  have h: "is_ascii_hexdigit d \<Longrightarrow> printable d" for d by (auto simp: printable_def ascii_defs)
  have lits: "printable (CHR 0x5C)" "printable (CHR ''t'')" "printable (CHR ''r'')" "printable (CHR ''n'')"
    "printable (CHR ''u'')" "printable (CHR 0x7B)" "printable (CHR 0x7D)"
    by (simp_all add: printable_def char_code_def)
  have "32 \<le> n \<Longrightarrow> n \<le> 126 \<Longrightarrow> printable (char_of n)" by (simp add: printable_def)
  then show ?thesis using c lits h show_hex_plain[of c n] by (auto simp: escape_char_def split: if_splits)
qed

lemma printable_encode: "list_all printable (encode s)"
proof -
  have "list_all printable (escape_default s)"
    using printable_escape_char by (auto simp: escape_default_def list_all_iff)
  moreover have "printable (CHR 0x22)" by (simp add: printable_def char_code_def)
  ultimately show ?thesis by (simp add: encode_def Let_def)
qed

lemma render_text:
  "render parse_json json_text line =
     (case parse_json line of
        Some (J_obj m) \<Rightarrow> join '' '' (map (field_text json_text) (ordered_fields m))
      | _ \<Rightarrow> ''raw='' @ encode line)"
proof -
  have j: "join '' '' (x # xs) = x @ concat (map (\<lambda>y. '' '' @ y) xs)" for x xs
    by (induction xs arbitrary: x) auto
  have "foldl (push_pair json_text) [] kvs = join '' '' (map (field_text json_text) kvs)" for kvs
    by (cases kvs) (simp_all add: push_pair_field foldl_push j comp_def)
  then show ?thesis by (simp add: render_def split: option.split json.split)
qed

subsection \<open>Properties\<close>


end
