(* ===== verification/Cli.thy ===== *)
theory Cli
  imports Run Attach Stop Launch Doctor Init Logfmt
begin

text \<open>
  The command line, \<^verbatim>\<open>src/src/main.rs\<close>: the commands, the arguments each handler gets, the listings
  that are printed, and \<^verbatim>\<open>main\<close>, which composes the other components. Splitting the words of
  the command line into a value of \<open>cli\<close> is the argument parser's; messages on stderr are not modelled,
  what goes to stdout is.
\<close>

subsection \<open>Commands\<close>

record exec_flags =
  xf_image :: "string option"
  xf_rootfs :: "path option"
  xf_command :: "string option"
  xf_interactive :: bool
  xf_timeout :: "64 word option"
  xf_secrets :: "string list"
  xf_secret_file :: "path option"
  xf_allow_hosts :: "string list"
  xf_forwards :: "string list"
  xf_mounts :: "string list"
  xf_audit_log :: "path option"
  xf_log_file :: "path option"
  xf_discover :: bool
  xf_browser :: bool
  xf_detach :: bool
  xf_name :: "string option"

datatype session_action = Session_show string | Session_remove "string option"

datatype image_action =
  Image_create string "string list" "string list"
| Image_list
| Image_remove string
| Image_update string
| Image_import string "string option" "path option" "path option" bool

datatype cli =
  Cli_doctor "string list" "path option" "string option"
| Cli_exec exec_flags
| Cli_run run_args
| Cli_attach "string option"
| Cli_stop "string option"
| Cli_image image_action
| Cli_sessions "session_action option"
| Cli_logs "string option" bool bool
| Cli_daemon string
| Cli_init bool
| Cli_trust "path option"
| Cli_untrust "path option"

definition exec_args_of :: "exec_flags \<Rightarrow> exec_args" where
  "exec_args_of x =
     \<lparr>xa_image_name = xf_image x, xa_rootfs = xf_rootfs x, xa_command = xf_command x, xa_interactive = xf_interactive x,
      xa_timeout = xf_timeout x, xa_secrets = xf_secrets x, xa_secret_file = xf_secret_file x,
      xa_allow_hosts = xf_allow_hosts x, xa_mounts = xf_mounts x, xa_audit_log = xf_audit_log x,
      xa_forwards = xf_forwards x, xa_discover = xf_discover x, xa_detached = xf_detach x, xa_name = xf_name x,
      xa_run_as = None, xa_browser = xf_browser x\<rparr>"

definition log_file_of :: "cli \<Rightarrow> path option" where
  "log_file_of cli = (case cli of Cli_exec x \<Rightarrow> xf_log_file x | _ \<Rightarrow> None)"

subsection \<open>Listings\<close>

text \<open>\<^verbatim>\<open>{:n}\<close> pads a string with blanks to \<open>n\<close> code points.\<close>

definition pad :: "nat \<Rightarrow> string \<Rightarrow> string" where
  "pad n s = s @ replicate (n - (case utf8_chars s of Some cs \<Rightarrow> length cs | None \<Rightarrow> length s)) (CHR '' '')"

definition image_line :: "build_env \<Rightarrow> (path \<Rightarrow> path list) \<Rightarrow> host \<Rightarrow> string \<Rightarrow> exit + string list" where
  "image_line env walk_dir h name =
     bindR (image_path h name) (\<lambda>r. Inr (case r of
         Inl e \<Rightarrow> []
       | Inr p \<Rightarrow>
           (let bytes = dir_size walk_dir h p;
                age = (case Option.bind (load_image_meta env h p) (age_days env) of
                    Some d \<Rightarrow> ''  ('' @ show_nat d @ ''d ago)'' | None \<Rightarrow> [])
            in [pad 20 name @ '' '' @ humanize_bytes (of_nat bytes) @ age])))"

fun image_lines :: "build_env \<Rightarrow> (path \<Rightarrow> path list) \<Rightarrow> host \<Rightarrow> string list \<Rightarrow> exit + string list" where
  "image_lines env walk_dir h [] = Inr []"
| "image_lines env walk_dir h (name # names) =
     bindR (image_line env walk_dir h name) (\<lambda>ls. bindR (image_lines env walk_dir h names) (\<lambda>rest. Inr (ls @ rest)))"

definition session_line :: "host \<Rightarrow> session_meta \<Rightarrow> string" where
  "session_line h s =
     (let name = (case sm_name s of Some n \<Rightarrow> n | None \<Rightarrow> []);
          img = (case sm_image s of Some i \<Rightarrow> i | None \<Rightarrow> ''-'')
      in sm_id s @ ''  '' @ pad 10 (session_status_label h s) @ '' '' @ pad 20 img @ '' '' @ sm_started_at s
         @ (if name = [] then [] else '' ('' @ name @ '')''))"

text \<open>The details of a session, with the files of its directory.\<close>

definition show_lines :: "session_env \<Rightarrow> nat \<Rightarrow> host \<Rightarrow> path \<Rightarrow> session_meta \<times> string \<Rightarrow> string list" where
  "show_lines env dir_len h dir r =
     (case r of (m, status) \<Rightarrow>
        [''session:  '' @ sm_id m, ''status:   '' @ status,
         ''image:    '' @ (case sm_image m of Some i \<Rightarrow> i | None \<Rightarrow> ''-''),
         ''command:  '' @ (case sm_command m of Some c \<Rightarrow> c | None \<Rightarrow> ''-''),
         ''started:  '' @ sm_started_at m]
        @ (case sm_pid m of Some pid \<Rightarrow> [''pid:      '' @ show_nat (unat pid)] | None \<Rightarrow> [])
        @ [''files:'']
        @ (case read_dir (sv_names env) h dir of
             None \<Rightarrow> []
           | Some entries \<Rightarrow>
               map (\<lambda>n. ''  '' @ from_utf8_lossy n @ '' (''
                     @ show_nat (case entry h (path_join dir n) of Some (Regular mode r c) \<Rightarrow> length c | _ \<Rightarrow> dir_len)
                     @ '' bytes)'') entries))"

subsection \<open>The environment and the result\<close>

record ('s, 'a, 'm) main_env =
  mn_launch :: launch_params
  mn_run :: "('s, 'a, 'm) run_env"
  mn_doctor :: doctor_env
  mn_attach :: attach_env
  mn_stop :: stop_env
  mn_make_raw :: "'m \<Rightarrow> 'm"
  mn_walk :: "path \<Rightarrow> path list"
  mn_dir_len :: nat
  mn_value_text :: "json \<Rightarrow> string"
  mn_follow :: "string list"  \<comment> \<open>the reads of the log while it is followed\<close>

abbreviation mn_sessions :: "('s, 'a, 'm) main_env \<Rightarrow> session_env" where
  "mn_sessions env \<equiv> dv_sessions (re_daemon (mn_run env))"

abbreviation mn_build :: "('s, 'a, 'm) main_env \<Rightarrow> build_env" where
  "mn_build env \<equiv> la_build (mn_launch env)"

text \<open>How the process ended, what it printed, the signals it sent, the world it left. \<open>Exited\<close> is an exit
  inside a step whose definition does not say what it left of the files it was changing.\<close>

datatype 'm main_end = Main_end run_end "string list" "(int \<times> signal) list" "'m world" | Exited exit

definition put_files :: "host \<Rightarrow> 'm world \<Rightarrow> 'm world" where
  "put_files h w = w\<lparr>w_fs := (fst (w_fs w), h)\<rparr>"

text \<open>A command that reads only, one that changes files, and one on images.\<close>

definition reading :: "exit + int \<times> string list \<Rightarrow> 'm world \<Rightarrow> 'm main_end" where
  "reading r w =
     (case r of Inl e \<Rightarrow> Main_end (R_exit e) [] [] w | Inr (code, ls) \<Rightarrow> Main_end (R_code code) ls [] w)"

definition changing :: "exit + 'x \<times> host \<Rightarrow> 'm world \<Rightarrow> 'm main_end" where
  "changing r w = (case r of Inl e \<Rightarrow> Exited e | Inr (_, h) \<Rightarrow> Main_end (R_code 0) [] [] (put_files h w))"

definition imaging :: "string \<Rightarrow> 'x io \<Rightarrow> 'm world \<Rightarrow> 'm main_end" where
  "imaging msg r w =
     (case r of
        Inl e \<Rightarrow> Exited e
      | Inr (Inl e, h) \<Rightarrow> Main_end (R_exit (Exit 1 (msg @ snd e))) [] [] (put_files h w)
      | Inr (Inr _, h) \<Rightarrow> Main_end (R_code 0) [] [] (put_files h w))"

definition running :: "('s, 'a, 'm) main_env \<Rightarrow> exec_call \<Rightarrow> 'm world \<Rightarrow> 'm main_end" where
  "running env call w = (case exec_run (mn_run env) call w of (r, w) \<Rightarrow> Main_end r [] [] w)"

definition launching :: "('s, 'a, 'm) main_env \<Rightarrow> exit + launched \<times> host \<Rightarrow> 'm world \<Rightarrow> 'm main_end" where
  "launching env r w =
     (case r of
        Inl e \<Rightarrow> Exited e
      | Inr (Foreground call, h) \<Rightarrow> running env call (put_files h w)
      | Inr (Detached cfg, h) \<Rightarrow>
          (case exec_detached (re_daemon (mn_run env)) cfg (re_fresh_id (mn_run env)) h of
             (Inl e, h) \<Rightarrow> Main_end (R_exit e) [] [] (put_files h w)
           | (Inr pid, h) \<Rightarrow> Main_end (R_code 0) [] [] (put_files h w)))"

subsection \<open>The commands that print\<close>

definition list_image_lines :: "('s, 'a, 'm) main_env \<Rightarrow> host \<Rightarrow> exit + int \<times> string list" where
  "list_image_lines env h =
     bindR (list_images (bd_names (mn_build env)) h) (\<lambda>images.
     bindR (image_lines (mn_build env) (mn_walk env) h images) (\<lambda>ls. Inr (0, ls)))"

definition list_session_lines :: "('s, 'a, 'm) main_env \<Rightarrow> host \<Rightarrow> exit + int \<times> string list" where
  "list_session_lines env h =
     bindR (list_sessions (mn_sessions env) h) (\<lambda>sessions. Inr (0, map (session_line h) sessions))"

definition show_session_lines :: "('s, 'a, 'm) main_env \<Rightarrow> host \<Rightarrow> string \<Rightarrow> exit + int \<times> string list" where
  "show_session_lines env h i =
     bindR (show_session (mn_sessions env) h i) (\<lambda>r.
     bindR (session_dir h i) (\<lambda>dir. Inr (0, show_lines (mn_sessions env) (mn_dir_len env) h dir r)))"

definition doctor_lines :: "('s, 'a, 'm) main_env \<Rightarrow> host \<Rightarrow> string list \<Rightarrow> path option \<Rightarrow> string option \<Rightarrow> exit + int \<times> string list" where
  "doctor_lines env h secrets secret_file img =
     bindR (collect_secret_specs h secrets secret_file) (\<lambda>all_secrets.
     bindR (doctor (mn_doctor env) h all_secrets img) (\<lambda>(status, ls). Inr (int status, ls)))"

text \<open>Lines are printed up to the first that is not UTF-8; following a log ends only there.\<close>

definition log_lines :: "('s, 'a, 'm) main_env \<Rightarrow> host \<Rightarrow> string option \<Rightarrow> bool \<Rightarrow> bool \<Rightarrow> run_end \<times> string list" where
  "log_lines env h session follow json =
     (case find_session (mn_sessions env) h session of
        Inl e \<Rightarrow> (R_exit e, [])
      | Inr None \<Rightarrow> (R_exit (Exit 1 ''no matching session found''), [])
      | Inr (Some m) \<Rightarrow>
          (case audit_log_path h (sm_id m) of
             Inl e \<Rightarrow> (R_exit e, [])
           | Inr p \<Rightarrow>
               (let failed = R_exit (Exit 1 (''cannot read '' @ p));
                    parse = la_json (mn_launch env);
                    printed = mn_value_text env
                in if \<not> path_exists h p then (R_exit (Exit 1 (''no audit log for session '' @ sm_id m)), [])
                   else (case entry h p of
                       Some (Regular mode True content) \<Rightarrow>
                         if follow
                         then (let valid = takeWhile utf8_valid (mn_follow env)
                               in (if valid = mn_follow env then R_serving else failed, snd (follow_log parse printed json valid)))
                         else (let ls = dump_log parse printed json content;
                                   n = length (takeWhile utf8_valid (str_lines content))
                               in (if n = length ls then R_code 0 else failed, take n ls))
                     | _ \<Rightarrow> (failed, [])))))"

subsection \<open>The main function\<close>

definition image_command :: "('s, 'a, 'm) main_env \<Rightarrow> image_action \<Rightarrow> 'm world \<Rightarrow> 'm main_end" where
  "image_command env act w =
     (let h = snd (w_fs w); b = mn_build env
      in case act of
           Image_create name packages run_commands \<Rightarrow> imaging ''image create failed: '' (create b name packages run_commands h) w
         | Image_list \<Rightarrow> reading (list_image_lines env h) w
         | Image_update name \<Rightarrow>
             (case update_image b name h of
                (Inl e, h) \<Rightarrow> Main_end (R_exit e) [] [] (put_files h w)
              | (Inr _, h) \<Rightarrow> Main_end (R_code 0) [] [] (put_files h w))
         | Image_remove name \<Rightarrow> imaging ''remove failed: '' (remove_image h name) w
         | Image_import name from dockerfile devcontainer force \<Rightarrow>
             imaging ''import failed: '' (import_image b name from dockerfile devcontainer force h) w)"

definition session_command :: "('s, 'a, 'm) main_env \<Rightarrow> session_action option \<Rightarrow> 'm world \<Rightarrow> 'm main_end" where
  "session_command env act w =
     (let h = snd (w_fs w)
      in case act of
           None \<Rightarrow> reading (list_session_lines env h) w
         | Some (Session_show i) \<Rightarrow> reading (show_session_lines env h i) w
         | Some (Session_remove (Some i)) \<Rightarrow>
             (case remove_session h i of
                Inl e \<Rightarrow> Main_end (R_exit e) [] [] w
              | Inr h \<Rightarrow> Main_end (R_code 0) [] [] (put_files h w))
         | Some (Session_remove None) \<Rightarrow> changing (remove_exited (mn_sessions env) h) w)"

definition dispatch :: "('s, 'a, 'm) main_env \<Rightarrow> cli \<Rightarrow> 'm world \<Rightarrow> 'm main_end" where
  "dispatch env cli w =
     (let h = snd (w_fs w); la = mn_launch env
      in case cli of
           Cli_doctor secrets secret_file img \<Rightarrow> reading (doctor_lines env h secrets secret_file img) w
         | Cli_exec x \<Rightarrow> launching env (exec_command la (exec_args_of x) h) w
         | Cli_run r \<Rightarrow> launching env (run_command la r h) w
         | Cli_attach session \<Rightarrow>
             (case attach_session (mn_make_raw env) (mn_attach env) h session (w_term w) of
                (Inl e, t) \<Rightarrow> Main_end (R_exit e) [] [] (w\<lparr>w_term := t\<rparr>)
              | (Inr (received, sent), t) \<Rightarrow> Main_end (R_code 0) [received] [] (w\<lparr>w_term := t\<rparr>))
         | Cli_stop session \<Rightarrow>
             (case stop_session (mn_sessions env) (mn_stop env) h session of
                (Inl e, signals) \<Rightarrow> Main_end (R_exit e) [] signals w
              | (Inr msg, signals) \<Rightarrow> Main_end (R_code 0) [] signals w)
         | Cli_daemon i \<Rightarrow>
             (case run_daemon (re_daemon (mn_run env)) i h of
                (Inl e, h) \<Rightarrow> Main_end (R_exit e) [] [] (put_files h w)
              | (Inr call, h) \<Rightarrow> running env call (put_files h w))
         | Cli_image act \<Rightarrow> image_command env act w
         | Cli_logs session follow json \<Rightarrow>
             (case log_lines env h session follow json of (r, ls) \<Rightarrow> Main_end r ls [] w)
         | Cli_init claude \<Rightarrow> changing (init claude h) w
         | Cli_trust p \<Rightarrow>
             (case trust_cmd (la_trust la) (la_toml la) p h of
                Inl e \<Rightarrow> Exited e
              | Inr (ls, h) \<Rightarrow> Main_end (R_code 0) [] [] (put_files h w))
         | Cli_untrust p \<Rightarrow> changing (untrust_cmd (la_trust la) p h) w
         | Cli_sessions act \<Rightarrow> session_command env act w)"

text \<open>\<^verbatim>\<open>init_logging\<close> opens the log file of \<^verbatim>\<open>exec\<close> before anything else and points stderr to it.\<close>

definition init_logging :: "path option \<Rightarrow> 'm world \<Rightarrow> exit + 'm world" where
  "init_logging log_file w =
     (case log_file of
        None \<Rightarrow> Inr w
      | Some p \<Rightarrow>
          (case open_append p (snd (w_fs w)) of
             None \<Rightarrow> Inl (Exit 1 (''cannot open log file '' @ p))
           | Some h \<Rightarrow> Inr ((put_files h w)\<lparr>w_stderr := Some p\<rparr>)))"

definition main :: "('s, 'a, 'm) main_env \<Rightarrow> cli \<Rightarrow> 'm world \<Rightarrow> 'm main_end" where
  "main env cli w =
     (case init_logging (log_file_of cli) w of
        Inl e \<Rightarrow> Main_end (R_exit e) [] [] w
      | Inr w \<Rightarrow> dispatch env cli w)"

subsection \<open>Commands that only look\<close>

definition looks :: "cli \<Rightarrow> bool" where
  "looks cli \<longleftrightarrow> (case cli of
       Cli_doctor _ _ _ \<Rightarrow> True | Cli_logs _ _ _ \<Rightarrow> True | Cli_stop _ \<Rightarrow> True | Cli_image Image_list \<Rightarrow> True
     | Cli_sessions None \<Rightarrow> True | Cli_sessions (Some (Session_show _)) \<Rightarrow> True | _ \<Rightarrow> False)"

lemma reading_end: "reading r w = Main_end e ls signals w' \<Longrightarrow> w' = w \<and> signals = []"
  by (auto simp: reading_def split: sum.splits)

lemma put_files_same [simp]: "put_files (snd (w_fs w)) w = w"
  by (simp add: put_files_def)

lemma put_files_fs [simp]: "w_fs (put_files h w) = (fst (w_fs w), h)"
  by (simp add: put_files_def)

lemma main_plain: "log_file_of cli = None \<Longrightarrow> main env cli w = dispatch env cli w"
  by (simp add: main_def init_logging_def)

lemma looking_changes_nothing:
  assumes "looks cli" "main env cli w = Main_end e ls signals w'"
  shows "w' = w \<and> (signals = [] \<or> (\<exists>session. cli = Cli_stop session))"
proof -
  have d: "dispatch env cli w = Main_end e ls signals w'"
    using assms main_plain[of cli env w] by (auto simp: looks_def log_file_of_def split: cli.splits)
  show ?thesis
    using assms(1) d
    by (auto dest: reading_end simp: looks_def dispatch_def image_command_def session_command_def Let_def
        split: cli.splits image_action.splits option.splits session_action.splits prod.splits sum.splits)
qed

subsection \<open>Identifiers of sessions\<close>

lemma session_command_invalid:
  assumes "\<not> valid_session_id i"
  shows "main env (Cli_sessions (Some (Session_show i))) w = Main_end (R_exit (Exit 1 (''invalid session ID: '' @ i))) [] [] w"
    and "main env (Cli_sessions (Some (Session_remove (Some i)))) w = Main_end (R_exit (Exit 1 (''invalid session ID: '' @ i))) [] [] w"
    and "main env (Cli_daemon i) w = Main_end (R_exit (Exit 1 (''invalid session ID: '' @ i))) [] [] w"
  using assms
  by (simp_all add: main_plain log_file_of_def dispatch_def session_command_def show_session_lines_def show_session_def
      remove_session_def run_daemon_def reading_def bindR_def Let_def)

lemma session_remove_entries:
  assumes "sessions_dir (snd (w_fs w)) = Inr dir"
    and "main env (Cli_sessions (Some (Session_remove (Some i)))) w = Main_end e ls signals w'"
    and "entry (snd (w_fs w')) q \<noteq> entry (snd (w_fs w)) q"
  shows "valid_session_id i \<and> below (dir @ ''/'' @ i) q"
proof -
  let ?h = "snd (w_fs w)"
  obtain h' where r: "remove_session ?h i = Inr h'" and w': "w' = put_files h' w"
    using assms(2,3)
    by (auto simp: main_plain log_file_of_def dispatch_def session_command_def Let_def split: sum.splits)
  then obtain d where v: "valid_session_id i" and d: "session_dir ?h i = Inr d" and rm: "remove_dir_all ?h d = Some h'"
    by (auto simp: remove_session_def bindR_Inr ok_or_Inr split: if_splits)
  obtain dir' where "sessions_dir ?h = Inr dir'" "d = dir' @ CHR ''/'' # i" using session_dir_below[OF v d] by metis
  then show ?thesis using v assms(1,3) w' remove_dir_all_entry[OF rm, of q] by simp
qed

lemma save_env:
  assumes "save env m h = Inr (r, h')"
  shows "env_var h' = env_var h"
proof (cases "session_dir h (sm_id m)")
  case (Inr dir)
  show ?thesis
  proof (cases "create_dir_all h dir")
    case (Some h1)
    then have "env_var h1 = env_var h" using create_dir_all_Some by blast
    then show ?thesis
      using assms Inr Some write_file_Some[of h1 "path_join dir ''meta.json''"]
      by (auto simp: save_def bindR_def split: option.splits sum.splits)
  qed (use assms Inr in \<open>simp add: save_def bindR_def\<close>)
qed (use assms in \<open>simp add: save_def bindR_def\<close>)

lemma started_id:
  assumes "start_session dv fresh call h = (Inr (i, m), h')" "valid_session_id fresh"
  shows "valid_session_id i \<and> env_var h' = env_var h"
proof -
  have "valid_session_id i \<and> (h' = h \<or> (\<exists>r m. save (dv_sessions dv) m h = Inr (r, h')))"
    using assms by (auto simp: start_session_def Let_def split: option.splits if_splits sum.splits prod.splits)
  then show ?thesis using save_env by metis
qed



end
