(* ===== verification/Traffic.thy ===== *)
theory Traffic
  imports Run
begin

text \<open>
  The connections of a session: the thread of a TLS connection, with the secrets and the allowlist that
  \<^verbatim>\<open>run\<close> of \<^verbatim>\<open>src/src/cmd/exec.rs\<close> gave to the proxy. This is where the preparation of a session, its run
  and the connection thread are composed: what a host can learn, which hosts are contacted, and that a
  connection ends.
\<close>

text \<open>The call of \<^verbatim>\<open>tls_connection_thread\<close> in \<^verbatim>\<open>ProxyConn::new\<close>.\<close>

definition session_thread ::
  "'w guest_writer \<Rightarrow> http_env \<Rightarrow> ('s, 'u) upstream_env \<Rightarrow> (chan_error + bytes) list \<Rightarrow> string
     \<Rightarrow> proxied \<Rightarrow> 'w \<Rightarrow> ((thread_error + unit) \<times> 'w thread_state) option" where
  "session_thread wr env up reads sni px w =
     tls_connection_thread wr env up reads sni (px_secrets px) (effective_allowlist (px_discover px) (px_allowed px)) w"

subsection \<open>What a session gives to the proxy\<close>

lemma run_proxy_proxied: "run_proxy env px w = (r, w') \<Longrightarrow> w_proxied w' = w_proxied w \<or> w_proxied w' = Some px"
  by (auto simp: run_proxy_def guest_acts_def set_mode_def Let_def split: option.splits sum.splits if_splits)

lemma run_finish_proxied: "run_finish env cfg meta b seen w = (r, w') \<Longrightarrow> w_proxied w' = w_proxied w"
  by (auto simp: run_finish_def Let_def split: prod.splits sum.splits option.splits)

lemma run_setup_plan:
  assumes "run_setup env call w = (Inr (meta, log, plan), w')"
  shows "\<exists>xs ms. exec_secrets (re_secret env) (xc_config call) = Inr xs \<and> plan = exec_plan_of (xc_config call) xs ms"
proof -
  obtain lh lh' where "exec_prepare (re_secret env) (xc_config call) lh = (Inr plan, lh')"
    using assms by (auto simp: run_setup_def Let_def split: prod.splits sum.splits if_splits)
  then show ?thesis by (metis exec_prepare_Inr)
qed

lemma run_secret: "re_secret (env\<lparr>re_secret := s\<rparr>) = s"
  by simp

lemma session_proxied:
  assumes run: "exec_run env call w = (r, w')" "w_proxied w = None" "w_proxied w' = Some px"
  shows "\<exists>xs. exec_secrets (re_secret env) (xc_config call) = Inr xs \<and> px_secrets px = map snd xs
    \<and> px_allowed px = allowed_host_list (ec_allow_specs (xc_config call)) (map snd xs)
    \<and> px_discover px = ec_discover (xc_config call) \<and> px_timeout px = ec_timeout (xc_config call)
    \<and> exec_forwards (xc_config call) True = Inr (px_forwards px)"
proof -
  obtain s w1 where 1: "run_setup env call w = (s, w1)" by fastforce
  have n1: "w_proxied w1 = None" using run_setup_same[OF 1] run(2) by (simp add: same_but_files_def)
  obtain meta log plan where s: "s = Inr (meta, log, plan)"
    using run 1 n1 by (cases s) (auto simp: exec_run_def)
  obtain t w2 where 2: "run_start env (xc_config call) plan w1 = (t, w2)" by fastforce
  have n2: "w_proxied w2 = None" using run_start_cases[OF 2] n1 by simp
  obtain b fwds where t: "t = Inr (b, fwds)"
    using run 1 2 s n2 by (cases t) (auto simp: exec_run_def)
  let ?px = "\<lparr>px_secrets = pl_secrets plan, px_timeout = ec_timeout (xc_config call), px_allowed = pl_allowed plan,
    px_audit_log = log, px_discover = ec_discover (xc_config call), px_forwards = fwds\<rparr>"
  obtain u w3 where 3: "run_proxy env ?px w2 = (u, w3)" by fastforce
  have "w_proxied w' = w_proxied w3"
    using run(1) 1 2 3 s t by (cases u) (auto simp: exec_run_def dest: run_finish_proxied)
  then have "px = ?px" using run_proxy_proxied[OF 3] n2 run(3) by auto
  moreover obtain xs ms where "exec_secrets (re_secret env) (xc_config call) = Inr xs" "plan = exec_plan_of (xc_config call) xs ms"
    using run_setup_plan 1 s by metis
  moreover have "exec_forwards (xc_config call) True = Inr fwds" using run_start_Inr(1) 2 t by simp
  ultimately show ?thesis by (auto simp: exec_plan_fields)
qed

text \<open>Without a star, an allowed name matches an entry of the configuration or a host of a secret.\<close>

lemma session_allowed_entry:
  assumes run: "exec_run env call w = (r, v)" "w_proxied w = None" "w_proxied v = Some px"
    and "''*'' \<notin> set (ec_allow_specs (xc_config call))" "host_allowed (px_allowed px) name"
  shows "\<exists>e. host_matches (to_ascii_lowercase e) name
      \<and> (e \<in> set (ec_allow_specs (xc_config call)) \<or> (\<exists>b\<in>set (px_secrets px). e \<in> set (allowed_hosts b)))"
proof -
  obtain xs :: "(string \<times> secret_binding) list" where xs: "px_secrets px = map snd xs"
    "px_allowed px = allowed_host_list (ec_allow_specs (xc_config call)) (map snd xs)"
    using session_proxied[OF run] by blast
  then show ?thesis
    using assms(4,5) by (auto simp: allowed_host_list_def host_allowed_def list_ex_iff add_missing_set split: if_splits)
qed

subsection \<open>What a connection depends on\<close>

text \<open>Two lists of bindings that agree on a name agree in everything the thread does with it, except for the
  length at which a response is held back.\<close>

definition agree_for :: "string \<Rightarrow> secret_binding list \<Rightarrow> secret_binding list \<Rightarrow> bool" where
  "agree_for sni ss ss' \<longleftrightarrow> filter (bound_to sni) ss = filter (bound_to sni) ss'"

lemma agree_inject: "agree_for sni ss ss' \<Longrightarrow> inject pr de en data sni ss = inject pr de en data sni ss'"
  using inject_filter[of pr de en data sni ss] inject_filter[of pr de en data sni ss'] by (simp add: agree_for_def)

lemma agree_scrub: "agree_for sni ss ss' \<Longrightarrow> scrub data sni ss = scrub data sni ss'"
  using scrub_filter[of data sni ss] scrub_filter[of data sni ss'] by (simp add: agree_for_def)

lemma agree_prepare: "agree_for sni ss ss' \<Longrightarrow> prepare_request env sni ss request st = prepare_request env sni ss' request st"
  by (simp add: prepare_request_def agree_inject[of sni ss ss'])

text \<open>When the longest secrets have the same length too, the response is relayed in the same pieces.\<close>

lemma agree_relay:
  assumes a: "agree_for sni ss ss'" and m: "max_secret_len ss = max_secret_len ss'"
  shows "relay_response wr pp sni ss rounds w = relay_response wr pp sni ss' rounds w"
proof -
  have e: "max_secret_len ss = 0 \<or> ss = [] \<longleftrightarrow> max_secret_len ss' = 0 \<or> ss' = []"
    using m by (auto simp: max_secret_len_def)
  have "relay_chunk wr sni ss c st = relay_chunk wr sni ss' c st" for c st
    using e by (simp add: relay_chunk_def write_scrubbed_chunk_def agree_scrub[OF a] m)
  then have chunk: "relay_chunk wr sni ss = relay_chunk wr sni ss'" by (intro ext)
  have data: "relay_data wr pp sni ss = relay_data wr pp sni ss'"
    unfolding relay_data_def relay_head_def agree_scrub[OF a] chunk ..
  have "relay_plaintext wr pp sni ss cs st = relay_plaintext wr pp sni ss' cs st" for cs st
    by (induction cs arbitrary: st) (simp_all add: data bindR_def split: sum.split)
  then have plain: "relay_plaintext wr pp sni ss = relay_plaintext wr pp sni ss'" by (intro ext)
  have "drain_plaintext wr sni ss cs st = drain_plaintext wr sni ss' cs st" for cs st
    by (induction cs arbitrary: st) (simp_all add: chunk bindR_def split: sum.split)
  then have "drain_plaintext wr sni ss = drain_plaintext wr sni ss'" by (intro ext)
  then have closed: "relay_closed wr pp sni ss = relay_closed wr pp sni ss'"
    unfolding relay_closed_def agree_scrub[OF a] by simp
  have "relay_rounds wr pp sni ss rs st = relay_rounds wr pp sni ss' rs st" for rs st
    by (induction rs arbitrary: st) (simp_all add: plain closed bindR_def split: sum.split raw_read.split)
  then show ?thesis by (simp add: relay_response_def)
qed

text \<open>What leaves the machine, and what is reported as discovered.\<close>

definition outgoing :: "((thread_error + unit) \<times> 'w thread_state) option \<Rightarrow> (string list \<times> bytes \<times> string list) option" where
  "outgoing r = map_option (\<lambda>(_, st). (contacted st, sent_upstream st, TlsThread.discovered st)) r"

lemma agree_outgoing:
  assumes a: "agree_for sni ss ss'"
  shows "outgoing (tls_connection_thread wr env up reads sni ss allowed w)
       = outgoing (tls_connection_thread wr env up reads sni ss' allowed w)"
proof -
  have "outgoing (forward_request wr env up allowed sni ss request st) = outgoing (forward_request wr env up allowed sni ss' request st)" for request st
    unfolding forward_request_def agree_prepare[OF a] outgoing_def
    by (auto simp: Let_def split: prod.split sum.split option.split)
  then show ?thesis by (simp add: tls_connection_thread_def Let_def split: read_outcome.split gate_result.split)
qed

lemma agree_thread:
  assumes "agree_for sni ss ss'" "max_secret_len ss = max_secret_len ss'"
  shows "tls_connection_thread wr env up reads sni ss allowed w = tls_connection_thread wr env up reads sni ss' allowed w"
  unfolding tls_connection_thread_def forward_request_def agree_prepare[OF assms(1)] agree_relay[OF assms] ..

text \<open>Bindings with the same hosts and placeholders agree on a name when the values bound to it are equal.\<close>

lemma agree_values:
  "list_all2 (\<lambda>a b. placeholder a = placeholder b \<and> allowed_hosts a = allowed_hosts b) ss ss' \<Longrightarrow>
   list_all2 (\<lambda>a b. bound_to sni a \<longrightarrow> real_value a = real_value b) ss ss' \<Longrightarrow> agree_for sni ss ss'"
proof (induction ss ss' rule: list_all2_induct)
  case (Cons a ss b ss')
  then have "bound_to sni a = bound_to sni b" by (simp add: bound_to_def)
  moreover have "bound_to sni a \<Longrightarrow> a = b" using Cons by (cases a; cases b) simp
  ultimately show ?case using Cons by (auto simp: agree_for_def)
qed (simp add: agree_for_def)

subsection \<open>A connection ends\<close>

text \<open>What rustls and the socket promise: a write that does not fail takes something off what is pending.\<close>

definition draining :: "'u upstream_ops \<Rightarrow> ('u \<Rightarrow> nat) \<Rightarrow> bool" where
  "draining ops pending \<longleftrightarrow> (\<forall>u u'. wants_write ops u \<longrightarrow> write_tls ops u = Inr u' \<longrightarrow> pending u' < pending u)"

lemma flush_writes_ends: "draining ops pending \<Longrightarrow> \<exists>r. flush_writes ops u = Some r"
proof (induction "pending u" arbitrary: u rule: less_induct)
  case less
  show ?case
    using less(1)[OF _ less(2)] less(2)
    by (subst flush_writes.simps) (auto simp: draining_def split: sum.split)
qed

lemma send_chunks_ends: "draining ops pending \<Longrightarrow> \<exists>r. send_chunks ops cs u sent = Some r"
proof (induction cs arbitrary: u sent)
  case (Cons c cs)
  show ?case
  proof (cases "write_plain ops c u")
    case (Inr u1)
    obtain r where r: "flush_writes ops u1 = Some r" using flush_writes_ends[OF Cons.prems] by blast
    then show ?thesis using Inr Cons.IH[OF Cons.prems] by (cases r) simp_all
  qed simp
qed simp

lemma send_chunks_all: "send_chunks ops cs u sent = Some (Inr u', sent') \<Longrightarrow> sent' = sent @ concat cs"
proof (induction cs arbitrary: u sent)
  case (Cons c cs)
  from Cons.prems obtain u1 where "send_chunks ops cs u1 (sent @ c) = Some (Inr u', sent')"
    by (auto split: sum.splits option.splits)
  from Cons.IH[OF this] show ?case by simp
qed simp

lemma send_request_all: "send_request ops data u = Some (Inr u', sent) \<Longrightarrow> sent = data"
  using send_chunks_all[of ops "chunks_of 16384 data" u "[]" u' sent] by (simp add: send_request_def concat_chunks_of)

lemma forward_request_all:
  assumes "forward_request wr env up allowed sni ss request st = Some (Inr (), st')" "sent_upstream st = []"
  shows "sent_upstream st' = fst (inject (parse_request env) (decode64 env) (encode64 env)
      (rewrite_request_headers (parse_request env) request) sni ss)"
proof -
  obtain d st1 where p: "prepare_request env sni ss request st = (d, st1)" by fastforce
  show ?thesis
    using assms p prepare_request_state[OF p] send_request_all[of "session_ops up" d]
    by (auto simp: forward_request_def Let_def split: sum.splits option.splits prod.splits)
qed


subsection \<open>Secrets and hosts of a session\<close>

text \<open>
  C3: a secret reaches only the hosts its specification names. Take two runs of the same session that differ in the values
  of their secrets only, and a name such that the secrets bound to it have the same values in both. Then a connection
  under this name, for the same guest and network, contacts the same hosts and sends them the same bytes: they
  carry nothing of any other secret. If the longest secrets are equally long, the guest, too, reads
  the same and the connection is the same in every respect.
\<close>
theorem secret_reaches_only_its_hosts:
  assumes same: "same_public s1 s2" and fresh: "w_proxied w = None"
    and 1: "exec_run (env\<lparr>re_secret := s1\<rparr>) call w = (r1, v1)" "w_proxied v1 = Some px1"
    and 2: "exec_run (env\<lparr>re_secret := s2\<rparr>) call w = (r2, v2)" "w_proxied v2 = Some px2"
    and bound: "list_all2 (\<lambda>a b. bound_to sni a \<longrightarrow> real_value a = real_value b) (px_secrets px1) (px_secrets px2)"
  shows "outgoing (session_thread wr http up reads sni px1 g) = outgoing (session_thread wr http up reads sni px2 g)
    \<and> (max_secret_len (px_secrets px1) = max_secret_len (px_secrets px2) \<longrightarrow>
         session_thread wr http up reads sni px1 g = session_thread wr http up reads sni px2 g)"
proof -
  obtain xs where xs: "exec_secrets s1 (xc_config call) = Inr xs" "px_secrets px1 = map snd xs"
    "px_allowed px1 = allowed_host_list (ec_allow_specs (xc_config call)) (map snd xs)" "px_discover px1 = ec_discover (xc_config call)"
    using session_proxied[OF 1(1) fresh 1(2)] unfolding run_secret by blast
  obtain ys where ys: "exec_secrets s2 (xc_config call) = Inr ys" "px_secrets px2 = map snd ys"
    "px_allowed px2 = allowed_host_list (ec_allow_specs (xc_config call)) (map snd ys)" "px_discover px2 = ec_discover (xc_config call)"
    using session_proxied[OF 2(1) fresh 2(2)] unfolding run_secret by blast
  have xy: "list_all2 same_binding xs ys"
    using xs(1) ys(1) by (intro parse_secrets_same[OF same]) (simp_all add: exec_secrets_Inr)
  then have "list_all2 (\<lambda>a b. placeholder a = placeholder b \<and> allowed_hosts a = allowed_hosts b) (px_secrets px1) (px_secrets px2)"
    unfolding xs(2) ys(2) list_all2_map1 list_all2_map2 by (rule list_all2_mono) (simp add: same_binding_def)
  then have a: "agree_for sni (px_secrets px1) (px_secrets px2)" using bound by (rule agree_values)
  have e: "effective_allowlist (px_discover px1) (px_allowed px1) = effective_allowlist (px_discover px2) (px_allowed px2)"
    unfolding xs(3,4) ys(3,4) allowed_host_list_def same_bindings_maps(2)[OF xy] ..
  show ?thesis
    unfolding session_thread_def e by (intro conjI impI agree_outgoing[OF a] agree_thread[OF a])
qed

text \<open>
  C5: a session contacts only hosts that were allowed for it. Without discovery and without a star, a
  connection that contacts a host or sends a byte does so for a name that matches, in lower case, an
  allowed host of the command line and the configuration or a host of one of the secrets; and a
  host no secret is bound to is sent a front part of the request as the guest wrote it, up to
  the rewritten headers.
\<close>
theorem session_contacts_only_allowed:
  assumes run: "exec_run env call w = (r, v)" "w_proxied w = None" "w_proxied v = Some px"
    and closed: "\<not> ec_discover (xc_config call)" "''*'' \<notin> set (ec_allow_specs (xc_config call))"
    and thread: "session_thread wr http up reads sni px g = Some (t, st)" "contacted st \<noteq> [] \<or> sent_upstream st \<noteq> []"
  shows "contacted st = [sni]
    \<and> (\<exists>p. host_matches (to_ascii_lowercase p) sni
         \<and> (p \<in> set (ec_allow_specs (xc_config call)) \<or> (\<exists>b\<in>set (px_secrets px). p \<in> set (allowed_hosts b))))
    \<and> (\<exists>request. read_request (parse_request http) reads [] = Request request
         \<and> (filter (bound_to sni) (px_secrets px) = [] \<longrightarrow>
              prefix (sent_upstream st) (rewrite_request_headers (parse_request http) request)))"
proof -
  have disc: "\<not> px_discover px" using session_proxied[OF run] closed(1) by blast
  from thread_sent[OF thread(1)[unfolded session_thread_def] thread(2)] obtain request where
    q: "read_request (parse_request http) reads [] = Request request"
      "gate (parse_request http) (effective_allowlist (px_discover px) (px_allowed px)) sni request = Pass" "contacted st = [sni]"
      "prefix (sent_upstream st) (fst (inject (parse_request http) (decode64 http) (encode64 http)
         (rewrite_request_headers (parse_request http) request) sni (px_secrets px)))"
    by blast
  have "host_allowed (px_allowed px) sni"
    using q(2) disc by (simp add: gate_Pass effective_allowlist_def)
  note session_allowed_entry[OF run closed(2) this]
  moreover have "inject pr de en data sni (px_secrets px) = (data, 0)" if "filter (bound_to sni) (px_secrets px) = []" for pr de en data
    using inject_filter[of pr de en data sni "px_secrets px"] inject_filter[of pr de en data sni "[]"] that
    by (simp add: inject_def inject_literal_def inject_basic_auth_def split: prod.splits)
  ultimately show ?thesis using q by auto
qed

subsection \<open>A session and its connections\<close>

lemma session_reaches_proxy:
  assumes "run_setup env call w = (Inr (meta, log, plan), w1)"
    "run_start env (xc_config call) plan w1 = (Inr (b, fwds), w2)" "open_append log (snd (w_fs w2)) \<noteq> None"
  shows "\<exists>r v px. exec_run env call w = (r, v) \<and> w_proxied v = Some px"
proof -
  let ?px = "\<lparr>px_secrets = pl_secrets plan, px_timeout = ec_timeout (xc_config call), px_allowed = pl_allowed plan,
    px_audit_log = log, px_discover = ec_discover (xc_config call), px_forwards = fwds\<rparr>"
  obtain u w3 where 3: "run_proxy env ?px w2 = (u, w3)" by fastforce
  then have "w_proxied w3 = Some ?px"
    using assms(3) by (auto simp: run_proxy_def guest_acts_def set_mode_def Let_def split: option.splits sum.splits if_splits)
  moreover obtain r v where "exec_run env call w = (r, v)" by fastforce
  moreover have "w_proxied v = w_proxied w3"
    using calculation(2) assms(1,2) 3 by (cases u) (auto simp: exec_run_def dest: run_finish_proxied)
  ultimately show ?thesis by auto
qed

definition demo_bound :: "string \<Rightarrow> secret_binding" where
  "demo_bound v = \<lparr>placeholder = ''redan_ph_'' @ to_ascii_lowercase ''K'' @ ''_'' @ hex_encode ''ab'', real_value = v, allowed_hosts = [''api.test'']\<rparr>"

lemma demo_exec_secrets:
  assumes "CHR 0x0D \<notin> set v" "CHR 0x0A \<notin> set v"
  shows "exec_secrets (demo_secret_env v) (xc_config demo_call) = Inr [(''K'', demo_bound v)]"
proof -
  let ?s = "\<lparr>sc_value = ''env://K'', sc_hosts = [''api.test'']\<rparr>"
  have ok: "secret_ok ''K'' ?s" by (simp add: secret_ok_def host_text_def graphic_def char_code_def)
  have "parse_secret (demo_secret_env v) 0 (secret_spec ''K'' ?s) = Inr (''K'', \<lparr>placeholder =
      ''redan_ph_'' @ se_lower (demo_secret_env v) ''K'' @ ''_'' @ hex_encode ''ab'', real_value = v, allowed_hosts = sc_hosts ?s\<rparr>)"
    using assms by (intro parse_secret_spec[OF ok]) (simp_all add: demo_secret_env_def)
  moreover have "secret_spec ''K'' ?s = ''K=env://K:api.test''" by (simp add: secret_spec_def)
  moreover have "validate_allow_hosts [''a.test''] = Inr ()" by code_simp
  ultimately show ?thesis by (simp add: exec_secrets_def demo_call_def demo_bound_def demo_secret_env_def)
qed

lemma demo_session:
  assumes "exec_secrets (demo_secret_env v) (xc_config demo_call) = Inr [(''K'', demo_bound v)]"
  obtains r w' px where "exec_run (demo_run_env\<lparr>re_secret := demo_secret_env v\<rparr>) demo_call demo_world = (r, w')"
    "w_proxied w' = Some px" "px_secrets px = [demo_bound v]" "px_allowed px = Some [''a.test'', ''api.test'']" "\<not> px_discover px"
    "px_timeout px = 9"
proof -
  let ?env = "demo_run_env\<lparr>re_secret := demo_secret_env v\<rparr>"
  have "case exec_secrets (demo_secret_env v) (xc_config demo_call) of Inl e \<Rightarrow> False | Inr xs \<Rightarrow> True" by (simp add: assms)
  from demo_starts[OF this] obtain meta log plan w1 b fwds w2 where
    s: "run_setup ?env demo_call demo_world = (Inr (meta, log, plan), w1)"
      "run_start ?env (xc_config demo_call) plan w1 = (Inr (Some b, fwds), w2)" "open_append log (snd (w_fs w2)) \<noteq> None"
    by metis
  obtain r w' px where r: "exec_run ?env demo_call demo_world = (r, w')" "w_proxied w' = Some px"
    using session_reaches_proxy[OF s] by blast
  have "w_proxied demo_world = None" by (simp add: demo_world_def)
  from session_proxied[OF r(1) this r(2)] assms
  have "px_secrets px = [demo_bound v]" "px_allowed px = allowed_host_list (ec_allow_specs (xc_config demo_call)) [demo_bound v]"
    "px_discover px = ec_discover (xc_config demo_call)" "px_timeout px = ec_timeout (xc_config demo_call)"
    by (auto simp: run_secret)
  moreover have "allowed_host_list (ec_allow_specs (xc_config demo_call)) [demo_bound v] = Some [''a.test'', ''api.test'']"
  proof -
    have "allowed_host_list [''a.test''] [demo_bound v] = Some [''a.test'', ''api.test'']" unfolding demo_bound_def by code_simp
    then show ?thesis by (simp add: demo_call_def)
  qed
  moreover have "\<not> ec_discover (xc_config demo_call)" by (simp add: demo_call_def)
  moreover have "ec_timeout (xc_config demo_call) = 9" by (simp add: demo_call_def)
  ultimately show thesis using that r by simp
qed

lemma demo_resolved:
  "exec_secrets (demo_secret_env ''sk-1'') (xc_config demo_call) = Inr [(''K'', demo_bound ''sk-1'')]"
  "exec_secrets (demo_secret_env ''other'') (xc_config demo_call) = Inr [(''K'', demo_bound ''other'')]"
  by (rule demo_exec_secrets, simp, simp)+

lemma secret_reaches_only_its_hosts_witness:
  "\<exists>px1 px2. w_proxied (snd (exec_run (demo_run_env\<lparr>re_secret := demo_secret_env ''sk-1''\<rparr>) demo_call demo_world)) = Some px1
     \<and> w_proxied (snd (exec_run (demo_run_env\<lparr>re_secret := demo_secret_env ''other''\<rparr>) demo_call demo_world)) = Some px2
     \<and> map real_value (px_secrets px1) = [''sk-1''] \<and> map real_value (px_secrets px2) = [''other'']
     \<and> outgoing (session_thread demo_writer demo_env demo_upstream [Inr demo_request] ''a.test'' px1 [])
       = outgoing (session_thread demo_writer demo_env demo_upstream [Inr demo_request] ''a.test'' px2 [])"
proof -
  obtain r1 v1 px1 where 1: "exec_run (demo_run_env\<lparr>re_secret := demo_secret_env ''sk-1''\<rparr>) demo_call demo_world = (r1, v1)"
    "w_proxied v1 = Some px1" "px_secrets px1 = [demo_bound ''sk-1'']" by (rule demo_session[OF demo_resolved(1)])
  obtain r2 v2 px2 where 2: "exec_run (demo_run_env\<lparr>re_secret := demo_secret_env ''other''\<rparr>) demo_call demo_world = (r2, v2)"
    "w_proxied v2 = Some px2" "px_secrets px2 = [demo_bound ''other'']" by (rule demo_session[OF demo_resolved(2)])
  have "same_public (demo_secret_env ''sk-1'') (demo_secret_env ''other'')" "w_proxied demo_world = None"
    "list_all2 (\<lambda>a b. bound_to ''a.test'' a \<longrightarrow> real_value a = real_value b) (px_secrets px1) (px_secrets px2)"
    by (simp_all add: same_public_def demo_secret_env_def demo_world_def 1(3) 2(3) demo_bound_def bound_to_def eq_ignore_ascii_case_def
        to_ascii_lowercase_def ascii_defs char_code_def)
  note secret_reaches_only_its_hosts[OF this(1,2) 1(1,2) 2(1,2) this(3), where wr = demo_writer and http = demo_env
      and up = demo_upstream and reads = "[Inr demo_request]" and g = "[]"]
  then have a: "outgoing (session_thread demo_writer demo_env demo_upstream [Inr demo_request] ''a.test'' px1 [])
    = outgoing (session_thread demo_writer demo_env demo_upstream [Inr demo_request] ''a.test'' px2 [])" by (rule conjunct1)
  have b: "map real_value (px_secrets px1) = [''sk-1'']" "map real_value (px_secrets px2) = [''other'']"
    by (simp_all add: 1(3) 2(3) demo_bound_def)
  show ?thesis unfolding 1(1) 2(1) snd_conv
    by (rule exI[of _ px1], rule exI[of _ px2]) (intro conjI 1(2) 2(2) a b)
qed

lemma session_contacts_only_allowed_witness:
  "\<exists>px t st. w_proxied (snd (exec_run (demo_run_env\<lparr>re_secret := demo_secret_env ''sk-1''\<rparr>) demo_call demo_world)) = Some px
     \<and> session_thread demo_writer demo_env demo_upstream [Inr demo_request] ''a.test'' px [] = Some (t, st)
     \<and> contacted st = [''a.test''] \<and> host_matches (to_ascii_lowercase ''a.test'') ''a.test''"
proof -
  obtain r v px where 1: "exec_run (demo_run_env\<lparr>re_secret := demo_secret_env ''sk-1''\<rparr>) demo_call demo_world = (r, v)"
    "w_proxied v = Some px" and f: "px_secrets px = [demo_bound ''sk-1'']" "px_allowed px = Some [''a.test'', ''api.test'']" "\<not> px_discover px"
    by (rule demo_session[OF demo_resolved(1)])
  have "case tls_connection_thread demo_writer demo_env demo_upstream [Inr demo_request] ''a.test'' [demo_bound ''sk-1'']
      (Some [''a.test'', ''api.test'']) [] of Some (t, st) \<Rightarrow> contacted st = [''a.test''] | None \<Rightarrow> False" by code_simp
  then obtain t st where t: "session_thread demo_writer demo_env demo_upstream [Inr demo_request] ''a.test'' px [] = Some (t, st)"
    "contacted st = [''a.test'']"
    by (auto simp: session_thread_def f effective_allowlist_def split: option.splits)
  have c: "\<not> ec_discover (xc_config demo_call)" "''*'' \<notin> set (ec_allow_specs (xc_config demo_call))" "w_proxied demo_world = None"
    by (simp_all add: demo_call_def demo_world_def)
  have "contacted st \<noteq> [] \<or> sent_upstream st \<noteq> []" using t(2) by simp
  from session_contacts_only_allowed[OF 1(1) c(3) 1(2) c(1,2) t(1) this]
  have "contacted st = [''a.test'']" by blast
  moreover have "host_matches (to_ascii_lowercase ''a.test'') ''a.test''" by code_simp
  ultimately show ?thesis using 1 t(1) by auto
qed

text \<open>An upstream connection whose writes send one byte at a time.\<close>

definition counting_upstream :: "(unit, nat) upstream_env" where
  "counting_upstream = \<lparr>resolve_host = (\<lambda>_ _. Inr [V4 (93, 184, 216, 34) 443]), dial = (\<lambda>_. Inr ()),
     client_session = (\<lambda>_. Inr (\<lambda>_. 0)),
     session_ops = \<lparr>is_handshaking = (\<lambda>_. False), wants_write = (\<lambda>n. n > 0), wants_read = (\<lambda>_. False),
       write_tls = (\<lambda>n. Inr (n - 1)), read_tls = Inr, process_packets = Inr, write_plain = (\<lambda>c n. Inr (n + 2))\<rparr>,
     response_rounds = (\<lambda>_. [])\<rparr>"

lemma counting_sends:
  "flush_writes (session_ops counting_upstream) n = Some (Inr 0)"
  "send_chunks (session_ops counting_upstream) cs 0 sent = Some (Inr 0, sent @ concat cs)"
proof -
  show f: "flush_writes (session_ops counting_upstream) n = Some (Inr 0)" for n
    by (induction n) (subst flush_writes.simps, simp add: counting_upstream_def)+
  have w: "write_plain (session_ops counting_upstream) c n = Inr (n + 2)" for c n by (simp add: counting_upstream_def)
  show "send_chunks (session_ops counting_upstream) cs 0 sent = Some (Inr 0, sent @ concat cs)"
    by (induction cs arbitrary: sent) (simp_all add: f w)
qed


end
