(* ===== verification/Egress.thy ===== *)
theory Egress
  imports Traffic Relay
begin

text \<open>
  Which addresses a session can reach. Every connection that the poll loop of a session accepts gets
  the thread that \<^verbatim>\<open>ProxyConn::new\<close> of \<^verbatim>\<open>src/src/proxy.rs\<close> starts for its kind; this theory composes the run of
  the session, the loop and the three kinds of threads.
\<close>

text \<open>The thread of a connection: none, the TLS thread, or one of the two transparent relays. The reads of the TLS
  thread, its server name and the buffers of a relay are what the guest sends.\<close>

datatype ('w, 'v) thread_end =
  No_thread
| Tls_end "((thread_error + unit) \<times> 'w thread_state) option"
| Relay_end "'v relay_result"

definition connection_thread ::
  "'w guest_writer \<Rightarrow> http_env \<Rightarrow> ('s, 'u) upstream_env \<Rightarrow> 'v relay_env \<Rightarrow> (chan_error + bytes) list \<Rightarrow> string \<Rightarrow> 'w
     \<Rightarrow> bytes list \<Rightarrow> chan \<Rightarrow> proxied \<Rightarrow> conn_kind \<Rightarrow> ('w, 'v) thread_end" where
  "connection_thread wr http up relay reads sni g data tx px kind =
     (case kind of
        Http \<Rightarrow> No_thread
      | Tls_mitm \<Rightarrow> Tls_end (session_thread wr http up reads sni px g)
      | Tcp_forward p \<Rightarrow> Relay_end (tcp_forward_thread relay p data tx)
      | Ssh_relay host private \<Rightarrow> Relay_end (ssh_relay_thread relay host private data tx))"

subsection \<open>The kinds of the accepted connections\<close>

text \<open>A forward is one of the session, and an SSH relay was allowed when it was accepted.\<close>

definition kind_ok :: "string list option \<Rightarrow> forward_spec list \<Rightarrow> conn_kind \<Rightarrow> bool" where
  "kind_ok allowed forwards k \<longleftrightarrow>
     (case k of
        Tcp_forward p \<Rightarrow> (\<exists>f\<in>set forwards. p = host_port f)
      | Ssh_relay host private \<Rightarrow> host_allowed allowed host \<and> private = explicitly_allowed allowed host
      | _ \<Rightarrow> True)"

definition backlog_ok :: "forward_spec list \<Rightarrow> backlog_kind \<Rightarrow> bool" where
  "backlog_ok forwards kind \<longleftrightarrow> (case kind of B_forward p \<Rightarrow> \<exists>f\<in>set forwards. p = host_port f | _ \<Rightarrow> True)"

definition kinds_ok :: "string list option \<Rightarrow> forward_spec list \<Rightarrow> 's proxy_loop \<Rightarrow> bool" where
  "kinds_ok allowed forwards st \<longleftrightarrow> (\<forall>(h, k)\<in>set (threads st). kind_ok allowed forwards k)"

lemma accept_decision_kind:
  "accept_decision allowed m kind dest = Accept k \<Longrightarrow> backlog_ok forwards kind \<Longrightarrow> kind_ok allowed forwards k"
  by (auto simp: accept_decision_def ssh_decision_def backlog_ok_def kind_ok_def
      split: backlog_kind.splits option.splits if_splits)

lemma accept_handle_kinds:
  assumes "accept_handle ops disc allowed port kind h st = (h', st')" "backlog_ok forwards kind" "kinds_ok allowed forwards st"
  shows "kinds_ok allowed forwards st'"
proof -
  have same: "kinds_ok allowed forwards (snd (add_tcp_listener ops p s)) = kinds_ok allowed forwards s" for p s
    by (simp add: add_tcp_listener_def kinds_ok_def Let_def)
  have close: "kinds_ok allowed forwards (close_handle ops h s) = kinds_ok allowed forwards s" for s
    by (simp add: close_handle_def kinds_ok_def)
  have into: "kinds_ok allowed forwards (accept_into h k s)" if "kind_ok allowed forwards k" "kinds_ok allowed forwards s" for k s
    using that new_conn_thread[of h k] by (auto simp: accept_into_def kinds_ok_def split: prod.splits option.splits)
  have st': "st' = snd (accept_handle ops disc allowed port kind h st)" using assms(1) by simp
  have other: "kinds_ok allowed forwards (st\<lparr>loop_events := e\<rparr>)" "kinds_ok allowed forwards (st\<lparr>found := f\<rparr>)" for e f
    using assms(3) by (simp_all add: kinds_ok_def)
  show ?thesis
    unfolding st' accept_handle_def
    using assms(3) accept_decision_kind[OF _ assms(2)] by (auto simp: same close into other Let_def split: option.split accept_decision.split conn_kind.split)
qed

lemma accept_handles_kinds:
  "accept_handles ops disc allowed port kind hs st = (hs', st') \<Longrightarrow> backlog_ok forwards kind \<Longrightarrow>
   kinds_ok allowed forwards st \<Longrightarrow> kinds_ok allowed forwards st'"
  by (induction hs arbitrary: st hs' st') (auto split: prod.splits dest: accept_handle_kinds)

lemma accept_backlogs_kinds:
  "accept_backlogs ops disc allowed bs st = (bs', st') \<Longrightarrow> \<forall>b\<in>set bs. backlog_ok forwards (bl_kind b) \<Longrightarrow>
   kinds_ok allowed forwards st \<Longrightarrow> kinds_ok allowed forwards st'"
  by (induction bs arbitrary: st bs' st') (auto split: prod.splits dest: accept_handles_kinds)

lemma backlog_kinds:
  assumes "backlog_shape bs = expected_backlogs forwards"
  shows "\<forall>b\<in>set bs. backlog_ok forwards (bl_kind b)"
proof
  fix b assume "b \<in> set bs"
  then have "(bl_port b, bl_kind b, length (bl_handles b)) \<in> set (expected_backlogs forwards)"
    unfolding assms[symmetric] backlog_shape_def by force
  then show "backlog_ok forwards (bl_kind b)" by (auto simp: expected_backlogs_def backlog_ok_def)
qed

lemma kinds_ok_updates:
  "kinds_ok allowed forwards (st\<lparr>backlogs := b\<rparr>) = kinds_ok allowed forwards st"
  "kinds_ok allowed forwards (st\<lparr>conns := c\<rparr>) = kinds_ok allowed forwards st"
  "kinds_ok allowed forwards (st\<lparr>socks := ss\<rparr>) = kinds_ok allowed forwards st"
  "kinds_ok allowed forwards (st\<lparr>found := f\<rparr>) = kinds_ok allowed forwards st"
  "kinds_ok allowed forwards (fst (dns_turn capacity q st)) = kinds_ok allowed forwards st"
  by (simp_all add: kinds_ok_def dns_turn_def Let_def)

lemma proxy_turn_kinds:
  assumes "proxy_turn lops tops capacity timeout disc allowed inp st = Some (Inr st')"
    "backlog_shape (backlogs st) = expected_backlogs forwards" "kinds_ok allowed forwards st"
  shows "kinds_ok allowed forwards st'"
  using assms(1,3)
  by (auto simp: proxy_turn_def Let_def kinds_ok_updates split: if_splits prod.splits bind_splits
      dest: accept_backlogs_kinds[OF _ backlog_kinds[OF assms(2)]])

lemma proxy_turns_kinds:
  "proxy_turns lops tops capacity timeout disc allowed inps st = Some (Inr st') \<Longrightarrow>
   backlog_shape (backlogs st) = expected_backlogs forwards \<Longrightarrow> kinds_ok allowed forwards st \<Longrightarrow> kinds_ok allowed forwards st'"
proof (induction inps arbitrary: st)
  case (Cons inp inps)
  then obtain st1 where 1: "proxy_turn lops tops capacity timeout disc allowed inp st = Some (Inr st1)"
      "proxy_turns lops tops capacity timeout disc allowed inps st1 = Some (Inr st')"
    by (auto split: bind_splits sum.splits)
  show ?case
    using Cons.IH[OF 1(2)] proxy_turn_shape[OF 1(1)] proxy_turn_kinds[OF 1(1)] Cons.prems by simp
qed simp

lemma proxy_setup_threads: "threads (proxy_setup ops dns forwards) = []"
proof -
  have l: "add_listeners ops port n st = (hs, st') \<Longrightarrow> threads st' = threads st" for port n st hs st'
    by (induction n arbitrary: st hs st') (auto simp: add_tcp_listener_def Let_def split: prod.splits)
  have b: "threads (add_backlog ops port kind n st) = threads st" for port kind n st
    by (auto simp: add_backlog_def dest: l split: prod.split)
  have "threads (foldl (\<lambda>st f. add_backlog ops (guest_port f) (B_forward (host_port f)) LISTEN_BACKLOG st) st forwards) = threads st" for st
    by (induction forwards arbitrary: st) (simp_all add: b)
  then show ?thesis by (simp add: proxy_setup_def Let_def b)
qed

lemma proxy_run_kinds:
  assumes "proxy_run lops tops capacity timeout disc allowed dns forwards inps = Some (Inr st)" "(h, k) \<in> set (threads st)"
  shows "kind_ok (effective_allowlist disc allowed) forwards k"
proof -
  have "kinds_ok (effective_allowlist disc allowed) forwards (proxy_setup lops dns forwards)"
    by (simp add: kinds_ok_def proxy_setup_threads)
  from proxy_turns_kinds[OF assms(1)[unfolded proxy_run_def] proxy_setup_shape this] assms(2)
  show ?thesis by (auto simp: kinds_ok_def)
qed

subsection \<open>What a connect function is asked\<close>

lemma find_ipv4: "find is_ipv4 addrs = Some a \<Longrightarrow> \<exists>ip p. a = V4 ip p"
proof -
  assume "find is_ipv4 addrs = Some a"
  then have "is_ipv4 a" by (auto simp: find_Some_iff)
  then show "\<exists>ip p. a = V4 ip p" by (cases a) (simp_all del: split_paired_Ex)
qed

lemma connect_upstream_cong:
  assumes "\<And>addrs ip p. resolve name port = Inr addrs \<Longrightarrow> find is_ipv4 addrs = Some (V4 ip p) \<Longrightarrow> allow \<or> \<not> is_private_ip ip \<Longrightarrow>
      connect (V4 ip p) = connect' (V4 ip p)"
  shows "connect_upstream resolve connect client name port allow = connect_upstream resolve connect' client name port allow"
proof (cases "resolve name port")
  case (Inr addrs)
  show ?thesis
  proof (cases "find is_ipv4 addrs")
    case (Some a)
    then obtain ip p where "a = V4 ip p" using find_ipv4 by blast
    with Inr Some show ?thesis using assms[OF Inr, of ip p] by (cases "\<not> allow \<and> is_private_ip ip") (auto simp: connect_upstream_def)
  qed (simp add: connect_upstream_def Inr)
qed (simp add: connect_upstream_def)

lemma ssh_connect_cong:
  assumes "\<And>addrs ip p. rl_resolve env name 22 = Inr addrs \<Longrightarrow> find is_ipv4 addrs = Some (V4 ip p) \<Longrightarrow> allow \<or> \<not> is_private_ip ip \<Longrightarrow>
      rl_connect env (V4 ip p) = connect' (V4 ip p)"
  shows "ssh_connect env name allow = ssh_connect (env\<lparr>rl_connect := connect'\<rparr>) name allow"
proof (cases "rl_resolve env name 22")
  case (Inr addrs)
  show ?thesis
  proof (cases "find is_ipv4 addrs")
    case (Some a)
    then obtain ip p where "a = V4 ip p" using find_ipv4 by blast
    with Inr Some show ?thesis using assms[OF Inr, of ip p] by (cases "\<not> allow \<and> is_private_ip ip") (auto simp: ssh_connect_def)
  qed (simp add: ssh_connect_def Inr)
qed (simp add: ssh_connect_def)

lemma relay_stream_connect: "relay_stream (env\<lparr>rl_connect := c\<rparr>) what o1 o2 data tx u = relay_stream env what o1 o2 data tx u"
  by (simp add: relay_stream_def)

lemma ssh_relay_thread_cong:
  "ssh_connect env name allow = ssh_connect (env\<lparr>rl_connect := c\<rparr>) name allow \<Longrightarrow>
   ssh_relay_thread env name allow data tx = ssh_relay_thread (env\<lparr>rl_connect := c\<rparr>) name allow data tx"
  by (simp add: ssh_relay_thread_def relay_stream_connect split: sum.split)

lemma tls_thread_cong:
  assumes "upstream_session up allowed sni = upstream_session (up\<lparr>dial := c\<rparr>) allowed sni"
  shows "tls_connection_thread wr env up reads sni ss allowed w = tls_connection_thread wr env (up\<lparr>dial := c\<rparr>) reads sni ss allowed w"
proof -
  have f: "session_ops (up\<lparr>dial := c\<rparr>) = session_ops up" "response_rounds (up\<lparr>dial := c\<rparr>) = response_rounds up" by simp_all
  have "forward_request wr env up allowed sni ss request st = forward_request wr env (up\<lparr>dial := c\<rparr>) allowed sni ss request st" for request st
    unfolding forward_request_def assms f ..
  then have "forward_request wr env up allowed sni ss = forward_request wr env (up\<lparr>dial := c\<rparr>) allowed sni ss" by (intro ext)
  then show ?thesis unfolding tls_connection_thread_def by (rule arg_cong)
qed

subsection \<open>What a session can reach\<close>

text \<open>A name that the configuration opens: without discovery and without a star, one that matches an allowed
  host or a host of a secret. The addresses that may be dialed: the public ones, the loopback
  address at a forwarded port, and those that an opened name resolves to.\<close>

definition opened_name :: "exec_config \<Rightarrow> secret_binding list \<Rightarrow> string \<Rightarrow> bool" where
  "opened_name cfg secrets name \<longleftrightarrow> \<not> ec_discover cfg \<and> ''*'' \<notin> set (ec_allow_specs cfg)
     \<and> (\<exists>e. host_matches (to_ascii_lowercase e) name
          \<and> (e \<in> set (ec_allow_specs cfg) \<or> (\<exists>b\<in>set secrets. e \<in> set (allowed_hosts b))))"

definition may_dial :: "exec_config \<Rightarrow> proxied \<Rightarrow> (string \<Rightarrow> 16 word \<Rightarrow> connect_error + socket_addr list) \<Rightarrow> socket_addr \<Rightarrow> bool" where
  "may_dial cfg px resolve a \<longleftrightarrow>
     (\<exists>ip p. a = V4 ip p
        \<and> (\<not> is_private_ip ip
           \<or> ip = LOOPBACK_IP \<and> (\<exists>f\<in>set (px_forwards px). p = host_port f)
           \<or> (\<exists>name port addrs. opened_name cfg (px_secrets px) name \<and> resolve name port = Inr addrs
                \<and> find is_ipv4 addrs = Some a)))"

lemma session_opened:
  assumes "exec_run env call w = (r, v)" "w_proxied w = None" "w_proxied v = Some px"
    "explicitly_allowed (effective_allowlist (px_discover px) (px_allowed px)) name"
  shows "opened_name (xc_config call) (px_secrets px) name"
proof -
  obtain xs :: "(string \<times> secret_binding) list" where xs: "px_discover px = ec_discover (xc_config call)"
    "px_allowed px = allowed_host_list (ec_allow_specs (xc_config call)) (map snd xs)"
    using session_proxied[OF assms(1-3)] by blast
  have d: "\<not> ec_discover (xc_config call)" "explicitly_allowed (px_allowed px) name"
    using assms(4) xs(1) by (auto simp: effective_allowlist_def explicitly_allowed_def split: if_splits)
  then have "''*'' \<notin> set (ec_allow_specs (xc_config call))"
    by (auto simp: xs(2) allowed_host_list_def explicitly_allowed_def list_ex_iff split: if_splits)
  moreover have "host_allowed (px_allowed px) name"
    using d(2) by (simp add: explicitly_allowed_def host_allowed_def split: option.splits)
  ultimately show ?thesis using session_allowed_entry[OF assms(1-3)] d(1) by (simp add: opened_name_def)
qed

text \<open>
  C4: a session opens no way into the network of its host. Take any connection the poll loop of a session
  has started a thread for. Nothing the thread does depends on how an address would answer that is
  private, unless it is the loopback address at a forwarded port, or a name that the command line, the
  configuration or a secret lists explicitly resolves to it: not with discovery, and not with a star.
\<close>
theorem session_opens_no_private_address:
  assumes run: "exec_run env call w = (r, v)" "w_proxied w = None" "w_proxied v = Some px"
    and loop: "proxy_run lops tops capacity (px_timeout px) (px_discover px) (px_allowed px) dns (px_forwards px) inps = Some (Inr st)"
      "(h, kind) \<in> set (threads st)"
    and dial: "\<And>a. may_dial (xc_config call) px (resolve_host up) a \<Longrightarrow> dial up a = dial' a"
    and connect: "\<And>a. may_dial (xc_config call) px (rl_resolve relay) a \<Longrightarrow> rl_connect relay a = connect' a"
  shows "connection_thread wr http up relay reads sni g data tx px kind
    = connection_thread wr http (up\<lparr>dial := dial'\<rparr>) (relay\<lparr>rl_connect := connect'\<rparr>) reads sni g data tx px kind"
proof (cases kind)
  case Tls_mitm
  let ?A = "effective_allowlist (px_discover px) (px_allowed px)"
  have "connect_upstream (resolve_host up) (dial up) (client_session up) sni 443 (explicitly_allowed ?A sni)
    = connect_upstream (resolve_host up) dial' (client_session up) sni 443 (explicitly_allowed ?A sni)"
    using session_opened[OF run, of sni] by (intro connect_upstream_cong dial) (auto simp: may_dial_def)
  then have "upstream_session up ?A sni = upstream_session (up\<lparr>dial := dial'\<rparr>) ?A sni" by (simp add: upstream_session_def)
  from tls_thread_cong[OF this] show ?thesis by (simp add: connection_thread_def Tls_mitm session_thread_def)
next
  case (Tcp_forward p)
  then have "may_dial (xc_config call) px (rl_resolve relay) (V4 (127, 0, 0, 1) p)"
    using proxy_run_kinds[OF loop] by (auto simp: kind_ok_def may_dial_def LOOPBACK_IP_def)
  from connect[OF this] show ?thesis
    by (simp add: connection_thread_def Tcp_forward tcp_forward_thread_def relay_stream_connect split: sum.split)
next
  case (Ssh_relay host allow)
  have "ssh_connect relay host allow = ssh_connect (relay\<lparr>rl_connect := connect'\<rparr>) host allow"
    using session_opened[OF run, of host] proxy_run_kinds[OF loop] Ssh_relay
    by (intro ssh_connect_cong connect) (auto simp: may_dial_def kind_ok_def)
  from ssh_relay_thread_cong[OF this] show ?thesis by (simp add: connection_thread_def Ssh_relay)
qed (simp add: connection_thread_def)

subsection \<open>A session that has accepted a connection\<close>

lemma update_length: "length (AList.update k v xs) \<le> Suc (length xs)"
  by (induction xs) auto

lemma accept_handle_grows:
  "accept_handle ops disc allowed port kind h st = (h', st') \<Longrightarrow>
   set (threads st) \<subseteq> set (threads st') \<and> length (conns st') \<le> Suc (length (conns st))"
  by (auto simp: accept_handle_def add_tcp_listener_def close_handle_def accept_into_def Let_def update_length
      split: option.splits if_splits accept_decision.splits conn_kind.splits prod.splits)

lemma accept_handles_grow:
  "accept_handles ops disc allowed port kind hs st = (hs', st') \<Longrightarrow>
   set (threads st) \<subseteq> set (threads st') \<and> length (conns st') \<le> length hs + length (conns st)"
proof (induction hs arbitrary: st hs' st')
  case (Cons h hs)
  obtain h1 st1 where 1: "accept_handle ops disc allowed port kind h st = (h1, st1)" by fastforce
  obtain hs2 st2 where 2: "accept_handles ops disc allowed port kind hs st1 = (hs2, st2)" by fastforce
  show ?case using accept_handle_grows[OF 1] Cons.IH[OF 2] Cons.prems 1 2 by auto
qed simp

lemma accept_backlogs_grow:
  "accept_backlogs ops disc allowed bs st = (bs', st') \<Longrightarrow> set (threads st) \<subseteq> set (threads st')"
proof (induction bs arbitrary: st bs' st')
  case (Cons b bs)
  obtain hs1 st1 where 1: "accept_handles ops disc allowed (bl_port b) (bl_kind b) (bl_handles b) st = (hs1, st1)" by fastforce
  obtain bs2 st2 where 2: "accept_backlogs ops disc allowed bs st1 = (bs2, st2)" by fastforce
  show ?case using accept_handles_grow[OF 1] Cons.IH[OF 2] Cons.prems 1 2 by auto
qed simp

lemma tls_accepted:
  assumes "accept_handle ops disc allowed port B_tls h st = (h', st')" "map_of (socks st) h = Some s"
    "l_may_recv ops s" "\<not> l_listening ops s" "length (conns st) < MAX_CONNECTIONS"
  shows "(h, Tls_mitm) \<in> set (threads st')"
  using assms
  by (auto simp: accept_handle_def accept_decision_def accept_into_def new_conn_def add_tcp_listener_def Let_def)

text \<open>A network of sockets that are always ready.\<close>

definition ready_listen :: "unit listen_ops" where
  "ready_listen = \<lparr>l_may_recv = (\<lambda>_. True), l_listening = (\<lambda>_. False), l_local_ip = (\<lambda>_. None),
     l_close = id, l_new = (\<lambda>_. ()), l_slot = (\<lambda>hs. foldr (\<lambda>h n. max (Suc h) n) hs 0)\<rparr>"

definition ready_ops :: "unit tcp_ops" where
  "ready_ops = \<lparr>may_recv = (\<lambda>_. True), recv_slice = (\<lambda>n s. (None, s)), send_capacity = (\<lambda>_. 4), send_queue = (\<lambda>_. 0),
     send_slice = (\<lambda>b s. (None, s)), is_active = (\<lambda>_. True), close_socket = id\<rparr>"

definition ready_turn :: "(unit, nat) turn_input" where
  "ready_turn = \<lparr>in_elapsed = 5, in_peer_closed = False, in_sends = (\<lambda>_ c. c), in_takes = (\<lambda>_ c. c), in_found = [],
     in_poll = (\<lambda>ss. ss), in_changed = True, in_queries = []\<rparr>"

lemma ready_fresh: "fresh_slots ready_listen"
proof -
  have "h \<in> set hs \<Longrightarrow> h < foldr (\<lambda>h n. max (Suc h) n) hs 0" for h and hs :: "nat list"
    by (induction hs) auto
  then show ?thesis by (fastforce simp: fresh_slots_def ready_listen_def)
qed

lemma ready_contract: "tcp_contract ready_ops (\<lambda>_. [])"
  by (auto simp: tcp_contract_def ready_ops_def Let_def)

lemma ready_turn_accepts:
  assumes "loop_inv A st" "backlog_shape (backlogs st) = expected_backlogs forwards" "conns st = []"
  shows "\<exists>h st'. proxy_turn ready_listen ready_ops 16 9 disc A ready_turn st = Some (Inr st') \<and> (h, Tls_mitm) \<in> set (threads st')"
proof -
  have "backlog_shape (backlogs st) = (80, B_http, 4) # (443, B_tls, LISTEN_BACKLOG) # (22, B_ssh, LISTEN_BACKLOG)
      # map (\<lambda>f. (guest_port f, B_forward (host_port f), LISTEN_BACKLOG)) forwards"
    using assms(2) by (simp add: expected_backlogs_def)
  then obtain b1 b2 bs where b: "backlogs st = b1 # b2 # bs" "bl_kind b2 = B_tls" "length (bl_handles b1) = 4" "length (bl_handles b2) = 32"
    by (auto simp: backlog_shape_def LISTEN_BACKLOG_def map_eq_Cons_conv)
  obtain h hs where h: "bl_handles b2 = h # hs" using b(4) by (cases "bl_handles b2") auto
  define st0 where "st0 = fst (dns_turn 16 (in_queries ready_turn) (st\<lparr>conns := threads_turn (in_sends ready_turn) (in_takes ready_turn) (conns st),
     found := fold insort_insert (in_found ready_turn) (found st)\<rparr>))"
  have 0: "loop_ok A ([] @ bl_handles b1 @ concat (map bl_handles (b2 # bs))) st0" "conns st0 = []"
    using assms(1,3) b(1) unfolding st0_def
    by (auto simp: dns_turn_def ready_turn_def threads_turn_def loop_inv_def listeners_def loop_ok_def Let_def)
  obtain hs1 st1 where 1: "accept_handles ready_listen disc A (bl_port b1) (bl_kind b1) (bl_handles b1) st0 = (hs1, st1)" by fastforce
  have ok: "loop_ok A ([] @ hs1 @ concat (map bl_handles (b2 # bs))) st1" by (rule accept_handles_ok[OF ready_fresh 0(1) 1])
  have len: "length (conns st1) < MAX_CONNECTIONS" using accept_handles_grow[OF 1] b(3) 0(2) by (simp add: MAX_CONNECTIONS_def)
  have "h \<in> set (map fst (socks st1))" using ok h by (auto simp: loop_ok_def)
  then have "map_of (socks st1) h \<noteq> None" by (simp add: map_of_eq_None_iff)
  then obtain s where s: "map_of (socks st1) h = Some s" by blast
  obtain h2 st2 where 2: "accept_handle ready_listen disc A (bl_port b2) B_tls h st1 = (h2, st2)" by fastforce
  obtain hs3 st3 where 3: "accept_handles ready_listen disc A (bl_port b2) B_tls hs st2 = (hs3, st3)" by fastforce
  obtain bs4 st4 where 4: "accept_backlogs ready_listen disc A bs st3 = (bs4, st4)" by fastforce
  have "(h, Tls_mitm) \<in> set (threads st2)" by (rule tls_accepted[OF 2 s _ _ len]) (simp_all add: ready_listen_def)
  then have t: "(h, Tls_mitm) \<in> set (threads st4)" using accept_handles_grow[OF 3] accept_backlogs_grow[OF 4] by blast
  have a: "accept_backlogs ready_listen disc A (backlogs st) st0 = (b1\<lparr>bl_handles := hs1\<rparr> # b2\<lparr>bl_handles := h2 # hs3\<rparr> # bs4, st4)"
    using 1 2 3 4 by (simp add: b(1,2) h)
  have p: "in_poll ready_turn ss = ss" for ss by (simp add: ready_turn_def)
  obtain r where r: "proxy_turn ready_listen ready_ops 16 9 disc A ready_turn st = Some r"
    using proxy_turn_ok[OF ready_fresh ready_contract _ assms(1), of ready_turn 16 9 disc] p by auto
  have "\<not> ((9 :: nat) \<noteq> 0 \<and> in_elapsed ready_turn > 9)" "\<not> in_peer_closed ready_turn" "in_changed ready_turn"
    by (simp_all add: ready_turn_def)
  then obtain st' where "r = Inr st'" "threads st' = threads st4"
    using r a p by (auto simp: proxy_turn_def Let_def st0_def split: bind_splits prod.splits)
  then show ?thesis using r t by auto
qed

lemma ready_session:
  assumes "px_timeout px = 9"
  shows "\<exists>h st. proxy_run ready_listen ready_ops 16 (px_timeout px) (px_discover px) (px_allowed px) (0, ()) (px_forwards px) [ready_turn]
      = Some (Inr st) \<and> (h, Tls_mitm) \<in> set (threads st)"
proof -
  have "conns (add_backlog ready_listen port kind n st) = conns st" for port kind n and st :: "unit proxy_loop"
  proof -
    have "add_listeners ready_listen port n st = (hs, st') \<Longrightarrow> conns st' = conns st" for hs st' and st :: "unit proxy_loop"
      by (induction n arbitrary: st hs st') (auto simp: add_tcp_listener_def Let_def split: prod.splits)
    then show ?thesis by (auto simp: add_backlog_def split: prod.split)
  qed
  note b = this
  have "conns (foldl (\<lambda>st f. add_backlog ready_listen (guest_port f) (B_forward (host_port f)) LISTEN_BACKLOG st) st fs) = conns st"
    for st and fs :: "forward_spec list"
    by (induction fs arbitrary: st) (simp_all add: b)
  then have "conns (proxy_setup ready_listen (0, ()) (px_forwards px)) = []" by (simp add: proxy_setup_def Let_def b)
  from ready_turn_accepts[OF proxy_setup_inv[OF ready_fresh] proxy_setup_shape this,
      of "px_discover px" "effective_allowlist (px_discover px) (px_allowed px)"]
  obtain h st where "proxy_turn ready_listen ready_ops 16 9 (px_discover px) (effective_allowlist (px_discover px) (px_allowed px)) ready_turn
      (proxy_setup ready_listen (0, ()) (px_forwards px)) = Some (Inr st)" "(h, Tls_mitm) \<in> set (threads st)" by blast
  then show ?thesis by (intro exI[of _ h] exI[of _ st]) (simp add: proxy_run_def assms)
qed

lemma not_dialed_10:
  assumes "may_dial cfg px (\<lambda>_ _. Inr [V4 (b, c, d, e) q]) a" "b \<noteq> 10"
  obtains ip p where "a = V4 ip p" "fst ip \<noteq> 10"
proof -
  obtain ip p where a: "a = V4 ip p" "\<not> is_private_ip ip \<or> ip = LOOPBACK_IP \<or> V4 (b, c, d, e) q = a"
    using assms(1) unfolding may_dial_def by fastforce
  have "\<not> is_private_ip ip \<Longrightarrow> fst ip \<noteq> 10" by (cases ip) (simp add: is_private_ip_def)
  then have "fst ip \<noteq> 10" using a assms(2) by (auto simp: LOOPBACK_IP_def)
  then show thesis using that a(1) by blast
qed

lemma session_opens_no_private_address_witness:
  "\<exists>px h st. w_proxied (snd (exec_run (demo_run_env\<lparr>re_secret := demo_secret_env ''sk-1''\<rparr>) demo_call demo_world)) = Some px
     \<and> proxy_run ready_listen ready_ops 16 (px_timeout px) (px_discover px) (px_allowed px) (0, ()) (px_forwards px) [ready_turn] = Some (Inr st)
     \<and> (h, Tls_mitm) \<in> set (threads st)
     \<and> connection_thread demo_writer demo_env demo_upstream demo_relay [Inr demo_request] ''a.test'' [] [] open_chan px Tls_mitm
       = connection_thread demo_writer demo_env
           (demo_upstream\<lparr>dial := \<lambda>a. case a of V4 ip p \<Rightarrow> if fst ip = 10 then Inr () else Inl (Connect_failed ''refused'') | V6 ip p \<Rightarrow> Inr ()\<rparr>)
           (demo_relay\<lparr>rl_connect := \<lambda>a. case a of V4 ip p \<Rightarrow> if fst ip = 10 then Inl Dns_not_found else Inr [] | V6 ip p \<Rightarrow> Inr []\<rparr>)
           [Inr demo_request] ''a.test'' [] [] open_chan px Tls_mitm"
proof -
  obtain r v px where 1: "exec_run (demo_run_env\<lparr>re_secret := demo_secret_env ''sk-1''\<rparr>) demo_call demo_world = (r, v)"
    "w_proxied v = Some px" and t: "px_timeout px = 9"
    by (rule demo_session[OF demo_resolved(1)])
  obtain h st where 2: "proxy_run ready_listen ready_ops 16 (px_timeout px) (px_discover px) (px_allowed px) (0, ()) (px_forwards px) [ready_turn]
      = Some (Inr st)" "(h, Tls_mitm) \<in> set (threads st)"
    using ready_session[OF t] by blast
  have w: "w_proxied demo_world = None" by (simp add: demo_world_def)
  have d: "dial demo_upstream a = (case a of V4 ip p \<Rightarrow> if fst ip = 10 then Inr () else Inl (Connect_failed ''refused'') | V6 ip p \<Rightarrow> Inr ())"
    if "may_dial (xc_config demo_call) px (resolve_host demo_upstream) a" for a
    using that unfolding demo_upstream_def upstream_env.simps by (rule not_dialed_10) simp_all
  have c: "rl_connect demo_relay a = (case a of V4 ip p \<Rightarrow> if fst ip = 10 then Inl Dns_not_found else Inr [] | V6 ip p \<Rightarrow> Inr [])"
    if "may_dial (xc_config demo_call) px (rl_resolve demo_relay) a" for a
    using that unfolding demo_relay_def relay_env.simps by (rule not_dialed_10) simp_all
  note same = session_opens_no_private_address[OF 1(1) w 1(2) 2 d c, where wr = demo_writer and http = demo_env
      and reads = "[Inr demo_request]" and sni = "''a.test''" and g = "[]" and data = "[]" and tx = open_chan]
  show ?thesis unfolding 1(1) snd_conv
    by (rule exI[of _ px], rule exI[of _ h], rule exI[of _ st]) (rule conjI[OF 1(2) conjI[OF 2(1) conjI[OF 2(2) same]]])
qed

end
