(* ===== verification/Edges.thy ===== *)
theory Edges
  imports Secret Agent Session Chrome NetDev Tls
begin

text \<open>
  Small operations at the edges of the components: the error type and its messages, the TLS
  configuration of upstream connections, the debug output and the end of a secret binding, the command
  that starts Chrome, the descriptor limit of the VM process, the hints for a missing credential and the
  hexadecimal encoder of session identifiers.
\<close>

subsection \<open>The error type\<close>

text \<open>\<^verbatim>\<open>src/src/error.rs\<close>. An I/O error has a kind and a message, a rustls error a message.\<close>

datatype error = Io io_error string | Tls_error string | Config_error string

definition error_message :: "error \<Rightarrow> string" where
  "error_message e = (case e of Io k m \<Rightarrow> m | Tls_error m \<Rightarrow> ''tls: '' @ m | Config_error m \<Rightarrow> m)"

definition error_of_string :: "string \<Rightarrow> error" where
  "error_of_string s = Config_error s"

text \<open>A lost channel is a broken pipe; the message is that of the standard library.\<close>

definition error_of_send :: "string \<Rightarrow> error" where
  "error_of_send message = Io BrokenPipe message"

lemma error_message_conversions [simp]:
  "error_message (error_of_string s) = s" "error_message (error_of_send s) = s"
  by (simp_all add: error_message_def error_of_string_def error_of_send_def)

subsection \<open>The TLS configuration of upstream connections\<close>

record 'cert client_config =
  root_store :: "'cert list"
  client_auth :: bool
  alpn_protocols :: "string list"

definition UPSTREAM_TLS_CONFIG :: "'cert list \<Rightarrow> 'cert client_config" where
  "UPSTREAM_TLS_CONFIG tls_server_roots =
     (let config = \<lparr>root_store = [] @ tls_server_roots, client_auth = False, alpn_protocols = []\<rparr>
      in config\<lparr>alpn_protocols := [''http/1.1'']\<rparr>)"

text \<open>RFC 7301: the protocol of a session is one that the client offered, or none was agreed on; rustls ends the
  handshake of a server that answers with another one.\<close>

definition may_negotiate :: "'cert client_config \<Rightarrow> string option \<Rightarrow> bool" where
  "may_negotiate config p = (case p of None \<Rightarrow> True | Some p \<Rightarrow> p \<in> set (alpn_protocols config))"

lemma never_http2: "may_negotiate (UPSTREAM_TLS_CONFIG roots) p \<Longrightarrow> p = None \<or> p = Some ''http/1.1''"
  by (simp add: may_negotiate_def UPSTREAM_TLS_CONFIG_def split: option.splits)

subsection \<open>Secret bindings\<close>

text \<open>The fields that \<^verbatim>\<open>Debug\<close> shows, and what is left in memory when a binding is dropped.\<close>

definition debug_binding :: "secret_binding \<Rightarrow> (string \<times> string list) list" where
  "debug_binding b = [(''placeholder'', [placeholder b]), (''real_value'', [''[REDACTED]'']), (''allowed_hosts'', allowed_hosts b)]"

definition zeroize :: "string \<Rightarrow> string" where
  "zeroize s = map (\<lambda>_. CHR 0x00) s"

definition drop_binding :: "secret_binding \<Rightarrow> secret_binding" where
  "drop_binding b = b\<lparr>placeholder := zeroize (placeholder b), real_value := zeroize (real_value b)\<rparr>"

lemma debug_hides_value: "debug_binding (b\<lparr>real_value := v\<rparr>) = debug_binding b"
  by (simp add: debug_binding_def)

lemma zeroize_same: "length s = length s' \<Longrightarrow> zeroize s = zeroize s'"
  by (auto simp: zeroize_def intro: nth_equalityI)

text \<open>Only the lengths of a dropped binding remain.\<close>

lemma dropped_binding_forgets:
  "length (real_value b) = length v \<Longrightarrow> length (placeholder b) = length p \<Longrightarrow>
   drop_binding (b\<lparr>real_value := v, placeholder := p\<rparr>) = drop_binding b"
  using zeroize_same[of "real_value b" v] zeroize_same[of "placeholder b" p] by (simp add: drop_binding_def)

subsection \<open>Starting Chrome\<close>

datatype stdio = Stdio_null | Stdio_piped

record command =
  program :: path
  args :: "string list"
  standard_streams :: "stdio \<times> stdio \<times> stdio"
  own_group :: bool
  death_signal :: "signal option"

text \<open>\<^verbatim>\<open>spawn_chrome\<close>: the command, and the child that \<^verbatim>\<open>spawn\<close> makes of it.\<close>

definition chrome_command :: "path \<Rightarrow> path \<Rightarrow> 16 word \<Rightarrow> command" where
  "chrome_command chrome profile_dir proxy_port =
     (let cmd = \<lparr>program = chrome, args = spawn_chrome_args profile_dir proxy_port,
                 standard_streams = (Stdio_null, Stdio_null, Stdio_piped), own_group = False, death_signal = None\<rparr>;
          cmd = cmd\<lparr>own_group := True\<rparr>
      in cmd\<lparr>death_signal := Some SIGTERM\<rparr>)"

definition spawn_chrome :: "(command \<Rightarrow> string + 32 word) \<Rightarrow> path \<Rightarrow> path \<Rightarrow> 16 word \<Rightarrow> string + 32 word" where
  "spawn_chrome spawn chrome profile_dir proxy_port = spawn (chrome_command chrome profile_dir proxy_port)"

text \<open>Chrome goes through the allowlist proxy, for the loopback addresses too, is debugged on the loopback address only,
  and is in a group of its own, so that the signals of \<^verbatim>\<open>drop\<close> reach all of it and nothing else.\<close>

lemma chrome_command_confined:
  "''--proxy-server=http://127.0.0.1:'' @ show_nat (unat port) \<in> set (args (chrome_command chrome dir port))"
  "''--proxy-bypass-list=<-loopback>'' \<in> set (args (chrome_command chrome dir port))"
  "''--remote-debugging-address=127.0.0.1'' \<in> set (args (chrome_command chrome dir port))"
  "own_group (chrome_command chrome dir port)" "death_signal (chrome_command chrome dir port) = Some SIGTERM"
  by (simp_all add: chrome_command_def spawn_chrome_args_def Let_def)

subsection \<open>The descriptor limit\<close>

text \<open>The first step of \<^verbatim>\<open>run_vm\<close>: what \<^verbatim>\<open>getrlimit\<close> gives (soft, hard), and what \<^verbatim>\<open>setrlimit\<close> is asked, if
  it is called.\<close>

definition raise_fd_limit :: "(nat \<times> nat) option \<Rightarrow> (nat \<times> nat) option" where
  "raise_fd_limit limit = (case limit of None \<Rightarrow> None | Some (cur, hard) \<Rightarrow> Some (hard, hard))"

lemma raise_fd_limit_ok:
  "raise_fd_limit (Some (cur, hard)) = Some (cur', hard') \<Longrightarrow> cur \<le> hard \<Longrightarrow> cur \<le> cur' \<and> cur' \<le> hard' \<and> hard' = hard"
  by (simp add: raise_fd_limit_def)

subsection \<open>Hints for a missing credential\<close>

text \<open>\<^verbatim>\<open>print_agent_auth_hint\<close>: one line per method.\<close>

definition auth_hint :: "auth_method \<Rightarrow> string" where
  "auth_hint m =
     (case m of
        Env_secret v hosts env \<Rightarrow>
          if v = ''CLAUDE_CODE_OAUTH_TOKEN''
          then ''  run `claude setup-token`, then export CLAUDE_CODE_OAUTH_TOKEN (1-year)''
          else ''  export '' @ v @ ''=...''
      | Staged_files dir probe files guest_dir hosts env \<Rightarrow>
          ''  or sign in so ~/'' @ dir @ ''/'' @ probe @ '' exists (less reliable; it can go stale)'')"

definition agent_auth_hint :: "agent_def \<Rightarrow> string list" where
  "agent_auth_hint agent = map auth_hint (ag_auth agent)"

lemma auth_hint_names:
  "case m of Env_secret v hosts env \<Rightarrow> \<exists>a b. auth_hint m = a @ v @ b
   | Staged_files dir probe files guest_dir hosts env \<Rightarrow> \<exists>a b. auth_hint m = a @ dir @ ''/'' @ probe @ b"
proof (cases m)
  case (Env_secret v hosts env)
  have "auth_hint m = ''  run `claude setup-token`, then export '' @ v @ '' (1-year)'' \<or> auth_hint m = ''  export '' @ v @ ''=...''"
    by (simp add: auth_hint_def Env_secret)
  then show ?thesis unfolding Env_secret auth_method.case by blast
next
  case (Staged_files dir probe files guest_dir hosts env)
  have "auth_hint m = ''  or sign in so ~/'' @ dir @ ''/'' @ probe @ '' exists (less reliable; it can go stale)''"
    by (simp add: auth_hint_def Staged_files)
  then show ?thesis unfolding Staged_files auth_method.case by blast
qed

subsection \<open>The hexadecimal encoder\<close>

text \<open>The fold of \<^verbatim>\<open>hex::encode\<close> in \<^verbatim>\<open>src/src/session.rs\<close> is the encoder of the other models.\<close>

definition session_hex :: "bytes \<Rightarrow> string" where
  "session_hex bytes = fold (\<lambda>b s. s @ hex_byte b) bytes []"

lemma session_hex_encode: "session_hex bytes = hex_encode bytes"
proof -
  have "fold (\<lambda>b s. s @ hex_byte b) bytes s = s @ hex_encode bytes" for s
    by (induction bytes arbitrary: s) (simp_all add: hex_encode_def)
  then show ?thesis by (simp add: session_hex_def)
qed

end
