(* ===== verification/Spec2Isabelle.thy ===== *)
theory Spec2Isabelle
  imports Ca Cli Egress Edges
begin

text \<open>
  A verification library for redan, a sandbox that runs a command (usually a coding agent) in a
  libkrun micro-VM whose only network is a proxy on the host.

  \<^bold>\<open>The program.\<close> \<^verbatim>\<open>redan exec\<close> and \<^verbatim>\<open>redan run\<close> (\<^verbatim>\<open>src/src/main.rs\<close>) choose a configuration: a
  \<^verbatim>\<open>redan.toml\<close> found by discovery and admitted by the trust gate (\<^verbatim>\<open>config.rs\<close>, \<^verbatim>\<open>trust.rs\<close>,
  \<^verbatim>\<open>cmd/trust.rs\<close>), an agent profile (\<^verbatim>\<open>auto_detect.rs\<close>), or flags. \<^verbatim>\<open>launch\<close> merges them and calls
  \<^verbatim>\<open>cmd::exec::run\<close>, directly or through a detached daemon. A run resolves the secrets
  (\<^verbatim>\<open>provider.rs\<close>), gives the guest placeholders for them, boots the VM (\<^verbatim>\<open>vm.rs\<close>) and enters the poll
  loop of the proxy (\<^verbatim>\<open>proxy.rs\<close>). The guest's Ethernet frames come over a unix socket (\<^verbatim>\<open>net.rs\<close>);
  names resolve to addresses of a private pool (\<^verbatim>\<open>dns.rs\<close>, \<^verbatim>\<open>HostMap\<close>); each accepted connection has a
  thread that terminates TLS with a minted certificate (\<^verbatim>\<open>ca.rs\<close>), checks the request, replaces
  placeholders by secrets (\<^verbatim>\<open>secret.rs\<close>), contacts the real host (\<^verbatim>\<open>tls.rs\<close>) and scrubs the secrets from
  the response. SSH and forwarded ports are relayed unchanged, a browser on the host has its own
  allowlist proxy (\<^verbatim>\<open>browser.rs\<close>). Sessions, their logs and the images are directories
  (\<^verbatim>\<open>session.rs\<close>, \<^verbatim>\<open>logfmt.rs\<close>, \<^verbatim>\<open>cmd/logs.rs\<close>, \<^verbatim>\<open>image.rs\<close>, \<^verbatim>\<open>image_meta.rs\<close>).

  \<^bold>\<open>Foundations.\<close> \<open>Prelude\<close> has results as sums (\<open>bindR\<close>), bytes as characters, the string operations of
  the standard library and the collections \<open>str_simps\<close> and \<open>res_inv\<close>. \<open>Utf8\<close> decides and decodes
  UTF-8 and trims. \<open>BTree\<close> has ordered maps as sorted association lists. \<open>Host\<close> is the environment of
  the command line: variables, the file system as a map from paths to entries, an exit as an error
  value; \<open>Dirs\<close> adds directories, with the frame \<open>keeps\<close>; \<open>Links\<close> adds symbolic links and the operations
  that follow them; \<open>Process\<close> has signals and their targets; \<open>Terminal\<close> is \<^verbatim>\<open>terminal.rs\<close>.

  \<^bold>\<open>Secrets and HTTP.\<close> \<open>ByteReplace\<close>, \<open>HttpTypes\<close> and \<open>Secret\<close> model \<^verbatim>\<open>secret.rs\<close>: the replacement loop and
  its reference, bindings, injection, scrubbing, header rewriting. Shown: the loop is leftmost
  replacement; injection keeps the structure of a request; injection and scrubbing are scoped to the
  host; scrubbing undoes injection. \<open>ScrubStream\<close> models the chunked scrubber of \<^verbatim>\<open>proxy.rs\<close> over any
  writer (the locale \<open>writer\<close>, interpreted on a recording writer here and on the thread's channel in
  \<open>Conn\<close>): no fenced secret of at most 8192 bytes survives, however the response is cut. \<open>Http\<close> has the
  request and response predicates, host patterns and rewriting.

  \<^bold>\<open>The network.\<close> \<open>HostMap\<close> is the address pool with its 8-bit counter; its locale \<open>host_pool\<close> is the
  interface \<open>Dns\<close> and \<open>Proxy\<close> rely on. \<open>Dns\<close> is the resolver on octets, \<open>NetDev\<close> the framing,
  \<open>Forward\<close> the port specifications, \<open>Tls\<close> the upstream connection with the private-address check (shown
  equal to twelve CIDR blocks), \<open>Ca\<close> the certificate cache. \<open>Conn\<close> is the state machine of a proxied
  connection: a turn of the poll loop as a function that always ends, and the interleaving with
  the thread as the step relation \<open>conn_step\<close>, for which delivery in order is shown. \<open>TlsThread\<close> is the
  connection thread in all its phases; \<open>Relay\<close> the two transparent relays; \<open>Proxy\<close> the poll loop with
  its invariant. \<open>Browser\<close> is the browser's proxy and \<open>Chrome\<close> the browser process.

  \<^bold>\<open>Configuration and commands.\<close> \<open>Config\<close> has the configuration, its layering and discovery; \<open>Provider\<close> the
  secret providers; \<open>Trust\<close> the capabilities, the store (the locale \<open>trust_store\<close>, interpreted on the
  store file) and the gate; \<open>Agent\<close> the agent profiles; \<open>Exec\<close> the parsers and phases of
  \<^verbatim>\<open>cmd::exec::run\<close>; \<open>Rootfs\<close> what a session writes into the root of the guest (shown contained in it, unless a guest
  planted links); \<open>Vm\<close> the sequence of libkrun calls; \<open>Session\<close>, \<open>Daemon\<close> and \<open>Stop\<close> sessions, the hand-over to
  the daemon and stopping; \<open>Logfmt\<close> the log viewer; \<open>Jsonc\<close> and \<open>Image\<close> the images; \<open>Launch\<close> the way from
  arguments to a run, and the composition of the gate with it. \<open>Templates\<close> and \<open>Init\<close> are \<^verbatim>\<open>templates.rs\<close> and
  \<^verbatim>\<open>cmd/init.rs\<close>, \<open>Doctor\<close> is \<^verbatim>\<open>cmd/doctor.rs\<close>.

  \<^bold>\<open>Whole runs.\<close> \<open>Run\<close> composes \<^verbatim>\<open>cmd::exec::run\<close> over one world (files with links, terminal, VM, browser):
  session, certificate, preparation, boot, forwards, browser, proxy loop, teardown. Shown: a run that
  returns leaves terminal and browser as they were, and a started session ends once the guest is gone or
  the time is over. \<open>Traffic\<close> composes the run with the thread of its TLS connections: the value of a secret
  reaches only the hosts the specification of the secret names, only allowed hosts are contacted, and a thread returns as
  long as its TLS writes make progress (\<open>draining\<close>). \<open>Egress\<close> composes the run with the poll loop and the threads of every
  kind of connection: no private address matters to a session, except forwarded loopback ports and what
  an explicitly listed name resolves to. \<open>Attach\<close> is \<^verbatim>\<open>attach_session\<close>, which is shown never to attach. \<open>Cli\<close> has the commands and
  \<^verbatim>\<open>main\<close>: every command reaches the definitions of its component, commands that only look change nothing
  (\<open>looking_changes_nothing\<close>), and no session identifier that is not valid gets through. \<open>Edges\<close> has small
  operations at the rim of the components: the error type (\<^verbatim>\<open>error.rs\<close>), the client configuration of \<^verbatim>\<open>tls.rs\<close>, the
  debug output of a binding, the command that starts Chrome, the descriptor limit, credential hints.

  \<^bold>\<open>Parameters.\<close> Code that is not the program's own is an argument: httparse, base64, serde, toml, SHA-256,
  rustls, smoltcp sockets, libkrun, rcgen, git, curl, tar, docker, name resolution, clocks and
  random bytes. Where a property needs their documented behaviour it is a named hypothesis
  (\<open>request_parser\<close>, \<open>tcp_contract\<close>, \<open>stream_contract\<close>, \<open>draining\<close>, \<open>programs_confined\<close>), with a concrete instance
  in the witness.

  \<^bold>\<open>Bounds and fuel.\<close> Numbers are those of the code: 128 connections, backlogs of 32, 8192 bytes of secret and of
  a browser request head, 65536 octets of a frame, 1024 cached certificates, 30 polls after SIGTERM,
  32 browser workers. Loops that end by a measure are functions with their termination proofs.
  The handshake with the upstream makes at most 1000 turns and fails when it is not complete by then;
  the rounds of a response relay are driven by the list of what the peer does and end with it; the poll loop runs for as many turns as it is given and its
  invariant holds after each number of turns. Follow mode of the log viewer is a fold over the reads.

  \<^bold>\<open>Not modelled.\<close> \<^verbatim>\<open>ffi.rs\<close> (foreign declarations); splitting the words of
  the command line, which clap does, and minijinja, whose texts are written out as functions. The operating system answers by parameters (fork, the socket pair,
  termios, signals), and redirecting stderr is taken to succeed. Some definitions end in an exit without saying which files they had
  changed by then (\<open>Exited\<close> of \<open>Cli\<close> shows where). Log messages and the text that only goes to stderr are left out, except where a
  component is about them.
\<close>

end
